(* ===== verification/Prelude.thy ===== *)
theory Prelude
  imports Complex_Main "HOL-Library.Word" "HOL-Library.AList" "HOL-Library.Multiset"
begin

section \<open>Prelude: Go values, time and panics\<close>

text \<open>
  What every component of the model shares: the machine integers and times of the Go program,
  the outcome of a call that may panic, and the generic lemmas on words, sums and lists the component
  proofs use.

  A \<open>time.Time\<close> is the number of nanoseconds since Go's zero time, so the zero time is
  \<open>0\<close> and \<open>Round\<close> and \<open>Truncate\<close>, which Go defines relative to the zero time,
  are plain arithmetic. A \<open>time.Duration\<close> is a number of nanoseconds. Both are unbounded:
  the program never comes near the 292 years at which an \<open>int64\<close> of nanoseconds overflows.
\<close>

named_theorems go_time \<open>definitions of the functions of package time\<close>
named_theorems go_outcome \<open>rules for calls that may panic\<close>

type_synonym u64 = "64 word"
type_synonym Time = int
type_synonym Duration = int

subsection \<open>Time\<close>

definition time_Second :: Duration where
  "time_Second = 1000000000"

definition time_Millisecond :: Duration where
  "time_Millisecond = 1000000"

definition time_Minute :: Duration where
  "time_Minute = 60000000000"

definition time_Hour :: Duration where
  "time_Hour = 3600000000000"

text \<open>\<open>t.Round(d)\<close>: the nearest multiple of \<open>d\<close>, halves up; the identity for \<open>d \<le> 0\<close>.\<close>

definition time_Round :: "Time \<Rightarrow> Duration \<Rightarrow> Time" where
  "time_Round t d =
     (if d \<le> 0 then t
      else if t mod d + t mod d < d then t - t mod d else t + (d - t mod d))"

text \<open>\<open>t.Truncate(d)\<close>: the last multiple of \<open>d\<close> not after \<open>t\<close>.\<close>

definition time_Truncate :: "Time \<Rightarrow> Duration \<Rightarrow> Time" where
  "time_Truncate t d = (if d \<le> 0 then t else t - t mod d)"

text \<open>\<open>t.Unix()\<close>: seconds since 1970; the epoch is 62135596800 seconds after the zero time.\<close>

definition time_Unix :: "Time \<Rightarrow> int" where
  "time_Unix t = t div time_Second - 62135596800"

lemmas [go_time] = time_Second_def time_Millisecond_def time_Minute_def time_Hour_def
  time_Round_def time_Truncate_def time_Unix_def

lemma time_Round_div:
  assumes "0 < d"
  shows "time_Round t d = d * ((2 * t + d) div (2 * d))"
proof -
  let ?r = "t mod d" and ?q = "t div d"
  have t: "t = d * ?q + ?r" by simp
  have r: "0 \<le> ?r" "?r < d" using assms by simp_all
  have "2 * t + d = 2 * (d * ?q + ?r) + d" by simp
  also have "\<dots> = (2 * d) * ?q + (2 * ?r + d)"
    by (simp only: distrib_left mult.assoc add.assoc)
  finally have "(2 * t + d) div (2 * d) = ?q + (2 * ?r + d) div (2 * d)"
    using assms by (simp only: div_mult_self4 [symmetric])
  moreover have "(2 * ?r + d) div (2 * d) = (if ?r + ?r < d then 0 else 1)"
  proof (cases "?r + ?r < d")
    case True
    then show ?thesis using r by (simp add: div_pos_pos_trivial)
  next
    case False
    have "(2 * ?r + d) div (2 * d) = (2 * ?r - d + 1 * (2 * d)) div (2 * d)"
      by (simp add: algebra_simps)
    also have "\<dots> = (2 * ?r - d) div (2 * d) + 1"
      using assms by (subst div_mult_self1) simp_all
    also have "(2 * ?r - d) div (2 * d) = 0"
      using r False by (intro div_pos_pos_trivial) simp_all
    finally show ?thesis using False by simp
  qed
  ultimately have "d * ((2 * t + d) div (2 * d)) = d * ?q + d * (if ?r + ?r < d then 0 else 1)"
    by (simp add: distrib_left)
  moreover have "d * ?q = t - ?r" by (simp add: minus_mod_eq_mult_div)
  ultimately show ?thesis using assms by (simp add: time_Round_def)
qed

lemma time_Round_mono: "s \<le> t \<Longrightarrow> time_Round s d \<le> time_Round t d"
proof (cases "0 < d")
  case True
  assume "s \<le> t"
  then have "(2 * s + d) div (2 * d) \<le> (2 * t + d) div (2 * d)"
    using True by (intro zdiv_mono1) simp_all
  then show ?thesis using True by (simp add: time_Round_div)
next
  case False
  assume "s \<le> t"
  then show ?thesis using False by (simp add: time_Round_def)
qed

subsection \<open>Calls that may panic\<close>

text \<open>
  A Go call returns or panics (an index out of range, a nil pointer dereference, an explicit
  \<open>panic\<close>). The panics the source can reach are values of the model.
\<close>

datatype 'a outcome = Return 'a | Panic string

fun obind :: "'a outcome \<Rightarrow> ('a \<Rightarrow> 'b outcome) \<Rightarrow> 'b outcome" where
  obind_Return: "obind (Return x) f = f x"
| obind_Panic: "obind (Panic s) f = Panic s"

declare obind_Return [go_outcome] obind_Panic [go_outcome]

lemma obind_eq_Return [go_outcome]:
  "obind m f = Return y \<longleftrightarrow> (\<exists>x. m = Return x \<and> f x = Return y)"
  by (cases m) simp_all

definition returns :: "'a outcome \<Rightarrow> bool" where
  "returns m \<longleftrightarrow> (case m of Return _ \<Rightarrow> True | Panic _ \<Rightarrow> False)"

lemma returns_simps [simp]: "returns (Return x)" "\<not> returns (Panic s)"
  by (simp_all add: returns_def)

subsection \<open>Sums\<close>

lemma map_sum_eq_Inr: "map_sum f g x = Inr y \<longleftrightarrow> (\<exists>z. x = Inr z \<and> y = g z)"
  by (cases x) auto

subsection \<open>Words\<close>

lemma unat_u64_less: "unat (n :: u64) < 2 ^ 64"
  using unsigned_less [of n, where ?'a = nat] by simp

lemma unat_u64_of_nat: "n < 2 ^ 64 \<Longrightarrow> unat (of_nat n :: u64) = n"
  by (simp add: unat_of_nat take_bit_nat_eq_self)

lemma sint_u64: "sint (w :: u64) = (if uint w < 2 ^ 63 then uint w else uint w - 2 ^ 64)"
proof -
  have b: "0 \<le> uint w" "uint w < 2 ^ 64" using uint_bounded [of w] by simp_all
  have "sint w = (uint w + 2 ^ 63) mod 2 ^ 64 - 2 ^ 63" by (simp add: sint_uint signed_take_bit_eq_take_bit_shift take_bit_eq_mod)
  moreover have "(uint w + 2 ^ 63) mod 2 ^ 64 = (uint w + 2 ^ 63 - 2 ^ 64) mod 2 ^ 64" by (rule minus_mod_self2 [symmetric])
  ultimately show ?thesis using b by (cases "uint w < 2 ^ 63") simp_all
qed

lemma signed_below:
  fixes x p m :: u64
  assumes "x \<le> p" and "p \<le> m" and "0 \<le> sint m"
  shows "0 \<le> sint x \<and> sint x \<le> sint p"
  using assms uint_bounded [of m] by (simp add: sint_u64 word_le_def split: if_splits)

lemma unsigned_below: "0 \<le> sint x \<Longrightarrow> sint x \<le> sint p \<Longrightarrow> x \<le> p" for x p :: u64
  using uint_bounded [of x] uint_bounded [of p] by (simp add: sint_u64 word_le_def split: if_splits)

lemma sint_nonneg_unat: "0 \<le> sint (n :: u64) \<Longrightarrow> sint n = int (unat n)"
proof -
  assume n: "0 \<le> sint n"
  have "sint n < 2 ^ 64" using sint_less [of n] by simp
  with n have "uint n = sint n" by (simp add: uint_sint take_bit_int_eq_self)
  then show ?thesis by simp
qed

lemma unat_Suc_le: "unat (n + 1 :: u64) \<le> unat n + 1"
  by (simp add: unat_word_ariths)

subsection \<open>Lists\<close>

lemma dropWhile_dropWhile_mono:
  assumes "\<And>x. P x \<Longrightarrow> Q x"
  shows "dropWhile Q (dropWhile P xs) = dropWhile Q xs"
  using assms by (induction xs) auto

lemma sorted_dropWhile_le: "sorted xs \<Longrightarrow> dropWhile (\<lambda>x. x \<le> (a::'a::linorder)) xs = filter (\<lambda>x. a < x) xs"
proof (induction xs)
  case Nil
  then show ?case by simp
next
  case (Cons x xs)
  show ?case
  proof (cases "x \<le> a")
    case True
    with Cons show ?thesis by (simp add: not_less)
  next
    case False
    with Cons.prems have "\<forall>y\<in>set (x # xs). a < y" by auto
    then have "filter ((<) a) (x # xs) = x # xs" by (intro filter_True) simp
    with False show ?thesis by simp
  qed
qed

subsection \<open>Decimal numbers\<close>

text \<open>What \<open>%d\<close> of package fmt prints.\<close>

definition dec_digit :: "nat \<Rightarrow> char" where
  "dec_digit n = ''0123456789'' ! n"

fun fmt_nat :: "nat \<Rightarrow> string" where
  "fmt_nat n = (if n < 10 then [dec_digit n] else fmt_nat (n div 10) @ [dec_digit (n mod 10)])"

declare fmt_nat.simps [simp del]

definition fmt_d :: "int \<Rightarrow> string" where
  "fmt_d i = (if i < 0 then CHR ''-'' # fmt_nat (nat (- i)) else fmt_nat (nat i))"

lemma of_char_dec_digit: "n < 10 \<Longrightarrow> of_char (dec_digit n) = 48 + n"
proof -
  have "\<forall>n\<in>set [0..<10]. of_char (dec_digit n) = 48 + n" by (simp add: dec_digit_def upt_rec)
  then show "n < 10 \<Longrightarrow> ?thesis" by simp
qed

fun dec_val :: "string \<Rightarrow> nat" where
  "dec_val [] = 0"
| "dec_val (c # cs) = (of_char c - 48) * 10 ^ length cs + dec_val cs"

lemma dec_val_append: "dec_val (xs @ ys) = dec_val xs * 10 ^ length ys + dec_val ys"
  by (induction xs) (simp_all add: power_add distrib_right mult.assoc)

lemma fmt_nat_props: "dec_val (fmt_nat n) = n \<and> (\<forall>c\<in>set (fmt_nat n). (of_char c :: nat) \<in> {48..<58})"
proof (induction n rule: fmt_nat.induct)
  case (1 n)
  show ?case
  proof (cases "n < 10")
    case True
    then show ?thesis by (simp add: fmt_nat.simps [of n] of_char_dec_digit)
  next
    case False
    have "of_char (dec_digit (n mod 10)) = 48 + n mod 10" by (simp add: of_char_dec_digit)
    then show ?thesis using 1 [OF False] False by (simp add: fmt_nat.simps [of n] dec_val_append)
  qed
qed

lemma fmt_nat_digits: "c \<in> set (fmt_nat n) \<Longrightarrow> c \<noteq> CHR ''-'' \<and> c \<noteq> CHR '':''"
  using fmt_nat_props [of n] by fastforce

lemma fmt_d_inj: "fmt_d i = fmt_d j \<longleftrightarrow> i = j"
proof
  assume eq: "fmt_d i = fmt_d j"
  have val: "dec_val (fmt_nat n) = n" for n using fmt_nat_props by blast
  have minus: "fmt_nat n \<noteq> CHR ''-'' # xs" for n xs
    using fmt_nat_digits [of "CHR ''-''" n] by auto
  have nat: "fmt_nat m = fmt_nat n \<Longrightarrow> m = n" for m n using val by metis
  consider "i < 0" "j < 0" | "0 \<le> i" "0 \<le> j" | "i < 0" "0 \<le> j" | "0 \<le> i" "j < 0" by linarith
  then show "i = j"
  proof cases
    case 1
    with eq have "nat (- i) = nat (- j)" by (intro nat) (simp add: fmt_d_def)
    with 1 show ?thesis by simp
  next
    case 2
    with eq have "nat i = nat j" by (intro nat) (simp add: fmt_d_def)
    with 2 show ?thesis by simp
  next
    case 3
    with eq minus [of "nat j" "fmt_nat (nat (- i))"] show ?thesis by (simp add: fmt_d_def)
  next
    case 4
    with eq minus [of "nat i" "fmt_nat (nat (- j))"] show ?thesis by (simp add: fmt_d_def)
  qed
qed simp

lemma fmt_d_no_colon: "CHR '':'' \<notin> set (fmt_d i)"
  using fmt_nat_digits [of "CHR '':''"] by (auto simp: fmt_d_def)

subsection \<open>Splitting strings\<close>

text \<open>\<open>strings.Split\<close> with a separator of one character.\<close>

fun split_on :: "char \<Rightarrow> string \<Rightarrow> string list" where
  "split_on c [] = [[]]"
| "split_on c (x # xs) = (if x = c then [] # split_on c xs
     else case split_on c xs of [] \<Rightarrow> [[x]] | w # ws \<Rightarrow> (x # w) # ws)"

lemma split_on_nonempty [simp]: "split_on c xs \<noteq> []"
  by (induction xs) (auto split: list.splits)

lemma split_on_none: "c \<notin> set xs \<Longrightarrow> split_on c xs = [xs]"
  by (induction xs) auto

lemma split_on_append: "c \<notin> set xs \<Longrightarrow> split_on c (xs @ c # ys) = xs # split_on c ys"
  by (induction xs) auto

end
