(* ===== verification/Sliding_Window.thy ===== *)
theory Sliding_Window
  imports Prelude
begin

section \<open>The averaging sliding window\<close>

text \<open>
  Models \<^verbatim>\<open>src/pkg/avg-sliding-window/sliding.go\<close>, the moving averages each
  backend keeps of its latency, its requests and its errors. Data points are summed in buckets
  of \<open>bucketSize\<close>; a bucket leaves the window when it is older than \<open>windowLength\<close>.

  The buckets live in a linked hash map (package gods), which is not part of this repository:
  its operations are an argument \<open>L\<close> of the model and its documented behaviour is the locale
  \<open>linked_hash_map\<close>. The clock is the argument \<open>now\<close>. A \<open>float64\<close> is a rational, so
  rounding is not modelled; a \<open>uint\<close> is a 64-bit word and wraps.
\<close>

subsection \<open>State\<close>

record bucket =
  bsum :: rat
  bqty :: u64

record 'm lhm =
  lm_New :: 'm
  lm_Get :: "'m \<Rightarrow> Time \<Rightarrow> bucket option"
  lm_Put :: "'m \<Rightarrow> Time \<Rightarrow> bucket \<Rightarrow> 'm"
  lm_Remove :: "'m \<Rightarrow> Time \<Rightarrow> 'm"
  lm_Keys :: "'m \<Rightarrow> Time list"
  lm_Size :: "'m \<Rightarrow> nat"

record 'm AvgSlidingWindow =
  bucketSize :: Duration
  windowLength :: Duration
  buckets :: 'm
  sw_qty :: u64
  sw_sum :: rat

type_synonym 'm SlidingWindowOpts = "'m AvgSlidingWindow \<Rightarrow> 'm AvgSlidingWindow"

definition WithWindowLength :: "Duration \<Rightarrow> 'm SlidingWindowOpts" where
  "WithWindowLength d sw = sw\<lparr>windowLength := d\<rparr>"

definition WithBucketSize :: "Duration \<Rightarrow> 'm SlidingWindowOpts" where
  "WithBucketSize d sw = sw\<lparr>bucketSize := d\<rparr>"

definition NewSlidingWindow :: "'m lhm \<Rightarrow> 'm SlidingWindowOpts list \<Rightarrow> 'm AvgSlidingWindow" where
  "NewSlidingWindow L opts =
     (let sw = \<lparr>bucketSize = 0, windowLength = 0, buckets = lm_New L, sw_qty = 0, sw_sum = 0\<rparr>;
          sw = fold (\<lambda>opt s. opt s) opts sw;
          sw = (if bucketSize sw = 0 then sw\<lparr>bucketSize := time_Second\<rparr> else sw)
      in if windowLength sw = 0 then sw\<lparr>windowLength := 5 * time_Minute\<rparr> else sw)"

subsection \<open>Operations\<close>

definition windowStart :: "'m AvgSlidingWindow \<Rightarrow> Time \<Rightarrow> Time" where
  "windowStart sw now = time_Round now (bucketSize sw) - windowLength sw"

definition inWindow :: "'m AvgSlidingWindow \<Rightarrow> Time \<Rightarrow> Time \<Rightarrow> bool" where
  "inWindow sw now t \<longleftrightarrow> windowStart sw now < t \<and> \<not> time_Round now (bucketSize sw) < t"

text \<open>
  The eviction loop walks the keys in insertion order and stops at the first one inside the
  window. The type assertion on a missing bucket would panic; the map lists only keys it finds
  (law \<open>get_keys\<close> below), so that branch is never taken and leaves the window alone.
\<close>

fun advance_loop :: "'m lhm \<Rightarrow> Time \<Rightarrow> Time list \<Rightarrow> 'm AvgSlidingWindow \<Rightarrow> 'm AvgSlidingWindow" where
  "advance_loop L start [] sw = sw"
| "advance_loop L start (k # ks) sw =
     (if start < k then sw
      else case lm_Get L (buckets sw) k of
             None \<Rightarrow> sw
           | Some b \<Rightarrow>
               let sw = sw\<lparr>buckets := lm_Remove L (buckets sw) k\<rparr>;
                   sw = (if lm_Size L (buckets sw) > 0
                         then sw\<lparr>sw_qty := sw_qty sw - bqty b, sw_sum := sw_sum sw - bsum b\<rparr>
                         else sw\<lparr>sw_qty := 0, sw_sum := 0\<rparr>)
               in advance_loop L start ks sw)"

definition advance :: "'m lhm \<Rightarrow> Time \<Rightarrow> 'm AvgSlidingWindow \<Rightarrow> 'm AvgSlidingWindow" where
  "advance L now sw = advance_loop L (windowStart sw now) (lm_Keys L (buckets sw)) sw"

definition AddWithTime ::
  "'m lhm \<Rightarrow> Time \<Rightarrow> Time \<Rightarrow> rat \<Rightarrow> 'm AvgSlidingWindow \<Rightarrow> 'm AvgSlidingWindow" where
  "AddWithTime L now t val sw =
     (let sw = advance L now sw;
          key = time_Round t (bucketSize sw)
      in if \<not> inWindow sw now key then sw
         else
           let b = (case lm_Get L (buckets sw) key of
                      None \<Rightarrow> \<lparr>bsum = 0, bqty = 0\<rparr> | Some b \<Rightarrow> b);
               bs = bsum b;
               b = b\<lparr>bqty := bqty b + 1, bsum := bs + val\<rparr>;
               ws = sw_sum sw
           in sw\<lparr>sw_qty := sw_qty sw + 1,
                 sw_sum := ws - bs + bsum b,
                 buckets := lm_Put L (buckets sw) key b\<rparr>)"

definition Add :: "'m lhm \<Rightarrow> Time \<Rightarrow> rat \<Rightarrow> 'm AvgSlidingWindow \<Rightarrow> 'm AvgSlidingWindow" where
  "Add L now val sw = AddWithTime L now now val sw"

definition Incr :: "'m lhm \<Rightarrow> Time \<Rightarrow> 'm AvgSlidingWindow \<Rightarrow> 'm AvgSlidingWindow" where
  "Incr L now sw = Add L now 1 sw"

text \<open>
  The queries evict first. Their eviction is not kept in the model's state: evicting now and
  again later is evicting later (\<open>advance_advance\<close>), so no later call can tell.
\<close>

definition Avg :: "'m lhm \<Rightarrow> Time \<Rightarrow> 'm AvgSlidingWindow \<Rightarrow> rat" where
  "Avg L now sw =
     (let sw = advance L now sw
      in if sw_qty sw = 0 then 0 else sw_sum sw / of_nat (unat (sw_qty sw)))"

definition Sum :: "'m lhm \<Rightarrow> Time \<Rightarrow> 'm AvgSlidingWindow \<Rightarrow> rat" where
  "Sum L now sw = sw_sum (advance L now sw)"

definition Count :: "'m lhm \<Rightarrow> Time \<Rightarrow> 'm AvgSlidingWindow \<Rightarrow> u64" where
  "Count L now sw = sw_qty (advance L now sw)"

definition Clear :: "'m AvgSlidingWindow \<Rightarrow> 'm AvgSlidingWindow" where
  "Clear sw = sw\<lparr>sw_qty := 0, sw_sum := 0\<rparr>"

subsection \<open>Well-formed windows and the points they stand for\<close>

text \<open>
  A window is well formed when its totals are the sums over its buckets.
\<close>

definition sw_inv :: "'m lhm \<Rightarrow> 'm AvgSlidingWindow \<Rightarrow> bool" where
  "sw_inv L sw \<longleftrightarrow>
     distinct (lm_Keys L (buckets sw)) \<and>
     sw_sum sw = (\<Sum>k\<in>set (lm_Keys L (buckets sw)). bsum (the (lm_Get L (buckets sw) k))) \<and>
     sw_qty sw = (\<Sum>k\<in>set (lm_Keys L (buckets sw)). bqty (the (lm_Get L (buckets sw) k)))"

text \<open>
  The specification: a window is the list of the points added to it, and at time \<open>now\<close> the
  points that count are those whose bucket is not older than the window.
\<close>

definition window_points ::
  "'m AvgSlidingWindow \<Rightarrow> Time \<Rightarrow> (Time \<times> rat) list \<Rightarrow> (Time \<times> rat) list" where
  "window_points sw now pts =
     filter (\<lambda>(t, v). windowStart sw now < time_Round t (bucketSize sw)) pts"

definition add_points ::
  "'m lhm \<Rightarrow> (Time \<times> rat) list \<Rightarrow> 'm AvgSlidingWindow \<Rightarrow> 'm AvgSlidingWindow" where
  "add_points L pts sw = fold (\<lambda>(t, v). Add L t v) pts sw"

subsection \<open>The linked hash map the window relies on\<close>

text \<open>
  The documented behaviour of the map: \<open>Get\<close> finds what \<open>Put\<close> stored, \<open>Keys\<close> lists
  the keys in the order of their first insertion and \<open>Put\<close> on a present key keeps its place.
\<close>

locale linked_hash_map =
  fixes L :: "'m lhm"
  assumes keys_new: "lm_Keys L (lm_New L) = []"
    and keys_put: "lm_Keys L (lm_Put L m k b) =
      (if k \<in> set (lm_Keys L m) then lm_Keys L m else lm_Keys L m @ [k])"
    and get_put: "lm_Get L (lm_Put L m k b) = (lm_Get L m)(k \<mapsto> b)"
    and keys_remove: "lm_Keys L (lm_Remove L m k) = removeAll k (lm_Keys L m)"
    and get_remove: "lm_Get L (lm_Remove L m k) = (lm_Get L m)(k := None)"
    and get_keys: "lm_Get L m k = None \<longleftrightarrow> k \<notin> set (lm_Keys L m)"
    and size_keys: "lm_Size L m = length (lm_Keys L m)"
begin

lemmas map_laws = keys_new keys_put get_put keys_remove get_remove size_keys

lemma get_some: "k \<in> set (lm_Keys L m) \<Longrightarrow> \<exists>b. lm_Get L m k = Some b"
  using get_keys [of m k] by auto

text \<open>Sums over the buckets whose key satisfies \<open>P\<close>.\<close>

definition total :: "(bucket \<Rightarrow> 'a::ab_group_add) \<Rightarrow> (Time \<Rightarrow> bool) \<Rightarrow> 'm \<Rightarrow> 'a" where
  "total f P m = (\<Sum>k | k \<in> set (lm_Keys L m) \<and> P k. f (the (lm_Get L m k)))"

lemma total_new: "total f P (lm_New L) = 0"
  by (simp add: total_def keys_new)

lemma total_remove:
  assumes "lm_Get L m k = Some b" and "P k"
  shows "total f P (lm_Remove L m k) = total f P m - f b"
proof -
  have k: "k \<in> set (lm_Keys L m)" using assms(1) get_keys [of m k] by auto
  have "{j. j \<in> set (lm_Keys L m) \<and> P j} = insert k {j. j \<in> set (lm_Keys L m) - {k} \<and> P j}"
    using k assms(2) by auto
  then have "total f P m = f b + (\<Sum>j | j \<in> set (lm_Keys L m) - {k} \<and> P j. f (the (lm_Get L m j)))"
    using assms(1) by (simp add: total_def)
  moreover have "total f P (lm_Remove L m k) =
      (\<Sum>j | j \<in> set (lm_Keys L m) - {k} \<and> P j. f (the (lm_Get L m j)))"
    by (auto simp: total_def keys_remove get_remove intro!: sum.cong)
  ultimately show ?thesis by simp
qed

lemma total_put:
  assumes "old = (case lm_Get L m k of None \<Rightarrow> 0 | Some b0 \<Rightarrow> f b0)"
  shows "total f P (lm_Put L m k b) = total f P m + (if P k then f b - old else 0)"
proof -
  let ?K = "{j. j \<in> set (lm_Keys L m) \<and> P j}"
  let ?R = "\<Sum>j | j \<in> set (lm_Keys L m) - {k} \<and> P j. f (the (lm_Get L m j))"
  have new: "total f P (lm_Put L m k b) = (if P k then f b else 0) + ?R"
  proof (cases "P k")
    case True
    have "{j. j \<in> set (lm_Keys L (lm_Put L m k b)) \<and> P j} =
        insert k {j. j \<in> set (lm_Keys L m) - {k} \<and> P j}"
      using True by (auto simp: keys_put)
    then show ?thesis using True
      by (auto simp: total_def get_put intro!: sum.cong)
  next
    case False
    have "{j. j \<in> set (lm_Keys L (lm_Put L m k b)) \<and> P j} =
        {j. j \<in> set (lm_Keys L m) - {k} \<and> P j}"
      using False by (auto simp: keys_put)
    then show ?thesis using False
      by (auto simp: total_def get_put intro!: sum.cong)
  qed
  have "total f P m = (if P k then old else 0) + ?R"
  proof (cases "lm_Get L m k")
    case None
    then have "?K = {j. j \<in> set (lm_Keys L m) - {k} \<and> P j}" using get_keys [of m k] by auto
    with None assms show ?thesis by (simp add: total_def)
  next
    case (Some b0)
    show ?thesis
    proof (cases "P k")
      case True
      with Some show ?thesis
        using total_remove [where P = P and f = f, OF Some True] assms
        by (auto simp: total_def keys_remove get_remove algebra_simps intro!: sum.cong)
    next
      case False
      then have "?K = {j. j \<in> set (lm_Keys L m) - {k} \<and> P j}" by auto
      with False show ?thesis by (simp add: total_def)
    qed
  qed
  with new show ?thesis by simp
qed

lemma total_cong:
  "(\<And>k. k \<in> set (lm_Keys L m) \<Longrightarrow> P k = Q k) \<Longrightarrow> total f P m = total f Q m"
  unfolding total_def by (rule sum.cong) auto

text \<open>Eviction drops the keys up to the start of the window and keeps a window well formed.\<close>

lemma sw_inv_total:
  "sw_inv L sw \<longleftrightarrow> distinct (lm_Keys L (buckets sw)) \<and>
     sw_sum sw = total bsum (\<lambda>_. True) (buckets sw) \<and>
     sw_qty sw = total bqty (\<lambda>_. True) (buckets sw)"
  by (simp add: sw_inv_def total_def)

lemma advance_loop_frame:
  "bucketSize (advance_loop L start ks sw) = bucketSize sw"
  "windowLength (advance_loop L start ks sw) = windowLength sw"
  by (induction ks arbitrary: sw) (auto simp: Let_def split: option.splits)

lemma advance_frame [simp]:
  "bucketSize (advance L now sw) = bucketSize sw"
  "windowLength (advance L now sw) = windowLength sw"
  "windowStart (advance L now sw) t = windowStart sw t"
  by (simp_all add: advance_def advance_loop_frame windowStart_def)

lemma advance_loop_keys:
  assumes "lm_Keys L (buckets sw) = ks" and "distinct ks"
  shows "lm_Keys L (buckets (advance_loop L start ks sw)) = dropWhile (\<lambda>k. k \<le> start) ks \<and>
    (\<forall>k \<in> set (dropWhile (\<lambda>k. k \<le> start) ks).
       lm_Get L (buckets (advance_loop L start ks sw)) k = lm_Get L (buckets sw) k)"
  using assms
proof (induction ks arbitrary: sw)
  case Nil
  then show ?case by simp
next
  case (Cons k ks)
  obtain b where b: "lm_Get L (buckets sw) k = Some b"
    using get_some [of k "buckets sw"] Cons.prems(1) by auto
  let ?sw = "sw\<lparr>buckets := lm_Remove L (buckets sw) k,
     sw_qty := (if lm_Size L (lm_Remove L (buckets sw) k) > 0 then sw_qty sw - bqty b else 0),
     sw_sum := (if lm_Size L (lm_Remove L (buckets sw) k) > 0 then sw_sum sw - bsum b else 0)\<rparr>"
  have ks: "lm_Keys L (buckets ?sw) = ks" using Cons.prems by (simp add: keys_remove)
  show ?case
  proof (cases "start < k")
    case True
    then show ?thesis using Cons.prems by simp
  next
    case False
    have "advance_loop L start (k # ks) sw = advance_loop L start ks ?sw"
      using False b by (simp add: Let_def)
    moreover have "k \<notin> set (dropWhile (\<lambda>k. k \<le> start) ks)"
      using Cons.prems(2) by (auto dest: set_dropWhileD)
    ultimately show ?thesis
      using Cons.IH [OF ks] Cons.prems(2) False by (auto simp: get_remove)
  qed
qed

lemma advance_loop_inv:
  assumes "sw_inv L sw" and "lm_Keys L (buckets sw) = ks"
  shows "sw_inv L (advance_loop L start ks sw)"
  using assms
proof (induction ks arbitrary: sw)
  case Nil
  then show ?case by simp
next
  case (Cons k ks)
  obtain b where b: "lm_Get L (buckets sw) k = Some b"
    using get_some [of k "buckets sw"] Cons.prems(2) by auto
  let ?m = "lm_Remove L (buckets sw) k"
  have d: "distinct (k # ks)" using Cons.prems by (simp add: sw_inv_def)
  have ks: "lm_Keys L ?m = ks" using Cons.prems(2) d by (simp add: keys_remove)
  have empty: "lm_Size L ?m = 0 \<Longrightarrow> total bsum (\<lambda>_. True) ?m = 0 \<and> total bqty (\<lambda>_. True) ?m = 0"
    by (simp add: total_def size_keys)
  let ?sw = "sw\<lparr>buckets := ?m,
     sw_qty := (if lm_Size L ?m > 0 then sw_qty sw - bqty b else 0),
     sw_sum := (if lm_Size L ?m > 0 then sw_sum sw - bsum b else 0)\<rparr>"
  have inv: "sw_inv L ?sw"
    using Cons.prems(1) d ks empty total_remove [where P = "\<lambda>_. True" and f = bsum, OF b TrueI]
      total_remove [where P = "\<lambda>_. True" and f = bqty, OF b TrueI]
    by (simp add: sw_inv_total)
  have "sw_inv L (advance_loop L start ks ?sw)"
    by (rule Cons.IH [OF inv]) (simp add: ks)
  moreover have "advance_loop L start (k # ks) sw = advance_loop L start ks ?sw" if "\<not> start < k"
    using that b by (simp add: Let_def)
  ultimately show ?case using Cons.prems(1) by (cases "start < k") simp_all
qed

lemma advance_inv: "sw_inv L sw \<Longrightarrow> sw_inv L (advance L now sw)"
  by (simp add: advance_def advance_loop_inv)

lemma advance_keys:
  assumes "distinct (lm_Keys L (buckets sw))"
  shows "lm_Keys L (buckets (advance L now sw)) =
      dropWhile (\<lambda>k. k \<le> windowStart sw now) (lm_Keys L (buckets sw))"
    and "k \<in> set (lm_Keys L (buckets (advance L now sw))) \<Longrightarrow>
      lm_Get L (buckets (advance L now sw)) k = lm_Get L (buckets sw) k"
  using advance_loop_keys [OF refl assms, of "windowStart sw now"] by (simp_all add: advance_def)

lemma advance_loop_advance_loop:
  assumes "lm_Keys L (buckets sw) = ks" and "distinct ks" and "s1 \<le> s2"
  shows "advance_loop L s2 (dropWhile (\<lambda>k. k \<le> s1) ks) (advance_loop L s1 ks sw) =
    advance_loop L s2 ks sw"
  using assms
proof (induction ks arbitrary: sw)
  case Nil
  then show ?case by simp
next
  case (Cons k ks)
  obtain b where b: "lm_Get L (buckets sw) k = Some b"
    using get_some [of k "buckets sw"] Cons.prems(1) by auto
  let ?m = "lm_Remove L (buckets sw) k"
  let ?sw = "sw\<lparr>buckets := ?m,
     sw_qty := (if lm_Size L ?m > 0 then sw_qty sw - bqty b else 0),
     sw_sum := (if lm_Size L ?m > 0 then sw_sum sw - bsum b else 0)\<rparr>"
  have ks: "lm_Keys L (buckets ?sw) = ks" using Cons.prems by (simp add: keys_remove)
  have step: "advance_loop L s (k # ks) sw = advance_loop L s ks ?sw" if "k \<le> s" for s
    using that b by (simp add: Let_def)
  show ?case
  proof (cases "k \<le> s1")
    case True
    then show ?thesis
      using Cons.IH [OF ks] Cons.prems by (simp add: step del: advance_loop.simps)
  next
    case False
    then show ?thesis by simp
  qed
qed

lemma windowStart_mono: "t \<le> t' \<Longrightarrow> windowStart sw t \<le> windowStart sw t'"
  by (simp add: windowStart_def time_Round_mono)

lemma advance_advance:
  assumes "distinct (lm_Keys L (buckets sw))" and "t \<le> t'"
  shows "advance L t' (advance L t sw) = advance L t' sw"
proof -
  have "advance L t' (advance L t sw) =
      advance_loop L (windowStart sw t')
        (dropWhile (\<lambda>k. k \<le> windowStart sw t) (lm_Keys L (buckets sw))) (advance L t sw)"
    by (simp add: advance_def [of L t' "advance L t sw"] advance_keys(1) [OF assms(1)])
  also have "\<dots> = advance L t' sw"
    using advance_loop_advance_loop [OF refl assms(1) windowStart_mono [OF assms(2), of sw]]
    by (simp add: advance_def)
  finally show ?thesis .
qed

lemma total_advance:
  assumes "distinct (lm_Keys L (buckets sw))" and "sorted (lm_Keys L (buckets sw))"
  shows "total f P (buckets (advance L now sw)) =
    total f (\<lambda>k. windowStart sw now < k \<and> P k) (buckets sw)"
proof -
  have ks: "lm_Keys L (buckets (advance L now sw)) =
      filter (\<lambda>k. windowStart sw now < k) (lm_Keys L (buckets sw))"
    using assms by (simp add: advance_keys sorted_dropWhile_le)
  show ?thesis
    unfolding total_def
    by (rule sum.cong) (auto simp: ks advance_keys(2) [OF assms(1), of _ now])
qed

text \<open>A window stands for a list of points when every sum over its buckets is a sum over them.\<close>

definition points_rel :: "'m AvgSlidingWindow \<Rightarrow> (Time \<times> rat) list \<Rightarrow> bool" where
  "points_rel sw pts \<longleftrightarrow> sw_inv L sw \<and> sorted (lm_Keys L (buckets sw)) \<and>
     (\<forall>P. total bsum P (buckets sw) =
            sum_list (map snd (filter (\<lambda>p. P (time_Round (fst p) (bucketSize sw))) pts)) \<and>
          total bqty P (buckets sw) =
            of_nat (length (filter (\<lambda>p. P (time_Round (fst p) (bucketSize sw))) pts)))"

lemma window_points_filter:
  "window_points sw now pts =
     filter (\<lambda>p. windowStart sw now < time_Round (fst p) (bucketSize sw)) pts"
  by (simp add: window_points_def case_prod_unfold)

lemma advance_rel:
  assumes "points_rel sw pts"
  shows "points_rel (advance L now sw) (window_points sw now pts)"
proof -
  have d: "distinct (lm_Keys L (buckets sw))" and s: "sorted (lm_Keys L (buckets sw))"
    using assms by (simp_all add: points_rel_def sw_inv_def)
  have "sorted (lm_Keys L (buckets (advance L now sw)))"
    using s by (simp add: advance_keys(1) [OF d] sorted_dropWhile)
  then show ?thesis
    using assms by (simp add: points_rel_def advance_inv total_advance [OF d s]
        window_points_filter conj_commute)
qed

lemma put_rel:
  assumes rel: "points_rel sw pts" and last: "\<forall>k\<in>set (lm_Keys L (buckets sw)). k \<le> key"
    and key: "key = time_Round t (bucketSize sw)"
    and b: "b = (case lm_Get L (buckets sw) key of None \<Rightarrow> \<lparr>bsum = 0, bqty = 0\<rparr> | Some b \<Rightarrow> b)"
  shows "points_rel (sw\<lparr>sw_qty := sw_qty sw + 1, sw_sum := sw_sum sw + v,
      buckets := lm_Put L (buckets sw) key (b\<lparr>bqty := bqty b + 1, bsum := bsum b + v\<rparr>)\<rparr>)
    (pts @ [(t, v)])"
proof -
  let ?b = "b\<lparr>bqty := bqty b + 1, bsum := bsum b + v\<rparr>"
  have tot: "total bsum P (lm_Put L (buckets sw) key ?b) = total bsum P (buckets sw) + (if P key then v else 0)"
      "total bqty P (lm_Put L (buckets sw) key ?b) = total bqty P (buckets sw) + (if P key then 1 else 0)" for P
    using b by (simp_all add: total_put [OF refl] split: option.splits)
  have "sorted (lm_Keys L (lm_Put L (buckets sw) key ?b))" "distinct (lm_Keys L (lm_Put L (buckets sw) key ?b))"
    using rel last by (auto simp: keys_put points_rel_def sw_inv_def sorted_append)
  then show ?thesis
    using rel by (simp add: points_rel_def sw_inv_total tot key [symmetric])
qed

lemma Add_rel:
  assumes rel: "points_rel sw pts" and wl: "0 < windowLength sw"
    and last: "\<forall>k\<in>set (lm_Keys L (buckets sw)). k \<le> time_Round t (bucketSize sw)"
  shows "points_rel (Add L t v sw) (window_points sw t pts @ [(t, v)]) \<and>
    bucketSize (Add L t v sw) = bucketSize sw \<and> windowLength (Add L t v sw) = windowLength sw \<and>
    (\<forall>k\<in>set (lm_Keys L (buckets (Add L t v sw))). k \<le> time_Round t (bucketSize sw))"
proof -
  let ?sw = "advance L t sw" and ?key = "time_Round t (bucketSize sw)"
  have d: "distinct (lm_Keys L (buckets sw))" using rel by (simp add: points_rel_def sw_inv_def)
  have last': "\<forall>k\<in>set (lm_Keys L (buckets ?sw)). k \<le> ?key"
    using last by (auto simp: advance_keys(1) [OF d] dest: set_dropWhileD)
  have inw: "inWindow ?sw t ?key" using wl by (simp add: inWindow_def windowStart_def)
  show ?thesis
    using put_rel [OF advance_rel [OF rel, of t] last' _ refl, of t v] inw last'
    by (auto simp: Add_def AddWithTime_def Let_def keys_put algebra_simps)
qed

lemma window_points_config:
  "bucketSize sw' = bucketSize sw \<Longrightarrow> windowLength sw' = windowLength sw \<Longrightarrow>
   window_points sw' now pts = window_points sw now pts"
  by (simp add: window_points_def windowStart_def)

lemma window_points_window_points:
  assumes "t \<le> now"
  shows "window_points sw now (window_points sw t pts) = window_points sw now pts"
  using windowStart_mono [OF assms, of sw]
  by (auto simp: window_points_filter intro!: filter_cong)

lemma add_points_rel:
  assumes "points_rel sw0 []" and "0 < windowLength sw0" and "lm_Keys L (buckets sw0) = []"
    and "sorted (map fst pts)"
  shows "\<exists>live. points_rel (add_points L pts sw0) live \<and>
    bucketSize (add_points L pts sw0) = bucketSize sw0 \<and>
    windowLength (add_points L pts sw0) = windowLength sw0 \<and>
    (\<forall>now. (\<forall>p\<in>set pts. fst p \<le> now) \<longrightarrow>
       window_points sw0 now live = window_points sw0 now pts \<and>
       (\<forall>k\<in>set (lm_Keys L (buckets (add_points L pts sw0))).
          k \<le> time_Round now (bucketSize sw0)))"
  using assms(4)
proof (induction pts rule: rev_induct)
  case Nil
  show ?case using assms(1,3) by (intro exI [of _ "[]"]) (simp add: add_points_def)
next
  case (snoc p pts)
  obtain t v where p: "p = (t, v)" by (cases p)
  let ?sw = "add_points L pts sw0"
  have le: "\<forall>q\<in>set pts. fst q \<le> t" using snoc.prems p by (auto simp: sorted_append)
  obtain live where live: "points_rel ?sw live" "bucketSize ?sw = bucketSize sw0"
      "windowLength ?sw = windowLength sw0"
    and pts: "\<forall>now. (\<forall>q\<in>set pts. fst q \<le> now) \<longrightarrow>
       window_points sw0 now live = window_points sw0 now pts \<and>
       (\<forall>k\<in>set (lm_Keys L (buckets ?sw)). k \<le> time_Round now (bucketSize sw0))"
    using snoc.IH snoc.prems by (auto simp: sorted_append)
  have add: "add_points L (pts @ [p]) sw0 = Add L t v ?sw"
    by (simp add: add_points_def p)
  have step: "points_rel (Add L t v ?sw) (window_points sw0 t live @ [(t, v)])"
      "bucketSize (Add L t v ?sw) = bucketSize sw0" "windowLength (Add L t v ?sw) = windowLength sw0"
      "\<forall>k\<in>set (lm_Keys L (buckets (Add L t v ?sw))). k \<le> time_Round t (bucketSize sw0)"
    using Add_rel [OF live(1), of t v] live assms(2) pts le
    by (simp_all add: window_points_config [OF live(2,3)])
  show ?case
  proof (intro exI conjI allI impI)
    show "points_rel (add_points L (pts @ [p]) sw0) (window_points sw0 t live @ [(t, v)])"
      "bucketSize (add_points L (pts @ [p]) sw0) = bucketSize sw0"
      "windowLength (add_points L (pts @ [p]) sw0) = windowLength sw0"
      using step by (simp_all add: add)
  next
    fix now assume now: "\<forall>q\<in>set (pts @ [p]). fst q \<le> now"
    then have t: "t \<le> now" and q: "\<forall>q\<in>set pts. fst q \<le> now" by (simp_all add: p)
    show "window_points sw0 now (window_points sw0 t live @ [(t, v)]) = window_points sw0 now (pts @ [p])"
      using window_points_window_points [OF t, of sw0 live] pts q
      by (simp add: window_points_filter p)
    show "\<forall>k\<in>set (lm_Keys L (buckets (add_points L (pts @ [p]) sw0))). k \<le> time_Round now (bucketSize sw0)"
      using step(4) time_Round_mono [OF t, of "bucketSize sw0"] by (force simp: add)
  qed
qed

lemma points_rel_new:
  "lm_Keys L (buckets sw) = [] \<Longrightarrow> sw_sum sw = 0 \<Longrightarrow> sw_qty sw = 0 \<Longrightarrow> points_rel sw []"
  by (simp add: points_rel_def sw_inv_def total_def)

lemma window_sum_count:
  assumes "points_rel sw0 []" and "0 < windowLength sw0" and "lm_Keys L (buckets sw0) = []"
    and "sorted (map fst pts)" and now: "\<forall>p\<in>set pts. fst p \<le> now"
  shows "Sum L now (add_points L pts sw0) = sum_list (map snd (window_points sw0 now pts))"
    and "Count L now (add_points L pts sw0) = of_nat (length (window_points sw0 now pts))"
proof -
  let ?sw = "add_points L pts sw0"
  obtain live where live: "points_rel ?sw live" and cfg: "bucketSize ?sw = bucketSize sw0"
      "windowLength ?sw = windowLength sw0"
    and wp: "window_points sw0 now live = window_points sw0 now pts"
    using add_points_rel [OF assms(1-4)] now by metis
  have "points_rel (advance L now ?sw) (window_points sw0 now pts)"
    using advance_rel [OF live, of now] window_points_config [OF cfg, of now live] wp by simp
  then show "Sum L now ?sw = sum_list (map snd (window_points sw0 now pts))"
      "Count L now ?sw = of_nat (length (window_points sw0 now pts))"
    by (simp_all add: points_rel_def sw_inv_total Sum_def Count_def)
qed

text \<open>
  As long as a bucket survives, the totals an eviction leaves are those before it less the
  evicted buckets, whatever the totals were.
\<close>

lemma advance_loop_shift:
  assumes "lm_Keys L (buckets sw) = ks" and "distinct ks" and "dropWhile (\<lambda>k. k \<le> start) ks \<noteq> []"
  shows "advance_loop L start ks (sw\<lparr>sw_qty := sw_qty sw + q, sw_sum := sw_sum sw + v\<rparr>) =
    (advance_loop L start ks sw)\<lparr>sw_qty := sw_qty (advance_loop L start ks sw) + q,
       sw_sum := sw_sum (advance_loop L start ks sw) + v\<rparr>"
  using assms
proof (induction ks arbitrary: sw)
  case Nil
  then show ?case by simp
next
  case (Cons k ks)
  show ?case
  proof (cases "start < k")
    case True
    then show ?thesis by simp
  next
    case False
    obtain b where b: "lm_Get L (buckets sw) k = Some b"
      using get_some [of k "buckets sw"] Cons.prems(1) by auto
    let ?m = "lm_Remove L (buckets sw) k"
    let ?sw = "sw\<lparr>buckets := ?m, sw_qty := sw_qty sw - bqty b, sw_sum := sw_sum sw - bsum b\<rparr>"
    have ks: "lm_Keys L (buckets ?sw) = ks" using Cons.prems by (simp add: keys_remove)
    have "ks \<noteq> []" using Cons.prems(3) False by auto
    then have sz: "lm_Size L ?m > 0" using ks by (simp add: size_keys)
    have *: "advance_loop L start (k # ks) (sw\<lparr>sw_qty := sw_qty sw + q, sw_sum := sw_sum sw + v\<rparr>) =
        advance_loop L start ks (?sw\<lparr>sw_qty := sw_qty ?sw + q, sw_sum := sw_sum ?sw + v\<rparr>)"
      using False b sz by (simp add: Let_def algebra_simps)
    have "advance_loop L start (k # ks) sw = advance_loop L start ks ?sw"
      using False b sz by (simp add: Let_def)
    then show ?thesis
      using Cons.IH [OF ks] Cons.prems False by (simp add: * del: advance_loop.simps)
  qed
qed

lemma Clear_shift:
  assumes "distinct (lm_Keys L (buckets sw))" and "lm_Keys L (buckets (advance L now sw)) \<noteq> []"
  shows "Sum L now (Clear sw) = Sum L now sw - sw_sum sw \<and>
    Count L now (Clear sw) = Count L now sw - sw_qty sw"
proof -
  have "Clear sw = sw\<lparr>sw_qty := sw_qty sw + - sw_qty sw, sw_sum := sw_sum sw + - sw_sum sw\<rparr>"
    by (simp add: Clear_def)
  moreover have "windowStart (Clear sw) now = windowStart sw now"
    by (simp add: Clear_def windowStart_def)
  moreover have "buckets (Clear sw) = buckets sw" by (simp add: Clear_def)
  ultimately show ?thesis
    using advance_loop_shift [OF refl assms(1), where q = "- sw_qty sw" and v = "- sw_sum sw"
        and start = "windowStart sw now"] assms(2)
    by (simp add: Sum_def Count_def advance_def advance_keys(1) [OF assms(1), unfolded advance_def])
qed

lemma AddWithTime_inv: "sw_inv L sw \<Longrightarrow> sw_inv L (AddWithTime L now t v sw)"
proof -
  assume "sw_inv L sw"
  then have inv: "sw_inv L (advance L now sw)" by (rule advance_inv)
  show ?thesis
    using inv
    by (auto simp: AddWithTime_def Let_def sw_inv_total keys_put total_put [OF refl] split: option.splits)
qed

end

subsection \<open>An association list is such a map\<close>

definition alist_lhm :: "(Time \<times> bucket) list lhm" where
  "alist_lhm = \<lparr>lm_New = [], lm_Get = map_of, lm_Put = (\<lambda>m k b. AList.update k b m),
     lm_Remove = (\<lambda>m k. AList.delete k m), lm_Keys = map fst, lm_Size = length\<rparr>"

interpretation alist: linked_hash_map alist_lhm
  by unfold_locales
    (auto simp: alist_lhm_def AList.update_keys AList.update_conv' AList.delete_keys
      AList.delete_conv' map_of_eq_None_iff fun_eq_iff)

subsection \<open>Properties\<close>

lemma NewSlidingWindow_config:
  assumes "linked_hash_map L" and "0 \<le> wl"
  shows "lm_Keys L (buckets (NewSlidingWindow L [WithBucketSize bs, WithWindowLength wl])) = []"
    and "sw_sum (NewSlidingWindow L [WithBucketSize bs, WithWindowLength wl]) = 0"
    and "sw_qty (NewSlidingWindow L [WithBucketSize bs, WithWindowLength wl]) = 0"
    and "0 < windowLength (NewSlidingWindow L [WithBucketSize bs, WithWindowLength wl])"
  using assms linked_hash_map.keys_new [OF assms(1)]
  by (simp_all add: NewSlidingWindow_def Let_def WithBucketSize_def WithWindowLength_def go_time)

text \<open>
  C38. The bucketed window computes the moving sum, count and average it stands for: after
  adding data points in time order, what a query returns at a later time is the sum, the number
  and the mean of exactly the points whose rounded time is after the start of the window. This
  holds for every bucket size and window length and every linked hash map with the documented
  behaviour.
\<close>

theorem window_refines_points:
  assumes "linked_hash_map L" and "0 \<le> wl" and "sorted (map fst pts)"
    and "\<forall>p\<in>set pts. fst p \<le> now" and "length pts < 2 ^ 64"
    and "sw0 = NewSlidingWindow L [WithBucketSize bs, WithWindowLength wl]"
  shows "Sum L now (add_points L pts sw0) = sum_list (map snd (window_points sw0 now pts)) \<and>
    Count L now (add_points L pts sw0) = of_nat (length (window_points sw0 now pts)) \<and>
    Avg L now (add_points L pts sw0) =
      (if window_points sw0 now pts = [] then 0
       else sum_list (map snd (window_points sw0 now pts)) / of_nat (length (window_points sw0 now pts)))"
proof -
  note cfg = NewSlidingWindow_config [OF assms(1,2), of bs, folded assms(6)]
  have rel: "linked_hash_map.points_rel L sw0 []"
    by (rule linked_hash_map.points_rel_new [OF assms(1) cfg(1-3)])
  note q = linked_hash_map.window_sum_count [OF assms(1) rel cfg(4) cfg(1) assms(3,4)]
  let ?n = "length (window_points sw0 now pts)"
  have "?n \<le> length pts" by (simp add: window_points_def)
  then have n: "?n < 2 ^ 64" using assms(5) by simp
  then have "unat (of_nat ?n :: u64) = ?n" by (rule unat_u64_of_nat)
  moreover have "(of_nat ?n :: u64) = 0 \<longleftrightarrow> window_points sw0 now pts = []"
    using n by (auto simp: word_of_nat_eq_0_iff dest: nat_dvd_not_less)
  ultimately show ?thesis using q by (simp add: Avg_def Sum_def Count_def Let_def)
qed

theorem window_refines_points_witness:
  "Avg alist_lhm 40000000000 (add_points alist_lhm [(1000000000, 8), (31000000000, 2), (32000000000, 6)]
     (NewSlidingWindow alist_lhm [WithBucketSize 1000000000, WithWindowLength 20000000000])) = 4"
proof -
  let ?pts = "[(1000000000, 8), (31000000000, 2), (32000000000, 6)] :: (Time \<times> rat) list"
  let ?sw = "NewSlidingWindow alist_lhm [WithBucketSize 1000000000, WithWindowLength 20000000000]"
  have "window_points ?sw 40000000000 ?pts = [(31000000000, 2), (32000000000, 6)]"
    by (simp add: window_points_def windowStart_def NewSlidingWindow_def WithBucketSize_def
        WithWindowLength_def Let_def time_Round_def)
  then show ?thesis
    using window_refines_points [OF alist.linked_hash_map_axioms, where pts = ?pts
        and now = 40000000000 and wl = 20000000000, OF _ _ _ _ refl] by simp
qed

text \<open>
  Every operation that adds or evicts keeps the totals of a window equal to the sums over
  its buckets, whatever time the point carries (late points and points outside the window
  included), and a new window has them equal.
\<close>

theorem window_totals_invariant:
  assumes "linked_hash_map L"
  shows "sw_inv L (NewSlidingWindow L []) \<and>
    (sw_inv L sw \<longrightarrow> sw_inv L (advance L now sw) \<and> sw_inv L (AddWithTime L now t v sw) \<and>
       sw_inv L (Incr L now sw))"
  using linked_hash_map.advance_inv [OF assms] linked_hash_map.AddWithTime_inv [OF assms]
    linked_hash_map.keys_new [OF assms]
  by (simp_all add: NewSlidingWindow_def Let_def sw_inv_def Incr_def Add_def)

theorem window_totals_invariant_witness:
  "sw_inv alist_lhm (AddWithTime alist_lhm 9 7 3 (NewSlidingWindow alist_lhm []))"
  using window_totals_invariant [OF alist.linked_hash_map_axioms] by blast

text \<open>
  Clear resets the two totals and leaves the buckets in place, so it does not empty the
  window: as soon as an old bucket is evicted while another one remains, the cleared window's
  sum and count are those of the uncleared window less the totals that were cleared. The sum
  goes negative and the unsigned count wraps around.
\<close>

theorem clear_keeps_buckets:
  assumes "linked_hash_map L" and "sw_inv L sw" and "lm_Keys L (buckets (advance L now sw)) \<noteq> []"
  shows "Sum L now (Clear sw) = Sum L now sw - sw_sum sw \<and>
    Count L now (Clear sw) = Count L now sw - sw_qty sw"
  using linked_hash_map.Clear_shift [OF assms(1) _ assms(3)] assms(2) by (simp_all add: sw_inv_def)

definition two_points :: "(Time \<times> bucket) list AvgSlidingWindow" where
  "two_points = \<lparr>bucketSize = 1, windowLength = 10, buckets = [(1, \<lparr>bsum = 1, bqty = 1\<rparr>), (5, \<lparr>bsum = 1, bqty = 1\<rparr>)],
     sw_qty = 2, sw_sum = 2\<rparr>"

theorem clear_keeps_buckets_witness:
  "Sum alist_lhm 12 (Clear two_points) = -1 \<and> Count alist_lhm 12 (Clear two_points) = -1"
proof -
  have inv: "sw_inv alist_lhm two_points"
    by (simp add: sw_inv_def two_points_def alist_lhm_def)
  have adv: "advance alist_lhm 12 two_points =
      two_points\<lparr>buckets := [(5, \<lparr>bsum = 1, bqty = 1\<rparr>)], sw_qty := 1, sw_sum := 1\<rparr>"
    by (simp add: advance_def two_points_def alist_lhm_def windowStart_def time_Round_def Let_def)
  have ne: "lm_Keys alist_lhm (buckets (advance alist_lhm 12 two_points)) \<noteq> []"
    by (simp add: adv) (simp add: alist_lhm_def)
  show ?thesis
    using clear_keeps_buckets [OF alist.linked_hash_map_axioms inv ne]
    by (simp add: Sum_def Count_def adv) (simp add: two_points_def)
qed

end
