(* ===== verification/Rpc.thy ===== *)
theory Rpc
  imports Prelude
begin

section \<open>JSON-RPC requests, responses and errors\<close>

text \<open>
  Models \<^verbatim>\<open>src/rpc.go\<close>, \<^verbatim>\<open>src/errors.go\<close>, \<^verbatim>\<open>src/reader.go\<close>,
  \<^verbatim>\<open>src/string_set.go\<close> and the error values at the top of \<^verbatim>\<open>src/backend.go\<close>.

  JSON text is modelled where the program looks at bytes: a request id and the first byte of a
  body. Everywhere else a \<open>json.RawMessage\<close> stands for the value it encodes. A
  \<open>json.RawMessage\<close> that may be absent is an option.
\<close>

named_theorems err_defs \<open>the error values of the program\<close>

subsection \<open>JSON values\<close>

datatype json =
    JNull
  | JBool bool
  | JNum rat
  | JStr string
  | JArr "json list"
  | JObj "(string \<times> json) list"

text \<open>
  \<open>json.Unmarshal(raw, &p)\<close> into \<open>[]interface{}\<close> and \<open>[]map[string]interface{}\<close>: a
  missing message is an error, \<open>null\<close> leaves the slice nil, a null element of a slice of
  maps is a nil map (read as empty). \<open>unmarshal_maps\<close> also returns the elements as they were,
  which is what marshalling the unchanged ones again gives.
\<close>

fun unmarshal_slice :: "json option \<Rightarrow> json list option" where
  "unmarshal_slice (Some (JArr xs)) = Some xs"
| "unmarshal_slice (Some JNull) = Some []"
| "unmarshal_slice _ = None"

fun unmarshal_map :: "json \<Rightarrow> (string \<times> json) list option" where
  "unmarshal_map (JObj m) = Some m"
| "unmarshal_map JNull = Some []"
| "unmarshal_map _ = None"

definition unmarshal_maps :: "json option \<Rightarrow> (json list \<times> (string \<times> json) list list) option" where
  "unmarshal_maps raw =
     (case unmarshal_slice raw of
        None \<Rightarrow> None
      | Some xs \<Rightarrow> if list_all (\<lambda>x. unmarshal_map x \<noteq> None) xs
                  then Some (xs, map (\<lambda>x. the (unmarshal_map x)) xs) else None)"

subsection \<open>Errors\<close>

record RPCErr =
  Code :: int
  Message :: string
  Data :: "json option"
  HTTPErrorCode :: int

text \<open>
  A Go \<open>error\<close>: an \<open>*RPCErr\<close>, a value made by \<open>errors.New\<close> (\<open>Sentinel\<close>), one
  made by \<open>fmt.Errorf\<close> without a wrapped error (\<open>Errorf\<close>), or one that wraps another
  with \<open>%w\<close> (the wrapped error may be nil).
\<close>

datatype err = RpcE RPCErr | Sentinel string | Errorf string | Wrapped string "err option"

definition wrapErr :: "err option \<Rightarrow> string \<Rightarrow> err" where
  "wrapErr e msg = Wrapped msg e"

fun err_text :: "err \<Rightarrow> string" where
  "err_text (RpcE r) = Message r"
| "err_text (Sentinel s) = s"
| "err_text (Errorf s) = s"
| "err_text (Wrapped m None) = m @ '' %!w(<nil>)''"
| "err_text (Wrapped m (Some e)) = m @ '' '' @ err_text e"

text \<open>\<open>errors.Is\<close>: the error or one it wraps is the target. \<open>Errorf\<close> values are fresh.\<close>

fun err_is :: "err \<Rightarrow> err \<Rightarrow> bool" where
  "err_is (Wrapped m (Some e)) t = err_is e t"
| "err_is (Wrapped m None) t = False"
| "err_is (Errorf s) t = False"
| "err_is e t = (e = t)"

definition errors_Is :: "err option \<Rightarrow> err \<Rightarrow> bool" where
  "errors_Is e t = (case e of None \<Rightarrow> False | Some e \<Rightarrow> err_is e t)"

definition context_Canceled :: err where
  "context_Canceled = Sentinel ''context canceled''"

definition context_DeadlineExceeded :: err where
  "context_DeadlineExceeded = Sentinel ''context deadline exceeded''"

definition JSONRPCVersion :: string where
  "JSONRPCVersion = ''2.0''"

definition JSONRPCErrorInternal :: int where
  "JSONRPCErrorInternal = -32000"

definition notFoundRpcError :: int where
  "notFoundRpcError = -32601"

definition mkRPCErr :: "int \<Rightarrow> string \<Rightarrow> int \<Rightarrow> RPCErr" where
  "mkRPCErr c m h = \<lparr>Code = c, Message = m, Data = None, HTTPErrorCode = h\<rparr>"

definition ErrParseErr :: RPCErr where
  "ErrParseErr = mkRPCErr (-32700) ''parse error'' 400"

definition ErrInternal :: RPCErr where
  "ErrInternal = mkRPCErr JSONRPCErrorInternal ''internal error'' 500"

definition ErrMethodNotWhitelisted :: RPCErr where
  "ErrMethodNotWhitelisted = mkRPCErr notFoundRpcError ''rpc method is not whitelisted'' 403"

definition ErrBackendOffline :: RPCErr where
  "ErrBackendOffline = mkRPCErr (JSONRPCErrorInternal - 10) ''backend offline'' 503"

definition ErrNoBackends :: RPCErr where
  "ErrNoBackends = mkRPCErr (JSONRPCErrorInternal - 11)
     ''no backend is currently healthy to serve traffic'' 503"

definition ErrBackendOverCapacity :: RPCErr where
  "ErrBackendOverCapacity = mkRPCErr (JSONRPCErrorInternal - 12) ''backend is over capacity'' 429"

definition ErrBackendBadResponse :: RPCErr where
  "ErrBackendBadResponse = mkRPCErr (JSONRPCErrorInternal - 13)
     ''backend returned an invalid response'' 500"

definition ErrTooManyBatchRequests :: RPCErr where
  "ErrTooManyBatchRequests = mkRPCErr (JSONRPCErrorInternal - 14)
     ''too many RPC calls in batch request'' 0"

definition ErrGatewayTimeout :: RPCErr where
  "ErrGatewayTimeout = mkRPCErr (JSONRPCErrorInternal - 15) ''gateway timeout'' 504"

definition ErrOverRateLimit :: RPCErr where
  "ErrOverRateLimit = mkRPCErr (JSONRPCErrorInternal - 16) ''over rate limit'' 429"

definition ErrOverSenderRateLimit :: RPCErr where
  "ErrOverSenderRateLimit = mkRPCErr (JSONRPCErrorInternal - 17) ''sender is over rate limit'' 429"

definition ErrNotHealthy :: RPCErr where
  "ErrNotHealthy = mkRPCErr (JSONRPCErrorInternal - 18)
     ''backend is currently not healthy to serve traffic'' 503"

definition ErrBlockOutOfRange :: RPCErr where
  "ErrBlockOutOfRange = mkRPCErr (JSONRPCErrorInternal - 19) ''block is out of range'' 400"

definition ErrBackendResponseTooLarge :: RPCErr where
  "ErrBackendResponseTooLarge = mkRPCErr (JSONRPCErrorInternal - 20) ''backend response too large'' 500"

definition ErrRequestBodyTooLarge :: RPCErr where
  "ErrRequestBodyTooLarge = mkRPCErr (JSONRPCErrorInternal - 21) ''request body too large'' 413"

definition ErrInteropAccessListOutOfBounds :: RPCErr where
  "ErrInteropAccessListOutOfBounds = mkRPCErr (JSONRPCErrorInternal - 22)
     ''access list out of bounds'' 413"

definition ErrContextCanceled :: RPCErr where
  "ErrContextCanceled = mkRPCErr (JSONRPCErrorInternal - 23) (err_text context_Canceled) 499"

definition ErrTooManyRequests :: RPCErr where
  "ErrTooManyRequests = mkRPCErr (JSONRPCErrorInternal - 24) ''too many requests'' 429"

definition ErrFlashbotsSignature :: RPCErr where
  "ErrFlashbotsSignature = mkRPCErr (JSONRPCErrorInternal - 25) ''invalid flashbots signature'' 403"

definition ErrBackendUnexpectedJSONRPC :: err where
  "ErrBackendUnexpectedJSONRPC = Sentinel ''backend returned an unexpected JSON-RPC response''"

definition ErrConsensusGetReceiptsCantBeBatched :: err where
  "ErrConsensusGetReceiptsCantBeBatched = Sentinel ''consensus_getReceipts cannot be batched''"

definition ErrConsensusGetReceiptsInvalidTarget :: err where
  "ErrConsensusGetReceiptsInvalidTarget = Sentinel ''unsupported consensus_receipts_target''"

definition ErrInvalidRequest :: "string \<Rightarrow> RPCErr" where
  "ErrInvalidRequest msg = mkRPCErr (-32600) msg 400"

definition ErrInvalidParams :: "string \<Rightarrow> RPCErr" where
  "ErrInvalidParams msg = mkRPCErr (-32602) msg 400"

lemmas [err_defs] = mkRPCErr_def JSONRPCErrorInternal_def notFoundRpcError_def ErrParseErr_def
  ErrInternal_def ErrMethodNotWhitelisted_def ErrBackendOffline_def ErrNoBackends_def
  ErrBackendOverCapacity_def ErrBackendBadResponse_def ErrTooManyBatchRequests_def
  ErrGatewayTimeout_def ErrOverRateLimit_def ErrOverSenderRateLimit_def ErrNotHealthy_def
  ErrBlockOutOfRange_def ErrBackendResponseTooLarge_def ErrRequestBodyTooLarge_def
  ErrInteropAccessListOutOfBounds_def ErrContextCanceled_def ErrTooManyRequests_def
  ErrFlashbotsSignature_def ErrBackendUnexpectedJSONRPC_def
  ErrConsensusGetReceiptsCantBeBatched_def ErrConsensusGetReceiptsInvalidTarget_def
  ErrInvalidRequest_def ErrInvalidParams_def context_Canceled_def context_DeadlineExceeded_def

lemma errors_Is_simps [simp]:
  "\<not> errors_Is None t"
  "errors_Is (Some e) t = err_is e t"
  by (simp_all add: errors_Is_def)

definition RPCErr_Clone :: "RPCErr \<Rightarrow> RPCErr" where
  "RPCErr_Clone r = \<lparr>Code = Code r, Message = Message r, Data = None, HTTPErrorCode = HTTPErrorCode r\<rparr>"

subsection \<open>Requests and responses\<close>

text \<open>
  The dynamic values an \<open>interface{}\<close> result holds: nil, a decoded JSON value, a
  \<open>hexutil.Uint64\<close>, a \<open>ConsensusGetReceiptsResult\<close> or raw JSON text.
\<close>

datatype any = NilVal | Val json | Uint64 u64 | ReceiptsResult string any | Raw string

record RPCReq =
  JSONRPC :: string
  Method :: string
  Params :: "json option"
  ID :: string

record RPCRes =
  rs_JSONRPC :: string
  Result :: any
  Error :: "RPCErr option"
  rs_ID :: string

definition IsError :: "RPCRes \<Rightarrow> bool" where
  "IsError r \<longleftrightarrow> Error r \<noteq> None"

text \<open>
  \<open>MarshalJSON\<close>: the members of the object it writes, in order. \<open>omitempty\<close> drops a nil
  result and a nil error.
\<close>

datatype res_member = M_jsonrpc string | M_result any | M_error RPCErr | M_id string

definition MarshalJSON :: "RPCRes \<Rightarrow> res_member list" where
  "MarshalJSON r =
     (if Result r = NilVal \<and> Error r = None
      then [M_jsonrpc (rs_JSONRPC r), M_result NilVal, M_id (rs_ID r)]
      else [M_jsonrpc (rs_JSONRPC r)] @
           (if Result r = NilVal then [] else [M_result (Result r)]) @
           (case Error r of None \<Rightarrow> [] | Some e \<Rightarrow> [M_error e]) @
           [M_id (rs_ID r)])"

definition quote :: char where
  "quote = CHR 0x22"

definition IsValidID :: "string \<Rightarrow> bool" where
  "IsValidID i \<longleftrightarrow>
     (if i \<noteq> [] \<and> hd i = quote \<and> last i = quote then length i > 2
      else length i > 0 \<and> hd i \<noteq> CHR ''{'' \<and> hd i \<noteq> CHR ''['')"

definition ValidateRPCReq :: "RPCReq \<Rightarrow> RPCErr option" where
  "ValidateRPCReq req =
     (if JSONRPC req \<noteq> JSONRPCVersion then Some (ErrInvalidRequest ''invalid JSON-RPC version'')
      else if Method req = [] then Some (ErrInvalidRequest ''no method specified'')
      else if \<not> IsValidID (ID req) then Some (ErrInvalidRequest ''invalid ID'')
      else None)"

definition NewRPCErrorRes :: "string \<Rightarrow> err \<Rightarrow> RPCRes" where
  "NewRPCErrorRes i e =
     \<lparr>rs_JSONRPC = JSONRPCVersion, Result = NilVal,
      Error = Some (case e of RpcE rr \<Rightarrow> rr | _ \<Rightarrow> mkRPCErr JSONRPCErrorInternal (err_text e) 0),
      rs_ID = i\<rparr>"

definition NewRPCRes :: "string \<Rightarrow> any \<Rightarrow> RPCRes" where
  "NewRPCRes i result = \<lparr>rs_JSONRPC = JSONRPCVersion, Result = result, Error = None, rs_ID = i\<rparr>"

fun IsBatch :: "string \<Rightarrow> bool" where
  "IsBatch [] = False"
| "IsBatch (c # cs) =
     (if c = CHR 0x20 \<or> c = CHR 0x09 \<or> c = CHR 0x0A \<or> c = CHR 0x0D then IsBatch cs
      else c = CHR ''['')"

subsection \<open>Limited reader\<close>

text \<open>
  The underlying reader is an argument: it is given its state and the size of the buffer and
  returns its next state, the bytes it read and an error.
\<close>

definition ErrLimitReaderOverLimit :: err where
  "ErrLimitReaderOverLimit = Sentinel ''over read limit''"

type_synonym 'r io_read = "'r \<Rightarrow> nat \<Rightarrow> 'r \<times> string \<times> err option"

record 'r LimitedReader =
  lr_R :: 'r
  lr_N :: int

definition LimitReader :: "'r \<Rightarrow> int \<Rightarrow> 'r LimitedReader" where
  "LimitReader r n = \<lparr>lr_R = r, lr_N = n\<rparr>"

definition LimitedReader_Read :: "'r io_read \<Rightarrow> 'r LimitedReader io_read" where
  "LimitedReader_Read rd l plen =
     (if lr_N l \<le> 0 then (l, [], Some ErrLimitReaderOverLimit)
      else let p = (if int plen > lr_N l then nat (lr_N l) else plen);
               (r', bs, e) = rd (lr_R l) p
           in (\<lparr>lr_R = r', lr_N = lr_N l - int (length bs)\<rparr>, bs, e))"

subsection \<open>String sets\<close>

type_synonym StringSet = "(string \<times> bool) list"

definition NewStringSet :: StringSet where
  "NewStringSet = []"

definition StringSet_Add :: "StringSet \<Rightarrow> string \<Rightarrow> StringSet" where
  "StringSet_Add s str = AList.update str True s"

definition NewStringSetFromStrings :: "string list \<Rightarrow> StringSet" where
  "NewStringSetFromStrings xs = fold (\<lambda>str s. AList.update str True s) xs []"

definition StringSet_Has :: "StringSet \<Rightarrow> string \<Rightarrow> bool" where
  "StringSet_Has s test = (case map_of s test of None \<Rightarrow> False | Some b \<Rightarrow> b)"

definition StringSet_Entries :: "StringSet \<Rightarrow> string list" where
  "StringSet_Entries s = map fst s"

definition StringSet_Extend :: "StringSet \<Rightarrow> string list \<Rightarrow> StringSet" where
  "StringSet_Extend s xs = fold (\<lambda>k out. StringSet_Add out k) (map fst s) (NewStringSetFromStrings xs)"

subsection \<open>Lemmas\<close>

lemma unmarshal_slice_Some:
  "unmarshal_slice raw = Some xs \<longleftrightarrow> raw = Some (JArr xs) \<or> (raw = Some JNull \<and> xs = [])"
  by (cases raw rule: unmarshal_slice.cases) auto

lemma NewRPCErrorRes_simps [simp]:
  "rs_ID (NewRPCErrorRes i e) = i" "IsError (NewRPCErrorRes i e)"
  "Result (NewRPCErrorRes i e) = NilVal"
  by (simp_all add: NewRPCErrorRes_def IsError_def)

lemma NewRPCRes_simps [simp]:
  "rs_ID (NewRPCRes i r) = i" "\<not> IsError (NewRPCRes i r)" "Result (NewRPCRes i r) = r"
  by (simp_all add: NewRPCRes_def IsError_def)

lemma IsBatch_dropWhile:
  "IsBatch cs \<longleftrightarrow>
     (case dropWhile (\<lambda>c. c \<in> {CHR 0x20, CHR 0x09, CHR 0x0A, CHR 0x0D}) cs of [] \<Rightarrow> False | c # _ \<Rightarrow> c = CHR ''['')"
  by (induction cs) simp_all

lemma fold_update_Has:
  "StringSet_Has (fold (\<lambda>str s. AList.update str True s) xs s) t \<longleftrightarrow> t \<in> set xs \<or> StringSet_Has s t"
  by (induction xs arbitrary: s) (auto simp: StringSet_Has_def AList.update_conv')

lemma StringSet_Has_simps [simp]:
  "\<not> StringSet_Has NewStringSet t"
  "StringSet_Has (StringSet_Add s k) t \<longleftrightarrow> t = k \<or> StringSet_Has s t"
  "StringSet_Has (NewStringSetFromStrings xs) t \<longleftrightarrow> t \<in> set xs"
  by (auto simp: NewStringSet_def StringSet_Add_def NewStringSetFromStrings_def fold_update_Has)
    (auto simp: StringSet_Has_def AList.update_conv' split: if_splits)

lemma StringSet_Has_Extend:
  "StringSet_Has (StringSet_Extend s xs) t \<longleftrightarrow> t \<in> set xs \<or> t \<in> set (StringSet_Entries s)"
  by (simp add: StringSet_Extend_def StringSet_Add_def fold_update_Has StringSet_Entries_def disj_commute)

text \<open>A sequence of reads through the limiter, stopping at the first error.\<close>

fun read_seq :: "'r io_read \<Rightarrow> nat list \<Rightarrow> 'r \<Rightarrow> 'r \<times> string \<times> err option" where
  "read_seq rd [] r = (r, [], None)"
| "read_seq rd (p # ps) r =
     (case rd r p of
        (r', bs, Some e) \<Rightarrow> (r', bs, Some e)
      | (r', bs, None) \<Rightarrow> (case read_seq rd ps r' of (r'', bs', e) \<Rightarrow> (r'', bs @ bs', e)))"

text \<open>The contract of \<open>io.Reader\<close>: at most as many bytes as the buffer holds.\<close>

definition io_Reader :: "'r io_read \<Rightarrow> bool" where
  "io_Reader rd \<longleftrightarrow> (\<forall>r p. length (fst (snd (rd r p))) \<le> p)"

lemma LimitedReader_Read_bound:
  assumes "io_Reader rd" and step: "LimitedReader_Read rd l p = (l', bs, e)" and "0 \<le> lr_N l"
  shows "int (length bs) = lr_N l - lr_N l' \<and> 0 \<le> lr_N l'"
proof (cases "lr_N l \<le> 0")
  case True
  with step assms(3) show ?thesis by (auto simp: LimitedReader_Read_def)
next
  case False
  let ?p = "if int p > lr_N l then nat (lr_N l) else p"
  obtain r' bs' e' where r: "rd (lr_R l) ?p = (r', bs', e')" by (metis prod_cases3)
  then have "length bs' \<le> ?p" using assms(1) by (metis io_Reader_def fst_conv snd_conv)
  with step False r show ?thesis
    by (auto simp: LimitedReader_Read_def Let_def split: if_splits)
qed

lemma read_seq_bound:
  assumes "io_Reader rd"
  shows "read_seq (LimitedReader_Read rd) ps l = (l', bs, e) \<Longrightarrow> 0 \<le> lr_N l \<Longrightarrow>
    int (length bs) = lr_N l - lr_N l' \<and> 0 \<le> lr_N l'"
proof (induction ps arbitrary: l bs)
  case Nil
  then show ?case by simp
next
  case (Cons p ps)
  obtain l1 bs1 e1 where s: "LimitedReader_Read rd l p = (l1, bs1, e1)" by (metis prod_cases3)
  have b: "int (length bs1) = lr_N l - lr_N l1" "0 \<le> lr_N l1"
    using LimitedReader_Read_bound [OF assms s Cons.prems(2)] by simp_all
  show ?case
  proof (cases e1)
    case None
    obtain bs2 where "read_seq (LimitedReader_Read rd) ps l1 = (l', bs2, e)" "bs = bs1 @ bs2"
      using Cons.prems(1) s None by (auto split: prod.splits)
    with Cons.IH b show ?thesis by force
  next
    case (Some e')
    with Cons.prems(1) s b show ?thesis by simp
  qed
qed

subsection \<open>Properties\<close>

text \<open>
  The limited reader never delivers more bytes than its limit: over any sequence of reads
  with any buffer sizes the bytes delivered and the remaining allowance add up to the limit, and
  once the allowance is used up every further read fails with the over-limit error and delivers
  nothing.
\<close>

theorem limited_reader_bound:
  assumes "io_Reader rd" and "0 \<le> n"
    and "read_seq (LimitedReader_Read rd) ps (LimitReader r n) = (l', bs, e)"
  shows "int (length bs) + lr_N l' = n \<and> 0 \<le> lr_N l' \<and>
    (lr_N l' = 0 \<longrightarrow> LimitedReader_Read rd l' p = (l', [], Some ErrLimitReaderOverLimit))"
proof -
  have "int (length bs) = n - lr_N l' \<and> 0 \<le> lr_N l'"
    using read_seq_bound [OF assms(1,3)] assms(2) by (simp add: LimitReader_def)
  then show ?thesis by (simp add: LimitedReader_Read_def)
qed

definition string_reader :: "string io_read" where
  "string_reader s p = (if s = [] then ([], [], Some (Sentinel ''EOF'')) else (drop p s, take p s, None))"

theorem limited_reader_bound_witness:
  "LimitedReader_Read string_reader \<lparr>lr_R = ''lo'', lr_N = 0\<rparr> 8 =
     (\<lparr>lr_R = ''lo'', lr_N = 0\<rparr>, [], Some ErrLimitReaderOverLimit)"
proof -
  have rd: "io_Reader string_reader" by (simp add: io_Reader_def string_reader_def)
  have seq: "read_seq (LimitedReader_Read string_reader) [8] (LimitReader ''hello'' 3) =
      (\<lparr>lr_R = ''lo'', lr_N = 0\<rparr>, ''hel'', None)"
    by (simp add: LimitReader_def LimitedReader_Read_def string_reader_def)
  show ?thesis using limited_reader_bound [OF rd _ seq, of 8] by simp
qed


end
