(* ===== verification/Geth.thy ===== *)
theory Geth
  imports Rpc
begin

section \<open>What the program uses of go-ethereum\<close>

text \<open>
  Block parameters are decoded and encoded by go-ethereum (packages rpc and hexutil), which is
  not part of this repository. Its functions and constants are fields of the record
  \<open>geth\<close>, an argument of every definition that uses them, and the locale \<open>geth_codec\<close>
  states the documented behaviour the program relies on. A \<open>rpc.BlockNumber\<close> is a 64-bit
  word read as a signed number. The last section is a concrete codec that has this behaviour.
\<close>

record BlockNumberOrHash =
  BlockNumber :: "64 word option"
  BlockHash :: "string option"

definition BlockNumberOrHashWithNumber :: "64 word \<Rightarrow> BlockNumberOrHash" where
  "BlockNumberOrHashWithNumber n = \<lparr>BlockNumber = Some n, BlockHash = None\<rparr>"

record geth =
  PendingBlockNumber :: "64 word"
  EarliestBlockNumber :: "64 word"
  FinalizedBlockNumber :: "64 word"
  SafeBlockNumber :: "64 word"
  LatestBlockNumber :: "64 word"
  bnh_UnmarshalJSON :: "json \<Rightarrow> BlockNumberOrHash option"
  bnh_MarshalJSON :: "BlockNumberOrHash \<Rightarrow> json"
  Uint64_String :: "u64 \<Rightarrow> string"
  DecodeUint64 :: "string \<Rightarrow> u64 option"
  BlockNumber_String :: "64 word \<Rightarrow> string"

definition block_tags :: "string list" where
  "block_tags = [''latest'', ''safe'', ''finalized'', ''pending'', ''earliest'']"

locale geth_codec =
  fixes G :: geth
  assumes tags_negative: "sint (LatestBlockNumber G) < 0" "sint (SafeBlockNumber G) < 0"
      "sint (FinalizedBlockNumber G) < 0" "sint (PendingBlockNumber G) < 0"
      "sint (EarliestBlockNumber G) \<le> 0"
    and tags_distinct: "distinct [LatestBlockNumber G, SafeBlockNumber G, FinalizedBlockNumber G,
      PendingBlockNumber G, EarliestBlockNumber G]"
    and latest_tag: "bnh_UnmarshalJSON G (JStr ''latest'') =
      Some (BlockNumberOrHashWithNumber (LatestBlockNumber G))"
    and number_string: "0 \<le> sint n \<Longrightarrow>
      bnh_UnmarshalJSON G (JStr (Uint64_String G n)) = Some (BlockNumberOrHashWithNumber n)"
    and number_marshal: "0 \<le> sint n \<Longrightarrow>
      bnh_UnmarshalJSON G (bnh_MarshalJSON G (BlockNumberOrHashWithNumber n)) =
        Some (BlockNumberOrHashWithNumber n)"
    and decode_string: "DecodeUint64 G (Uint64_String G n) = Some n"
    and decode_not_tag: "DecodeUint64 G s = Some n \<Longrightarrow> s \<notin> set block_tags \<and> s \<noteq> []"
    and unmarshal_number: "bnh_UnmarshalJSON G (JStr s) = Some b \<Longrightarrow> BlockNumber b = Some n \<Longrightarrow>
      s \<in> set block_tags \<or> DecodeUint64 G s = Some n \<and> 0 \<le> sint n"
    and unmarshal_hash: "bnh_UnmarshalJSON G (JStr s) = Some b \<Longrightarrow> BlockNumber b = None \<Longrightarrow>
      DecodeUint64 G s = None"

subsection \<open>A concrete codec\<close>

text \<open>Hexadecimal quantities: a prefix, then digits without a leading zero.\<close>

definition hex_alphabet :: string where
  "hex_alphabet = ''0123456789abcdef''"

fun hex_digits :: "nat \<Rightarrow> string" where
  "hex_digits n = (if n < 16 then [hex_alphabet ! n] else hex_digits (n div 16) @ [hex_alphabet ! (n mod 16)])"

declare hex_digits.simps [simp del]

definition hex_digit_val :: "char \<Rightarrow> nat option" where
  "hex_digit_val c = (if c \<in> set hex_alphabet then Some (length (takeWhile (\<lambda>d. d \<noteq> c) hex_alphabet)) else None)"

fun hex_val :: "nat \<Rightarrow> string \<Rightarrow> nat option" where
  "hex_val acc [] = Some acc"
| "hex_val acc (c # cs) =
     (case hex_digit_val c of None \<Rightarrow> None | Some d \<Rightarrow> hex_val (16 * acc + d) cs)"

definition hex_decode :: "string \<Rightarrow> u64 option" where
  "hex_decode s =
     (if length s \<le> 2 \<or> take 2 s \<noteq> ''0x'' then None
      else if s ! 2 = CHR ''0'' \<and> length s > 3 then None
      else case hex_val 0 (drop 2 s) of
             None \<Rightarrow> None
           | Some n \<Rightarrow> if n < 2 ^ 64 then Some (of_nat n) else None)"

definition hex_encode :: "u64 \<Rightarrow> string" where
  "hex_encode n = ''0x'' @ hex_digits (unat n)"

lemma hex_digit_val_nth: "n < 16 \<Longrightarrow> hex_digit_val (hex_alphabet ! n) = Some n"
proof -
  have "\<forall>n\<in>set [0..<16]. hex_digit_val (hex_alphabet ! n) = Some n"
    by (simp add: hex_digit_val_def hex_alphabet_def upt_rec)
  then show "n < 16 \<Longrightarrow> hex_digit_val (hex_alphabet ! n) = Some n" by simp
qed

lemma hex_val_append: "hex_val acc (xs @ ys) = Option.bind (hex_val acc xs) (\<lambda>a. hex_val a ys)"
  by (induction xs arbitrary: acc) (simp_all split: option.split)

lemma hex_val_digits: "hex_val 0 (hex_digits n) = Some n"
proof (induction n rule: hex_digits.induct)
  case (1 n)
  then show ?case
    by (simp add: hex_digits.simps [of n] hex_digit_val_nth hex_val_append)
qed

lemma hex_digits_nonempty [simp]: "hex_digits n \<noteq> []"
  by (simp add: hex_digits.simps [of n])

lemma hex_digits_hd:
  "0 < n \<Longrightarrow> hd (hex_digits n) \<noteq> CHR ''0''"
proof (induction n rule: hex_digits.induct)
  case (1 n)
  have "\<forall>n\<in>set [1..<16]. hex_alphabet ! n \<noteq> CHR ''0''"
    by (simp add: hex_alphabet_def upt_rec)
  then show ?case using 1
    by (cases "n < 16") (simp_all add: hex_digits.simps [of n] div_greater_zero_iff)
qed

lemma hex_decode_encode: "hex_decode (hex_encode n) = Some n"
proof -
  have "hex_digits (unat n) ! 0 = CHR ''0'' \<Longrightarrow> length (hex_digits (unat n)) = 1"
    using hex_digits_hd [of "unat n"] by (cases "unat n = 0") (auto simp: hd_conv_nth hex_digits.simps [of 0])
  moreover have "length (hex_digits (unat n)) > 0" by simp
  ultimately have g: "\<not> (hex_encode n ! 2 = CHR ''0'' \<and> length (hex_encode n) > 3)" "\<not> length (hex_encode n) \<le> 2"
    by (simp_all add: hex_encode_def numeral_2_eq_2)
  show ?thesis
    using g unat_u64_less [of n] by (simp add: hex_decode_def) (simp add: hex_encode_def hex_val_digits)
qed

text \<open>Block parameters: the five tags, a 32-byte hash, a number, or an object with one of them.\<close>

definition ref_string :: "string \<Rightarrow> BlockNumberOrHash option" where
  "ref_string s =
     (if s = ''latest'' then Some (BlockNumberOrHashWithNumber (-2))
      else if s = ''safe'' then Some (BlockNumberOrHashWithNumber (-4))
      else if s = ''finalized'' then Some (BlockNumberOrHashWithNumber (-3))
      else if s = ''pending'' then Some (BlockNumberOrHashWithNumber (-1))
      else if s = ''earliest'' then Some (BlockNumberOrHashWithNumber 0)
      else if length s = 66 then Some \<lparr>BlockNumber = None, BlockHash = Some s\<rparr>
      else case hex_decode s of
             None \<Rightarrow> None
           | Some n \<Rightarrow> if 0 \<le> sint n then Some (BlockNumberOrHashWithNumber n) else None)"

fun ref_unmarshal :: "json \<Rightarrow> BlockNumberOrHash option" where
  "ref_unmarshal (JStr s) = ref_string s"
| "ref_unmarshal (JObj [(k, JStr s)]) =
     (if k = ''blockNumber'' then
        (case ref_string s of Some b \<Rightarrow> (if BlockNumber b = None then None else Some b) | None \<Rightarrow> None)
      else if k = ''blockHash'' then Some \<lparr>BlockNumber = None, BlockHash = Some s\<rparr> else None)"
| "ref_unmarshal _ = None"

definition ref_marshal :: "BlockNumberOrHash \<Rightarrow> json" where
  "ref_marshal b =
     (case BlockNumber b of
        Some n \<Rightarrow> JObj [(''blockNumber'', JStr (hex_encode n))]
      | None \<Rightarrow> (case BlockHash b of Some h \<Rightarrow> JObj [(''blockHash'', JStr h)] | None \<Rightarrow> JObj []))"

definition geth_ref :: geth where
  "geth_ref = \<lparr>PendingBlockNumber = -1, EarliestBlockNumber = 0, FinalizedBlockNumber = -3,
     SafeBlockNumber = -4, LatestBlockNumber = -2, bnh_UnmarshalJSON = ref_unmarshal,
     bnh_MarshalJSON = ref_marshal, Uint64_String = hex_encode, DecodeUint64 = hex_decode,
     BlockNumber_String = hex_encode\<rparr>"

lemma hex_digits_length: "n < 16 ^ k \<Longrightarrow> 0 < k \<Longrightarrow> length (hex_digits n) \<le> k"
proof (induction k arbitrary: n)
  case 0
  then show ?case by simp
next
  case (Suc k)
  show ?case
  proof (cases "n < 16")
    case True
    then show ?thesis by (simp add: hex_digits.simps [of n])
  next
    case False
    then have "0 < k" using Suc.prems by (cases k) auto
    moreover have "n div 16 < 16 ^ k" using Suc.prems by (simp add: less_mult_imp_div_less)
    ultimately have "length (hex_digits (n div 16)) \<le> k" by (rule Suc.IH [rotated])
    then show ?thesis using False by (simp add: hex_digits.simps [of n])
  qed
qed

lemma ref_string_number:
  assumes "0 \<le> sint n"
  shows "ref_string (hex_encode n) = Some (BlockNumberOrHashWithNumber n)"
proof -
  have "length (hex_digits (unat n)) \<le> 16"
    using unat_u64_less [of n] by (intro hex_digits_length) simp_all
  then have "length (hex_encode n) \<noteq> 66" by (simp add: hex_encode_def)
  moreover have "hex_encode n \<noteq> ''latest''" "hex_encode n \<noteq> ''safe''" "hex_encode n \<noteq> ''finalized''"
      "hex_encode n \<noteq> ''pending''" "hex_encode n \<noteq> ''earliest''"
    by (simp_all add: hex_encode_def)
  ultimately show ?thesis using assms by (simp add: ref_string_def hex_decode_encode)
qed

lemma hex_val_ge: "hex_val acc s = Some n \<Longrightarrow> acc * 16 ^ length s \<le> n"
proof (induction acc s rule: hex_val.induct)
  case (1 acc)
  then show ?case by simp
next
  case (2 acc c cs)
  then obtain d where "hex_digit_val c = Some d" "hex_val (16 * acc + d) cs = Some n"
    by (auto split: option.splits)
  with 2 have "(16 * acc + d) * 16 ^ length cs \<le> n" by simp
  then show ?case by (simp add: distrib_right)
qed

lemma hex_digit_val_0: "hex_digit_val c = Some 0 \<Longrightarrow> c = CHR ''0''"
  by (auto simp: hex_digit_val_def hex_alphabet_def split: if_splits)

lemma hex_decode_short: "hex_decode s = Some n \<Longrightarrow> length s \<noteq> 66"
proof
  assume s: "hex_decode s = Some n" and l: "length s = 66"
  obtain c cs where c: "drop 2 s = c # cs" using l by (cases "drop 2 s") auto
  have "length (drop 2 s) = 64" using l by simp
  with c have cs: "length cs = 63" by simp
  have "s ! 2 = c" using c l by (metis nth_via_drop)
  with s l have "c \<noteq> CHR ''0''" by (auto simp: hex_decode_def split: if_splits)
  moreover obtain d m where d: "hex_digit_val c = Some d" "hex_val d cs = Some m" "m < 2 ^ 64"
    using s c by (auto simp: hex_decode_def split: if_splits option.splits)
  ultimately have "1 \<le> d" using hex_digit_val_0 [of c] by (cases d) auto
  then have "16 ^ 63 \<le> d * 16 ^ 63" by simp
  also have "\<dots> \<le> m" using hex_val_ge [OF d(2)] cs by simp
  finally show False using d(3) by simp
qed

lemma hex_decode_prefix: "hex_decode s = Some n \<Longrightarrow> take 2 s = ''0x''"
  by (auto simp: hex_decode_def split: if_splits)

lemma ref_string_unmarshal:
  assumes "ref_string s = Some b"
  shows "BlockNumber b = Some n \<Longrightarrow> s \<in> set block_tags \<or> hex_decode s = Some n \<and> 0 \<le> sint n"
    and "BlockNumber b = None \<Longrightarrow> hex_decode s = None"
proof -
  show "BlockNumber b = Some n \<Longrightarrow> s \<in> set block_tags \<or> hex_decode s = Some n \<and> 0 \<le> sint n"
    using assms by (auto simp: ref_string_def block_tags_def BlockNumberOrHashWithNumber_def
        split: if_splits option.splits)
  show "BlockNumber b = None \<Longrightarrow> hex_decode s = None"
    using assms hex_decode_short [of s] by (cases "hex_decode s")
      (auto simp: ref_string_def BlockNumberOrHashWithNumber_def split: if_splits)
qed

interpretation ref_codec: geth_codec geth_ref
proof unfold_locales
  show "bnh_UnmarshalJSON geth_ref (JStr ''latest'') =
      Some (BlockNumberOrHashWithNumber (LatestBlockNumber geth_ref))"
    by (simp add: geth_ref_def ref_string_def)
  show "0 \<le> sint n \<Longrightarrow> bnh_UnmarshalJSON geth_ref (JStr (Uint64_String geth_ref n)) =
      Some (BlockNumberOrHashWithNumber n)" for n
    by (simp add: geth_ref_def ref_string_number)
  show "0 \<le> sint n \<Longrightarrow> bnh_UnmarshalJSON geth_ref
      (bnh_MarshalJSON geth_ref (BlockNumberOrHashWithNumber n)) = Some (BlockNumberOrHashWithNumber n)" for n
    by (simp add: geth_ref_def ref_marshal_def ref_string_number BlockNumberOrHashWithNumber_def)
  show "DecodeUint64 geth_ref (Uint64_String geth_ref n) = Some n" for n
    by (simp add: geth_ref_def hex_decode_encode)
  show "DecodeUint64 geth_ref s = Some n \<Longrightarrow> s \<notin> set block_tags \<and> s \<noteq> []" for s n
    using hex_decode_prefix [of s n] by (auto simp: geth_ref_def block_tags_def)
  show "bnh_UnmarshalJSON geth_ref (JStr s) = Some b \<Longrightarrow> BlockNumber b = Some n \<Longrightarrow>
      s \<in> set block_tags \<or> DecodeUint64 geth_ref s = Some n \<and> 0 \<le> sint n" for s b n
    using ref_string_unmarshal(1) [of s b n] by (simp add: geth_ref_def)
  show "bnh_UnmarshalJSON geth_ref (JStr s) = Some b \<Longrightarrow> BlockNumber b = None \<Longrightarrow>
      DecodeUint64 geth_ref s = None" for s b
    using ref_string_unmarshal(2) [of s b] by (simp add: geth_ref_def)
qed (simp_all add: geth_ref_def)

end
