(* ===== verification/Rewriter.thy ===== *)
theory Rewriter
  imports Geth
begin

section \<open>Rewriting block tags\<close>

text \<open>
  Models \<^verbatim>\<open>src/rewriter.go\<close>: with consensus awareness on, the tags \<open>latest\<close>,
  \<open>safe\<close> and \<open>finalized\<close> of a request are replaced by the block numbers of the group's
  consensus, numbers beyond the consensus are refused, and \<open>eth_blockNumber\<close> is answered by
  the proxy. The Go functions change the request in place; here they return it.
\<close>

subsection \<open>Definitions\<close>

record RewriteContext =
  rc_latest :: u64
  rc_safe :: u64
  rc_finalized :: u64
  rc_maxBlockRange :: u64

datatype RewriteResult =
  RewriteNone | RewriteOverrideError | RewriteOverrideRequest | RewriteOverrideResponse

definition ErrRewriteBlockOutOfRange :: err where
  "ErrRewriteBlockOutOfRange = Sentinel ''block is out of range''"

definition ErrRewriteRangeTooLarge :: err where
  "ErrRewriteRangeTooLarge = Sentinel ''block range is too large''"

text \<open>The errors of package json, which the program only passes on.\<close>

definition ErrJSON :: err where
  "ErrJSON = Errorf ''json: cannot unmarshal''"

definition remarshalBlockNumberOrHash :: "geth \<Rightarrow> json \<Rightarrow> err + BlockNumberOrHash" where
  "remarshalBlockNumberOrHash G current =
     (case bnh_UnmarshalJSON G current of None \<Rightarrow> Inl ErrJSON | Some bnh \<Rightarrow> Inr bnh)"

definition rewriteTag :: "geth \<Rightarrow> RewriteContext \<Rightarrow> string \<Rightarrow> err + string \<times> bool" where
  "rewriteTag G rctx current =
     (case remarshalBlockNumberOrHash G (JStr current) of
        Inl e \<Rightarrow> Inl e
      | Inr bnh \<Rightarrow>
          (case BlockNumber bnh of
             None \<Rightarrow> Inr (current, False)
           | Some n \<Rightarrow>
               if n = PendingBlockNumber G \<or> n = EarliestBlockNumber G then Inr (current, False)
               else if n = FinalizedBlockNumber G then Inr (Uint64_String G (rc_finalized rctx), True)
               else if n = SafeBlockNumber G then Inr (Uint64_String G (rc_safe rctx), True)
               else if n = LatestBlockNumber G then Inr (Uint64_String G (rc_latest rctx), True)
               else if sint n > sint (rc_latest rctx) then Inl ErrRewriteBlockOutOfRange
               else Inr (current, False)))"

definition rewriteTagBlockNumberOrHash ::
  "geth \<Rightarrow> RewriteContext \<Rightarrow> BlockNumberOrHash \<Rightarrow> err + BlockNumberOrHash \<times> bool" where
  "rewriteTagBlockNumberOrHash G rctx current =
     (case BlockNumber current of
        None \<Rightarrow> Inr (current, False)
      | Some n \<Rightarrow>
          if n = PendingBlockNumber G \<or> n = EarliestBlockNumber G then Inr (current, False)
          else if n = FinalizedBlockNumber G
            then Inr (BlockNumberOrHashWithNumber (rc_finalized rctx), True)
          else if n = SafeBlockNumber G then Inr (BlockNumberOrHashWithNumber (rc_safe rctx), True)
          else if n = LatestBlockNumber G then Inr (BlockNumberOrHashWithNumber (rc_latest rctx), True)
          else if sint n > sint (rc_latest rctx) then Inl ErrRewriteBlockOutOfRange
          else Inr (current, False))"

text \<open>The new value of the parameter at \<open>pos\<close>, and whether it changed.\<close>

definition rewriteValue ::
  "geth \<Rightarrow> RewriteContext \<Rightarrow> bool \<Rightarrow> json \<Rightarrow> err + json \<times> bool" where
  "rewriteValue G rctx blockNrOrHash v =
     (if blockNrOrHash then
        (case remarshalBlockNumberOrHash G v of
           Inl _ \<Rightarrow>
             (case v of
                JStr s \<Rightarrow> map_sum (\<lambda>e. e) (\<lambda>(s', rw). (JStr s', rw)) (rewriteTag G rctx s)
              | _ \<Rightarrow> Inl (Errorf ''expected BlockNumberOrHash or string''))
         | Inr bnh \<Rightarrow>
             map_sum (\<lambda>e. e) (\<lambda>(b, rw). (bnh_MarshalJSON G b, rw))
               (rewriteTagBlockNumberOrHash G rctx bnh))
      else
        (case v of
           JStr s \<Rightarrow> map_sum (\<lambda>e. e) (\<lambda>(s', rw). (JStr s', rw)) (rewriteTag G rctx s)
         | _ \<Rightarrow> Inl (Errorf ''expected string'')))"

definition rewriteParam ::
  "geth \<Rightarrow> RewriteContext \<Rightarrow> RPCReq \<Rightarrow> nat \<Rightarrow> bool \<Rightarrow> bool \<Rightarrow> RewriteResult \<times> err option \<times> RPCReq" where
  "rewriteParam G rctx req pos required blockNrOrHash =
     (case unmarshal_slice (Params req) of
        None \<Rightarrow> (RewriteOverrideError, Some ErrJSON, req)
      | Some p \<Rightarrow>
          let p' = (if length p = pos \<and> \<not> required then p @ [JStr ''latest''] else p)
          in if length p' \<le> pos then (RewriteNone, None, req)
             else
               (case rewriteValue G rctx blockNrOrHash (p' ! pos) of
                  Inl e \<Rightarrow> (RewriteOverrideError, Some e, req)
                | Inr (val, rw) \<Rightarrow>
                    if rw then (RewriteOverrideRequest, None, req\<lparr>Params := Some (JArr (p'[pos := val]))\<rparr>)
                    else (RewriteNone, None, req)))"

type_synonym go_map = "(string \<times> json) list"

text \<open>\<open>m[key]\<close> of a \<open>map[string]interface{}\<close>: nil (here \<open>JNull\<close>) for a missing key.\<close>

definition map_index :: "go_map \<Rightarrow> string \<Rightarrow> json" where
  "map_index m key = (case map_of m key of None \<Rightarrow> JNull | Some v \<Rightarrow> v)"

definition rewriteTagMap :: "geth \<Rightarrow> RewriteContext \<Rightarrow> go_map \<Rightarrow> string \<Rightarrow> err + go_map \<times> bool" where
  "rewriteTagMap G rctx m key =
     (if map_index m key = JNull \<or> map_index m key = JStr [] then Inr (m, False)
      else (case map_index m key of
              JStr current \<Rightarrow>
                (case rewriteTag G rctx current of
                   Inl e \<Rightarrow> Inl e
                 | Inr (val, rw) \<Rightarrow>
                     if rw then Inr (AList.update key (JStr val) m, True) else Inr (m, False))
            | _ \<Rightarrow> Inl (Errorf ''expected string'')))"

definition blockNumber :: "geth \<Rightarrow> go_map \<Rightarrow> string \<Rightarrow> u64 \<Rightarrow> err + u64" where
  "blockNumber G m key latest =
     (case map_index m key of
        JStr current \<Rightarrow>
          if current = ''earliest'' then Inr 0
          else if current = ''pending'' then Inr (latest + 1)
          else (case DecodeUint64 G current of None \<Rightarrow> Inl ErrJSON | Some n \<Rightarrow> Inr n)
      | _ \<Rightarrow> Inl (Errorf ''expected string''))"

definition default_range :: "go_map \<Rightarrow> go_map" where
  "default_range m =
     (let hasFrom = map_of m ''fromBlock'' \<noteq> None;
          hasTo = map_of m ''toBlock'' \<noteq> None
      in if hasFrom \<and> \<not> hasTo then AList.update ''toBlock'' (JStr ''latest'') m
         else if hasTo \<and> \<not> hasFrom then AList.update ''fromBlock'' (JStr ''latest'') m
         else m)"

text \<open>
  The size of the range: \<open>to-from\<close> is an unsigned subtraction and wraps around.
\<close>

definition check_range :: "geth \<Rightarrow> RewriteContext \<Rightarrow> go_map \<Rightarrow> err option" where
  "check_range G rctx m =
     (case blockNumber G m ''fromBlock'' (rc_latest rctx) of
        Inl e \<Rightarrow> Some e
      | Inr from \<Rightarrow>
          (case blockNumber G m ''toBlock'' (rc_latest rctx) of
             Inl e \<Rightarrow> Some e
           | Inr to \<Rightarrow> if to - from > rc_maxBlockRange rctx then Some ErrRewriteRangeTooLarge else None))"

definition rewriteRange ::
  "geth \<Rightarrow> RewriteContext \<Rightarrow> RPCReq \<Rightarrow> nat \<Rightarrow> (RewriteResult \<times> err option \<times> RPCReq) outcome" where
  "rewriteRange G rctx req pos =
     (case unmarshal_maps (Params req) of
        None \<Rightarrow> Return (RewriteOverrideError, Some ErrJSON, req)
      | Some (raw, p) \<Rightarrow>
          if length p \<le> pos then Panic ''index out of range''
          else
            let m0 = p ! pos;
                hasFrom = map_of m0 ''fromBlock'' \<noteq> None;
                hasTo = map_of m0 ''toBlock'' \<noteq> None;
                m1 = default_range m0
            in (case rewriteTagMap G rctx m1 ''fromBlock'' of
                  Inl e \<Rightarrow> Return (RewriteOverrideError, Some e, req)
                | Inr (m2, modifiedFrom) \<Rightarrow>
                    (case rewriteTagMap G rctx m2 ''toBlock'' of
                       Inl e \<Rightarrow> Return (RewriteOverrideError, Some e, req)
                     | Inr (m3, modifiedTo) \<Rightarrow>
                         (case (if rc_maxBlockRange rctx > 0 \<and> (hasFrom \<or> hasTo)
                                then check_range G rctx m3 else None) of
                            Some e \<Rightarrow> Return (RewriteOverrideError, Some e, req)
                          | None \<Rightarrow>
                              if modifiedFrom \<or> modifiedTo
                              then Return (RewriteOverrideRequest, None,
                                     req\<lparr>Params := Some (JArr (raw[pos := JObj m3]))\<rparr>)
                              else Return (RewriteNone, None, req)))))"

definition RewriteResponse :: "RewriteContext \<Rightarrow> RPCReq \<Rightarrow> RPCRes \<Rightarrow> RewriteResult \<times> RPCRes" where
  "RewriteResponse rctx req res =
     (if Method req = ''eth_blockNumber'' then (RewriteOverrideResponse, res\<lparr>Result := Uint64 (rc_latest rctx)\<rparr>)
      else (RewriteNone, res))"

text \<open>
  The methods with a block parameter: its position, whether it is required, and whether it may
  be an EIP-1898 object.
\<close>

definition param_rule :: "string \<Rightarrow> (nat \<times> bool \<times> bool) option" where
  "param_rule m =
     (if m \<in> {''debug_getRawReceipts'', ''consensus_getReceipts''} then Some (0, True, False)
      else if m \<in> {''eth_getBalance'', ''eth_getCode'', ''eth_getTransactionCount'', ''eth_call''}
        then Some (1, False, True)
      else if m \<in> {''eth_getStorageAt'', ''eth_getProof''} then Some (2, False, True)
      else if m \<in> {''eth_getBlockTransactionCountByNumber'', ''eth_getUncleCountByBlockNumber'',
          ''eth_getBlockByNumber'', ''eth_getTransactionByBlockNumberAndIndex'',
          ''eth_getUncleByBlockNumberAndIndex''} then Some (0, False, False)
      else None)"

definition range_method :: "string \<Rightarrow> bool" where
  "range_method m \<longleftrightarrow> m = ''eth_getLogs'' \<or> m = ''eth_newFilter''"

definition RewriteRequest ::
  "geth \<Rightarrow> RewriteContext \<Rightarrow> RPCReq \<Rightarrow> (RewriteResult \<times> err option \<times> RPCReq) outcome" where
  "RewriteRequest G rctx req =
     (if range_method (Method req) then rewriteRange G rctx req 0
      else case param_rule (Method req) of
             Some (pos, required, blockNrOrHash) \<Rightarrow> Return (rewriteParam G rctx req pos required blockNrOrHash)
           | None \<Rightarrow> Return (RewriteNone, None, req))"

definition RewriteTags ::
  "geth \<Rightarrow> RewriteContext \<Rightarrow> RPCReq \<Rightarrow> RPCRes \<Rightarrow> (RewriteResult \<times> err option \<times> RPCReq \<times> RPCRes) outcome" where
  "RewriteTags G rctx req res =
     (case RewriteResponse rctx req res of
        (RewriteOverrideResponse, res') \<Rightarrow> Return (RewriteOverrideResponse, None, req, res')
      | (_, res') \<Rightarrow>
          obind (RewriteRequest G rctx req) (\<lambda>(rw, e, req'). Return (rw, e, req', res')))"

subsection \<open>Specification\<close>

text \<open>
  The block references of a request, and what it means for one to respect the consensus: it is
  a hash, one of the tags the proxy leaves alone, or a number not above the consensus block.
\<close>

definition block_refs :: "RPCReq \<Rightarrow> json list" where
  "block_refs req =
     (if range_method (Method req) then
        (case unmarshal_maps (Params req) of
           Some (_, m # _) \<Rightarrow>
             filter (\<lambda>v. v \<noteq> JNull \<and> v \<noteq> JStr []) [map_index m ''fromBlock'', map_index m ''toBlock'']
         | _ \<Rightarrow> [])
      else
        (case param_rule (Method req) of
           Some (pos, _, _) \<Rightarrow>
             (case unmarshal_slice (Params req) of
                Some p \<Rightarrow> if pos < length p then [p ! pos] else []
              | None \<Rightarrow> [])
         | None \<Rightarrow> []))"

definition in_consensus :: "geth \<Rightarrow> RewriteContext \<Rightarrow> json \<Rightarrow> bool" where
  "in_consensus G rctx v =
     (case bnh_UnmarshalJSON G v of
        None \<Rightarrow> False
      | Some b \<Rightarrow>
          (case BlockNumber b of
             None \<Rightarrow> True
           | Some n \<Rightarrow>
               n = PendingBlockNumber G \<or> n = EarliestBlockNumber G \<or>
               n \<noteq> FinalizedBlockNumber G \<and> n \<noteq> SafeBlockNumber G \<and> n \<noteq> LatestBlockNumber G \<and>
               sint n \<le> sint (rc_latest rctx)))"

text \<open>The number a tag stands for.\<close>

definition tag_number :: "geth \<Rightarrow> RewriteContext \<Rightarrow> 64 word \<Rightarrow> u64 option" where
  "tag_number G rctx n =
     (if n = LatestBlockNumber G then Some (rc_latest rctx)
      else if n = SafeBlockNumber G then Some (rc_safe rctx)
      else if n = FinalizedBlockNumber G then Some (rc_finalized rctx) else None)"

text \<open>A bound of a filter's range: absent, or a string that respects the consensus.\<close>

definition ref_ok :: "geth \<Rightarrow> RewriteContext \<Rightarrow> json \<Rightarrow> bool" where
  "ref_ok G rctx v \<longleftrightarrow> v = JNull \<or> v = JStr [] \<or> (\<exists>s. v = JStr s \<and> in_consensus G rctx v)"

text \<open>What an accepted range request looks like.\<close>

definition range_accepted :: "geth \<Rightarrow> RewriteContext \<Rightarrow> go_map \<Rightarrow> bool" where
  "range_accepted G rctx m \<longleftrightarrow>
     (map_of m ''fromBlock'' = None \<longleftrightarrow> map_of m ''toBlock'' = None) \<and>
     ref_ok G rctx (map_index m ''fromBlock'') \<and> ref_ok G rctx (map_index m ''toBlock'') \<and>
     (rc_maxBlockRange rctx > 0 \<and> map_of m ''fromBlock'' \<noteq> None \<longrightarrow> check_range G rctx m = None)"

text \<open>The numbers of a consensus: below 2^63, with safe and finalized not above latest.\<close>

definition ordered_ctx :: "RewriteContext \<Rightarrow> bool" where
  "ordered_ctx rctx \<longleftrightarrow>
     0 \<le> sint (rc_safe rctx) \<and> sint (rc_safe rctx) \<le> sint (rc_latest rctx) \<and>
     0 \<le> sint (rc_finalized rctx) \<and> sint (rc_finalized rctx) \<le> sint (rc_latest rctx)"

subsection \<open>Lemmas\<close>

context geth_codec
begin

lemma number_not_tag:
  assumes "0 \<le> sint n"
  shows "n \<noteq> FinalizedBlockNumber G" "n \<noteq> SafeBlockNumber G" "n \<noteq> LatestBlockNumber G"
  using assms tags_negative by auto

lemma in_consensus_number:
  assumes "0 \<le> sint n" and "sint n \<le> sint (rc_latest rctx)"
  shows "in_consensus G rctx (JStr (Uint64_String G n))"
    and "in_consensus G rctx (bnh_MarshalJSON G (BlockNumberOrHashWithNumber n))"
  using assms number_string [OF assms(1)] number_marshal [OF assms(1)] number_not_tag [OF assms(1)]
  by (simp_all add: in_consensus_def BlockNumberOrHashWithNumber_def)

lemma ordered_ctx_nonneg: "ordered_ctx rctx \<Longrightarrow> 0 \<le> sint (rc_latest rctx)"
  by (simp add: ordered_ctx_def)

lemma rewriteTag_in_consensus:
  assumes "ordered_ctx rctx" and "rewriteTag G rctx s = Inr (s', rw)"
  shows "in_consensus G rctx (JStr s')"
proof -
  have num: "in_consensus G rctx (JStr (Uint64_String G n))"
    if "n \<in> {rc_latest rctx, rc_safe rctx, rc_finalized rctx}" for n
    using that assms(1) ordered_ctx_nonneg by (auto simp: ordered_ctx_def intro!: in_consensus_number(1))
  obtain b where b: "bnh_UnmarshalJSON G (JStr s) = Some b"
    using assms(2) by (cases "bnh_UnmarshalJSON G (JStr s)")
      (simp_all add: rewriteTag_def remarshalBlockNumberOrHash_def)
  show ?thesis
  proof (cases "BlockNumber b")
    case None
    with assms(2) b show ?thesis
      by (simp add: rewriteTag_def remarshalBlockNumberOrHash_def in_consensus_def)
  next
    case (Some n)
    have "in_consensus G rctx (JStr s) \<and> s' = s \<or>
        s' \<in> Uint64_String G ` {rc_latest rctx, rc_safe rctx, rc_finalized rctx}"
      using assms(2) Some b
      by (auto simp: rewriteTag_def remarshalBlockNumberOrHash_def in_consensus_def split: if_splits)
    then show ?thesis using num by blast
  qed
qed

lemma rewriteTag_unchanged:
  "in_consensus G rctx (JStr s) \<Longrightarrow> rewriteTag G rctx s = Inr (s, False)"
  using tags_distinct
  by (auto simp: rewriteTag_def remarshalBlockNumberOrHash_def in_consensus_def split: option.splits)

lemma rewriteTag_same: "rewriteTag G rctx s = Inr (s', False) \<Longrightarrow> s' = s"
  by (auto simp: rewriteTag_def split: option.splits if_splits sum.splits)

lemma rewriteTagBlockNumberOrHash_in_consensus:
  assumes "ordered_ctx rctx" and "rewriteTagBlockNumberOrHash G rctx b = Inr (b', rw)"
    and "bnh_UnmarshalJSON G v = Some b"
  shows "in_consensus G rctx (if rw then bnh_MarshalJSON G b' else v)"
proof -
  have num: "in_consensus G rctx (bnh_MarshalJSON G (BlockNumberOrHashWithNumber n))"
    if "n \<in> {rc_latest rctx, rc_safe rctx, rc_finalized rctx}" for n
    using that assms(1) ordered_ctx_nonneg by (auto simp: ordered_ctx_def intro!: in_consensus_number(2))
  show ?thesis
  proof (cases "BlockNumber b")
    case None
    with assms show ?thesis by (auto simp: rewriteTagBlockNumberOrHash_def in_consensus_def)
  next
    case (Some n)
    have "in_consensus G rctx v" if "\<not> rw"
      using that assms(2,3) Some
      by (auto simp: rewriteTagBlockNumberOrHash_def in_consensus_def split: if_splits)
    moreover have "b' \<in> BlockNumberOrHashWithNumber ` {rc_latest rctx, rc_safe rctx, rc_finalized rctx}" if rw
      using that assms(2) Some by (simp add: rewriteTagBlockNumberOrHash_def split: if_splits)
    ultimately show ?thesis using num by auto
  qed
qed

lemma rewriteValue_InrE:
  assumes "rewriteValue G rctx bnh v = Inr (v', rw)"
  obtains (str) s s' where "v = JStr s" "v' = JStr s'" "rewriteTag G rctx s = Inr (s', rw)"
  | (bnh) b b' where "bnh" "bnh_UnmarshalJSON G v = Some b" "v' = bnh_MarshalJSON G b'"
      "rewriteTagBlockNumberOrHash G rctx b = Inr (b', rw)"
proof (cases "bnh \<and> bnh_UnmarshalJSON G v \<noteq> None")
  case True
  then obtain b where b: "bnh_UnmarshalJSON G v = Some b" by auto
  with True assms show ?thesis
    by (auto simp: rewriteValue_def remarshalBlockNumberOrHash_def map_sum_eq_Inr intro: bnh)
next
  case False
  then obtain s where "v = JStr s"
    using assms
    by (cases v) (auto simp: rewriteValue_def remarshalBlockNumberOrHash_def split: if_splits)
  with False assms show ?thesis
    by (auto simp: rewriteValue_def remarshalBlockNumberOrHash_def map_sum_eq_Inr
        split: if_splits intro: str)
qed

lemma rewriteValue_in_consensus:
  assumes "ordered_ctx rctx" and "rewriteValue G rctx bnh v = Inr (v', rw)"
  shows "in_consensus G rctx (if rw then v' else v)"
  using assms(2)
proof (cases rule: rewriteValue_InrE)
  case (str s s')
  then show ?thesis
    using rewriteTag_in_consensus [OF assms(1) str(3)] rewriteTag_same [of rctx s s'] by (cases rw) simp_all
next
  case (bnh b b')
  then show ?thesis
    using rewriteTagBlockNumberOrHash_in_consensus [OF assms(1) bnh(4,2)] by (cases rw) simp_all
qed

lemma rewriteValue_unchanged:
  assumes "in_consensus G rctx v" and "\<not> bnh \<Longrightarrow> \<exists>s. v = JStr s"
  shows "\<exists>v'. rewriteValue G rctx bnh v = Inr (v', False)"
proof -
  obtain b where b: "bnh_UnmarshalJSON G v = Some b"
    using assms(1) by (auto simp: in_consensus_def split: option.splits)
  show ?thesis
  proof (cases bnh)
    case True
    have "rewriteTagBlockNumberOrHash G rctx b = Inr (b, False)"
      using assms(1) b tags_distinct
      by (auto simp: rewriteTagBlockNumberOrHash_def in_consensus_def split: option.splits)
    with True b show ?thesis by (simp add: rewriteValue_def remarshalBlockNumberOrHash_def)
  next
    case False
    then obtain s where "v = JStr s" using assms(2) by auto
    with False assms(1) show ?thesis by (simp add: rewriteValue_def rewriteTag_unchanged)
  qed
qed

lemma rewriteValue_latest:
  "\<exists>v'. rewriteValue G rctx bnh (JStr ''latest'') = Inr (v', True)"
  using tags_distinct
  by (simp add: rewriteValue_def remarshalBlockNumberOrHash_def latest_tag rewriteTag_def
      rewriteTagBlockNumberOrHash_def BlockNumberOrHashWithNumber_def)

text \<open>A parameter: the request that goes on, and what a second rewrite makes of it.\<close>

lemma rewriteParam_cases:
  assumes "rewriteParam G rctx req pos required bnh = (rw, e, req')"
    and "rw = RewriteNone \<or> rw = RewriteOverrideRequest"
  obtains (short) p where "unmarshal_slice (Params req) = Some p" "length p \<le> pos" "req' = req" "rw = RewriteNone"
      "e = None" "length p = pos \<longrightarrow> required"
  | (same) p v where "unmarshal_slice (Params req) = Some p" "pos < length p" "req' = req" "rw = RewriteNone"
      "e = None" "rewriteValue G rctx bnh (p ! pos) = Inr (v, False)"
  | (changed) p v w where "pos < length p" "req' = req\<lparr>Params := Some (JArr (p[pos := v]))\<rparr>"
      "rw = RewriteOverrideRequest" "e = None" "rewriteValue G rctx bnh w = Inr (v, True)"
proof -
  obtain p where p: "unmarshal_slice (Params req) = Some p"
    using assms by (cases "unmarshal_slice (Params req)") (auto simp: rewriteParam_def)
  let ?p = "if length p = pos \<and> \<not> required then p @ [JStr ''latest''] else p"
  show ?thesis
  proof (cases "length ?p \<le> pos")
    case True
    with assms p show ?thesis by (intro short [of p]) (auto simp: rewriteParam_def split: if_splits)
  next
    case False
    then obtain v c where v: "rewriteValue G rctx bnh (?p ! pos) = Inr (v, c)"
      using assms p by (cases "rewriteValue G rctx bnh (?p ! pos)")
        (auto simp: rewriteParam_def Let_def simp del: if_split_eq1)
    with False assms(1) p have eq: "(rw, e, req') = (if c
        then (RewriteOverrideRequest, None, req\<lparr>Params := Some (JArr (?p[pos := v]))\<rparr>)
        else (RewriteNone, None, req))"
      by (simp add: rewriteParam_def Let_def)
    show ?thesis
    proof (cases c)
      case True
      with eq v False show ?thesis by (intro changed [of ?p v]) simp_all
    next
      case nc: False
      have "pos < length p"
        using False v nc rewriteValue_latest [of rctx bnh] by (auto split: if_splits simp: nth_append)
      with eq v nc p show ?thesis by (intro same [of p v]) simp_all
    qed
  qed
qed

lemma rewriteParam_sound:
  assumes "ordered_ctx rctx" and "rewriteParam G rctx req pos required bnh = (rw, e, req')"
    and "rw = RewriteNone \<or> rw = RewriteOverrideRequest"
  shows "e = None \<and> req' = req\<lparr>Params := Params req'\<rparr> \<and>
    rewriteParam G rctx req' pos required bnh = (RewriteNone, None, req') \<and>
    (\<exists>p. unmarshal_slice (Params req') = Some p \<and> (pos < length p \<longrightarrow> in_consensus G rctx (p ! pos)))"
  using assms(2,3)
proof (cases rule: rewriteParam_cases)
  case (short p)
  then show ?thesis using assms(2) by simp
next
  case (same p v)
  then show ?thesis using assms(2) rewriteValue_in_consensus [OF assms(1) same(6)] by simp
next
  case (changed p v w)
  have v: "in_consensus G rctx v" using rewriteValue_in_consensus [OF assms(1) changed(5)] by simp
  have "\<exists>s. v = JStr s" if "\<not> bnh"
    using changed(5) that by (cases rule: rewriteValue_InrE) auto
  from rewriteValue_unchanged [OF v this] obtain v' where "rewriteValue G rctx bnh v = Inr (v', False)" by blast
  then show ?thesis using changed v by (simp add: rewriteParam_def)
qed

subsection \<open>Ranges\<close>

lemma rewriteTagMap_unchanged:
  "ref_ok G rctx (map_index m key) \<Longrightarrow> rewriteTagMap G rctx m key = Inr (m, False)"
  by (auto simp: ref_ok_def rewriteTagMap_def rewriteTag_unchanged)

lemma map_index_update: "map_index (AList.update k v m) k' = (if k = k' then v else map_index m k')"
  by (simp add: map_index_def update_conv')

lemma rewriteTagMap_InrE:
  assumes "ordered_ctx rctx" and "rewriteTagMap G rctx m key = Inr (m', c)"
  obtains (same) "\<not> c" "m' = m" "ref_ok G rctx (map_index m key)"
  | (changed) s s' where "c" "map_index m key = JStr s" "m' = AList.update key (JStr s') m"
      "in_consensus G rctx (JStr s')"
proof (cases "map_index m key = JNull \<or> map_index m key = JStr []")
  case True
  with assms show ?thesis by (auto simp: rewriteTagMap_def ref_ok_def intro: same)
next
  case False
  then obtain s where s: "map_index m key = JStr s"
    using assms(2) by (cases "map_index m key") (auto simp: rewriteTagMap_def)
  then obtain s' rw where t: "rewriteTag G rctx s = Inr (s', rw)"
    using assms(2) False by (cases "rewriteTag G rctx s") (auto simp: rewriteTagMap_def)
  note ok = rewriteTag_in_consensus [OF assms(1) t]
  show ?thesis
  proof (cases rw)
    case True
    with assms(2) False s t ok show ?thesis
      by (intro changed) (auto simp: rewriteTagMap_def)
  next
    case nrw: False
    then have "s' = s" using t rewriteTag_same [of rctx s s'] by simp
    with assms(2) False s t ok nrw show ?thesis
      by (intro same) (auto simp: rewriteTagMap_def ref_ok_def)
  qed
qed

lemma rewriteTagMap_ok:
  assumes "ordered_ctx rctx" and "rewriteTagMap G rctx m key = Inr (m', c)"
  shows "ref_ok G rctx (map_index m' key)"
    and "k \<noteq> key \<Longrightarrow> map_index m' k = map_index m k"
    and "map_of m' k = None \<longleftrightarrow> map_of m k = None"
    and "\<not> c \<Longrightarrow> m' = m"
proof -
  have "ref_ok G rctx (map_index m' key) \<and> (k \<noteq> key \<longrightarrow> map_index m' k = map_index m k) \<and>
      (map_of m' k = None \<longleftrightarrow> map_of m k = None) \<and> (\<not> c \<longrightarrow> m' = m)"
    using assms
  proof (cases rule: rewriteTagMap_InrE)
    case same
    then show ?thesis by simp
  next
    case (changed s s')
    then have "map_of m key \<noteq> None" by (auto simp: map_index_def split: option.splits)
    with changed show ?thesis by (auto simp: map_index_update ref_ok_def update_conv')
  qed
  then show "ref_ok G rctx (map_index m' key)" "k \<noteq> key \<Longrightarrow> map_index m' k = map_index m k"
    "map_of m' k = None \<longleftrightarrow> map_of m k = None" "\<not> c \<Longrightarrow> m' = m" by simp_all
qed

lemma rewriteTagMap_latest:
  "map_index m key = JStr ''latest'' \<Longrightarrow> \<exists>m'. rewriteTagMap G rctx m key = Inr (m', True)"
  using tags_distinct
  by (simp add: rewriteTagMap_def remarshalBlockNumberOrHash_def latest_tag rewriteTag_def
      BlockNumberOrHashWithNumber_def)

lemma default_range_both:
  "map_of (default_range m) ''fromBlock'' = None \<longleftrightarrow> map_of (default_range m) ''toBlock'' = None"
  by (auto simp: default_range_def Let_def update_conv')

lemma default_range_id:
  "(map_of m ''fromBlock'' = None \<longleftrightarrow> map_of m ''toBlock'' = None) \<Longrightarrow> default_range m = m"
  by (auto simp: default_range_def Let_def)

lemma default_range_has:
  "map_of (default_range m) ''fromBlock'' = None \<longleftrightarrow>
     map_of m ''fromBlock'' = None \<and> map_of m ''toBlock'' = None"
  by (auto simp: default_range_def Let_def update_conv')

lemma rewriteRange_accepted:
  "unmarshal_maps (Params req) = Some (raw, m # p) \<Longrightarrow> range_accepted G rctx m \<Longrightarrow>
     rewriteRange G rctx req 0 = Return (RewriteNone, None, req)"
  by (auto simp: rewriteRange_def range_accepted_def default_range_id rewriteTagMap_unchanged Let_def)

lemma rewriteTagMap_range:
  assumes "ordered_ctx rctx" and m2: "rewriteTagMap G rctx (default_range m) ''fromBlock'' = Inr (m2, c)"
    and m3: "rewriteTagMap G rctx m2 ''toBlock'' = Inr (m3, c')"
  shows "map_of m3 k = None \<longleftrightarrow> map_of (default_range m) k = None"
    and "ref_ok G rctx (map_index m3 ''fromBlock'')" and "ref_ok G rctx (map_index m3 ''toBlock'')"
    and "\<not> c \<Longrightarrow> \<not> c' \<Longrightarrow> m3 = m"
proof -
  note ok2 = rewriteTagMap_ok [OF assms(1) m2] and ok3 = rewriteTagMap_ok [OF assms(1) m3]
  show "map_of m3 k = None \<longleftrightarrow> map_of (default_range m) k = None" using ok2(3) ok3(3) by simp
  show "ref_ok G rctx (map_index m3 ''fromBlock'')" using ok2(1) ok3(2) [of "''fromBlock''"] by simp
  show "ref_ok G rctx (map_index m3 ''toBlock'')" using ok3(1) .
  show "m3 = m" if nc: "\<not> c" "\<not> c'"
  proof -
    have eq: "m3 = default_range m" "m2 = default_range m" using ok2(4) ok3(4) nc by simp_all
    have "map_index (default_range m) ''fromBlock'' \<noteq> JStr ''latest''"
      using rewriteTagMap_latest [of "default_range m" "''fromBlock''" rctx] m2 nc by auto
    moreover have "map_index (default_range m) ''toBlock'' \<noteq> JStr ''latest''"
      using rewriteTagMap_latest [of "default_range m" "''toBlock''" rctx] m3 eq nc by auto
    ultimately have "default_range m = m"
      by (auto simp: default_range_def Let_def map_index_update split: if_splits)
    with eq show ?thesis by simp
  qed
qed

lemma unmarshal_maps_update:
  assumes "unmarshal_maps raw = Some (xs, ms)"
  shows "unmarshal_maps (Some (JArr (xs[i := JObj m]))) = Some (xs[i := JObj m], ms[i := m])"
proof -
  have xs: "list_all (\<lambda>x. unmarshal_map x \<noteq> None) xs" "ms = map (\<lambda>x. the (unmarshal_map x)) xs"
    using assms by (auto simp: unmarshal_maps_def split: option.splits if_splits)
  have "list_all (\<lambda>x. unmarshal_map x \<noteq> None) (xs[i := JObj m])"
    using xs(1) by (auto simp: list_all_iff dest!: set_update_subset_insert [THEN subsetD])
  then show ?thesis using xs(2) by (simp add: unmarshal_maps_def map_update)
qed

lemma rewriteRange_sound:
  assumes "ordered_ctx rctx" and r: "rewriteRange G rctx req 0 = Return (rw, e, req')"
    and "rw = RewriteNone \<or> rw = RewriteOverrideRequest"
  shows "e = None \<and> req' = req\<lparr>Params := Params req'\<rparr> \<and>
    (\<exists>raw m p. unmarshal_maps (Params req') = Some (raw, m # p) \<and> range_accepted G rctx m)"
proof -
  obtain raw m p where p: "unmarshal_maps (Params req) = Some (raw, m # p)"
    using r assms(3) by (auto simp: rewriteRange_def neq_Nil_conv split: option.splits if_splits)
  let ?check = "\<lambda>m3. if rc_maxBlockRange rctx > 0 \<and> (map_of m ''fromBlock'' \<noteq> None \<or> map_of m ''toBlock'' \<noteq> None)
      then check_range G rctx m3 else None"
  obtain m2 c where m2: "rewriteTagMap G rctx (default_range m) ''fromBlock'' = Inr (m2, c)"
    using r p assms(3) by (cases "rewriteTagMap G rctx (default_range m) ''fromBlock''")
      (auto simp: rewriteRange_def Let_def)
  obtain m3 c' where m3: "rewriteTagMap G rctx m2 ''toBlock'' = Inr (m3, c')"
    using r p m2 assms(3) by (cases "rewriteTagMap G rctx m2 ''toBlock''") (auto simp: rewriteRange_def Let_def)
  have chk: "?check m3 = None"
    using r p m2 m3 assms(3) by (cases "?check m3") (simp_all add: rewriteRange_def Let_def del: if_split_eq1)
  note ok = rewriteTagMap_range [OF assms(1) m2 m3]
  have acc: "range_accepted G rctx m3"
    using ok(1,2,3) chk default_range_both [of m] default_range_has [of m]
    by (auto simp: range_accepted_def split: if_splits)
  have eq: "(rw, e, req') = (if c \<or> c'
      then (RewriteOverrideRequest, None, req\<lparr>Params := Some (JArr (raw[0 := JObj m3]))\<rparr>)
      else (RewriteNone, None, req))"
    using r p m2 m3 chk by (simp add: rewriteRange_def Let_def split: if_splits)
  show ?thesis
  proof (cases "c \<or> c'")
    case True
    then show ?thesis using eq acc unmarshal_maps_update [OF p, of 0 m3] by auto
  next
    case False
    then show ?thesis using eq acc p ok(4) by auto
  qed
qed

lemma blockNumber_bound:
  assumes ok: "ref_ok G rctx (map_index m key)" and latest: "0 \<le> sint (rc_latest rctx)"
    and b: "blockNumber G m key (rc_latest rctx) = Inr n"
  shows "unat n \<le> unat (rc_latest rctx) + 1"
proof -
  obtain s where s: "map_index m key = JStr s" using b by (auto simp: blockNumber_def split: json.splits)
  consider "s = ''earliest''" | "s = ''pending''" | "DecodeUint64 G s = Some n"
    using b s by (auto simp: blockNumber_def split: if_splits option.splits)
  then show ?thesis
  proof cases
    case 3
    then have "s \<notin> set block_tags" "s \<noteq> []" using decode_not_tag by blast+
    moreover obtain b k where bk: "bnh_UnmarshalJSON G (JStr s) = Some b" "BlockNumber b = Some k"
      using ok s 3 \<open>s \<noteq> []\<close> unmarshal_hash by (fastforce simp: ref_ok_def in_consensus_def split: option.splits)
    ultimately have k: "k = n" "0 \<le> sint n" using unmarshal_number [OF bk] 3 by auto
    have "in_consensus G rctx (JStr s)" using ok s \<open>s \<noteq> []\<close> by (simp add: ref_ok_def)
    then have "sint n \<le> sint (rc_latest rctx)"
      using bk k tags_negative latest by (auto simp: in_consensus_def)
    then show ?thesis using sint_nonneg_unat [OF k(2)] sint_nonneg_unat [OF latest] by linarith
  qed (use b s unat_Suc_le [of "rc_latest rctx"] in \<open>simp_all add: blockNumber_def\<close>)
qed

lemma check_range_bound:
  assumes "ordered_ctx rctx" and acc: "range_accepted G rctx m" "map_of m ''fromBlock'' \<noteq> None"
    and max: "0 < rc_maxBlockRange rctx" "unat (rc_maxBlockRange rctx) + unat (rc_latest rctx) + 1 < 2 ^ 64"
  shows "\<exists>frm to. blockNumber G m ''fromBlock'' (rc_latest rctx) = Inr frm \<and>
    blockNumber G m ''toBlock'' (rc_latest rctx) = Inr to \<and> frm \<le> to \<and>
    unat to - unat frm \<le> unat (rc_maxBlockRange rctx) \<and> unat to \<le> unat (rc_latest rctx) + 1"
proof -
  note latest = ordered_ctx_nonneg [OF assms(1)]
  obtain frm to where ft: "blockNumber G m ''fromBlock'' (rc_latest rctx) = Inr frm"
      "blockNumber G m ''toBlock'' (rc_latest rctx) = Inr to" "to - frm \<le> rc_maxBlockRange rctx"
    using acc max(1)
    by (auto simp: range_accepted_def check_range_def split: sum.splits if_splits)
  have b: "unat frm \<le> unat (rc_latest rctx) + 1" "unat to \<le> unat (rc_latest rctx) + 1"
    using blockNumber_bound [OF _ latest] ft acc by (auto simp: range_accepted_def)
  have d: "unat (to - frm) \<le> unat (rc_maxBlockRange rctx)" using ft(3) by (simp add: word_le_nat_alt)
  have le: "frm \<le> to"
  proof (rule ccontr)
    assume "\<not> frm \<le> to"
    then have "unat (to - frm) = 2 ^ 64 + unat to - unat frm"
      by (simp add: unat_sub_if_size word_le_nat_alt word_size)
    with d b(1) max(2) show False by simp
  qed
  then have "unat (to - frm) = unat to - unat frm" by (simp add: unat_sub_if_size word_le_nat_alt)
  with ft b d le show ?thesis by auto
qed

lemma rewriteValue_tag:
  assumes "ordered_ctx rctx" and "bnh_UnmarshalJSON G v = Some b" "BlockNumber b = Some n"
    and "tag_number G rctx n = Some k" and "bnh \<or> (\<exists>s. v = JStr s)"
  shows "\<exists>v'. rewriteValue G rctx bnh v = Inr (v', True) \<and>
    bnh_UnmarshalJSON G v' = Some (BlockNumberOrHashWithNumber k)"
proof -
  have k: "0 \<le> sint k"
    using assms(1,4) by (auto simp: tag_number_def ordered_ctx_def split: if_splits)
  have "rewriteTagBlockNumberOrHash G rctx b = Inr (BlockNumberOrHashWithNumber k, True)"
    using assms(3,4) tags_distinct by (auto simp: rewriteTagBlockNumberOrHash_def tag_number_def split: if_splits)
  moreover have "rewriteTag G rctx s = Inr (Uint64_String G k, True)" if "v = JStr s" for s
    using that assms(2,3,4) tags_distinct
    by (auto simp: rewriteTag_def remarshalBlockNumberOrHash_def tag_number_def split: if_splits)
  ultimately show ?thesis using assms(2,5) number_string [OF k] number_marshal [OF k]
    by (cases bnh) (auto simp: rewriteValue_def remarshalBlockNumberOrHash_def)
qed

end

lemma RewriteTags_Return:
  "RewriteTags G rctx req res = Return (rw, e, req', res') \<Longrightarrow> rw = RewriteNone \<or> rw = RewriteOverrideRequest \<Longrightarrow>
     Method req \<noteq> ''eth_blockNumber'' \<and> RewriteRequest G rctx req = Return (rw, e, req') \<and> res' = res"
  by (auto simp: RewriteTags_def RewriteResponse_def obind_eq_Return split: if_splits)

lemma RewriteTags_Request:
  "Method req \<noteq> ''eth_blockNumber'' \<Longrightarrow> RewriteRequest G rctx req = Return (rw, e, req') \<Longrightarrow>
     RewriteTags G rctx req res = Return (rw, e, req', res)"
  by (simp add: RewriteTags_def RewriteResponse_def)

lemma param_rule_blockNumber: "param_rule ''eth_blockNumber'' = None" "\<not> range_method ''eth_blockNumber''"
  by (simp_all add: param_rule_def range_method_def)

lemma param_rule_range: "param_rule m = Some r \<Longrightarrow> \<not> range_method m"
  by (auto simp: param_rule_def range_method_def)

subsection \<open>Properties\<close>

lemma RewriteTags_sound:
  assumes codec: "geth_codec G" and ctx: "ordered_ctx rctx"
    and r: "RewriteTags G rctx req res = Return (rw, e, req', res')"
    and rw: "rw = RewriteNone \<or> rw = RewriteOverrideRequest"
  shows "(\<forall>v\<in>set (block_refs req'). in_consensus G rctx v) \<and>
    e = None \<and> res' = res \<and> req' = req\<lparr>Params := Params req'\<rparr> \<and>
    RewriteTags G rctx req' res = Return (RewriteNone, None, req', res)"
proof -
  have m: "Method req \<noteq> ''eth_blockNumber''" and q: "RewriteRequest G rctx req = Return (rw, e, req')"
    and res: "res' = res" using RewriteTags_Return [OF r rw] by auto
  consider (range) "range_method (Method req)"
    | (param) pos required bnh where "\<not> range_method (Method req)" "param_rule (Method req) = Some (pos, required, bnh)"
    | (other) "\<not> range_method (Method req)" "param_rule (Method req) = None"
    by (metis not_None_eq surj_pair)
  then show ?thesis
  proof cases
    case range
    then have "rewriteRange G rctx req 0 = Return (rw, e, req')" using q by (simp add: RewriteRequest_def)
    from geth_codec.rewriteRange_sound [OF codec ctx this rw] obtain raw m p
      where ok: "e = None" "req' = req\<lparr>Params := Params req'\<rparr>"
        "unmarshal_maps (Params req') = Some (raw, m # p)" "range_accepted G rctx m" by blast
    then have meth: "Method req' = Method req" by (metis RPCReq.select_convs(2) RPCReq.surjective RPCReq.update_convs(3))
    have "RewriteRequest G rctx req' = Return (RewriteNone, None, req')"
      using geth_codec.rewriteRange_accepted [OF codec ok(3,4)] range meth by (simp add: RewriteRequest_def)
    with ok meth m res range show ?thesis
      by (auto simp: RewriteTags_Request block_refs_def range_accepted_def ref_ok_def)
  next
    case param
    then have "rewriteParam G rctx req pos required bnh = (rw, e, req')" using q by (simp add: RewriteRequest_def)
    from geth_codec.rewriteParam_sound [OF codec ctx this rw] obtain p
      where ok: "e = None" "req' = req\<lparr>Params := Params req'\<rparr>"
        "rewriteParam G rctx req' pos required bnh = (RewriteNone, None, req')"
        "unmarshal_slice (Params req') = Some p" "pos < length p \<Longrightarrow> in_consensus G rctx (p ! pos)" by blast
    then have "Method req' = Method req" by (metis RPCReq.select_convs(2) RPCReq.surjective RPCReq.update_convs(3))
    with ok m res param show ?thesis
      by (auto simp: RewriteTags_Request RewriteRequest_def block_refs_def)
  next
    case other
    with q m res show ?thesis by (auto simp: RewriteRequest_def RewriteTags_Request block_refs_def)
  qed
qed

text \<open>
  C2. Consensus safety of the rewriter. When the rewriter lets a request go on to a backend,
  changed or not, every block reference of that request respects the consensus (it is a hash, the
  pending or earliest tag, or a number not above the consensus block; never the tags latest, safe
  or finalized). Only the parameters changed, there is no error and the response is untouched,
  and rewriting the rewritten request again leaves it as it is.
\<close>

theorem rewrite_tags_sound:
  assumes codec: "geth_codec G" and ctx: "ordered_ctx rctx"
    and r: "RewriteTags G rctx req res = Return (rw, e, req', res')"
    and rw: "rw = RewriteNone \<or> rw = RewriteOverrideRequest"
  shows "(\<forall>v\<in>set (block_refs req'). in_consensus G rctx v) \<and>
    e = None \<and> res' = res \<and> req' = req\<lparr>Params := Params req'\<rparr> \<and>
    RewriteTags G rctx req' res = Return (RewriteNone, None, req', res)"
  using assms by (rule RewriteTags_sound)

text \<open>A consensus at block 100, with safe 90 and finalized 80, and ranges of at most 30 blocks.\<close>

definition ctx_100 :: RewriteContext where
  "ctx_100 = \<lparr>rc_latest = 100, rc_safe = 90, rc_finalized = 80, rc_maxBlockRange = 30\<rparr>"

definition get_block :: "string \<Rightarrow> RPCReq" where
  "get_block tag = \<lparr>JSONRPC = ''2.0'', Method = ''eth_getBlockByNumber'',
     Params = Some (JArr [JStr tag, JBool False]), ID = ''1''\<rparr>"

definition get_logs :: "json list \<Rightarrow> RPCReq" where
  "get_logs ps = \<lparr>JSONRPC = ''2.0'', Method = ''eth_getLogs'', Params = Some (JArr ps), ID = ''1''\<rparr>"

lemmas rewrite_eval = RewriteTags_def RewriteResponse_def RewriteRequest_def rewriteParam_def rewriteValue_def
  rewriteTag_def remarshalBlockNumberOrHash_def geth_ref_def ref_string_def BlockNumberOrHashWithNumber_def
  range_method_def param_rule_def rewriteRange_def unmarshal_maps_def default_range_def rewriteTagMap_def
  map_index_def check_range_def blockNumber_def hex_decode_def hex_digit_val_def hex_alphabet_def

lemma ctx_100_ordered: "ordered_ctx ctx_100"
  by (simp add: ordered_ctx_def ctx_100_def)

lemma hex_encode_100: "hex_encode 100 = ''0x64''" "hex_encode 90 = ''0x5a''"
  by (simp_all add: hex_encode_def hex_digits.simps hex_alphabet_def)

theorem rewrite_tags_sound_witness:
  "in_consensus geth_ref ctx_100 (JStr ''0x5a'') \<and>
     RewriteTags geth_ref ctx_100 (get_block ''0x5a'') (NewRPCRes ''1'' NilVal) =
       Return (RewriteNone, None, get_block ''0x5a'', NewRPCRes ''1'' NilVal)"
proof -
  have "RewriteTags geth_ref ctx_100 (get_block ''safe'') (NewRPCRes ''1'' NilVal) =
      Return (RewriteOverrideRequest, None, get_block ''0x5a'', NewRPCRes ''1'' NilVal)"
    by (simp add: rewrite_eval get_block_def ctx_100_def hex_encode_100)
  from rewrite_tags_sound [OF ref_codec.geth_codec_axioms ctx_100_ordered this] show ?thesis
    by (simp add: block_refs_def get_block_def range_method_def param_rule_def)
qed

text \<open>
  C24. Each tag is replaced by its own consensus number. For every method with a block parameter,
  a parameter that decodes to the tag latest, safe or finalized (as a string, or inside an
  EIP-1898 object where the method takes one; a missing optional parameter counts as latest)
  becomes a parameter that decodes to the latest, safe or finalized block number of the
  consensus, and every other parameter stays as it was.
\<close>

theorem rewrite_tags_replaces:
  assumes codec: "geth_codec G" and ctx: "ordered_ctx rctx"
    and rule: "param_rule (Method req) = Some (pos, required, bnh)"
    and p: "unmarshal_slice (Params req) = Some p"
    and q: "q = (if length p = pos \<and> \<not> required then p @ [JStr ''latest''] else p)" "pos < length q"
    and b: "bnh_UnmarshalJSON G (q ! pos) = Some b" "BlockNumber b = Some n"
    and k: "tag_number G rctx n = Some k" and s: "bnh \<or> (\<exists>s. q ! pos = JStr s)"
  shows "\<exists>v. RewriteTags G rctx req res =
      Return (RewriteOverrideRequest, None, req\<lparr>Params := Some (JArr (q[pos := v]))\<rparr>, res) \<and>
    bnh_UnmarshalJSON G v = Some (BlockNumberOrHashWithNumber k)"
proof -
  have m: "Method req \<noteq> ''eth_blockNumber''" using rule param_rule_blockNumber by auto
  obtain v where v: "rewriteValue G rctx bnh (q ! pos) = Inr (v, True)"
      "bnh_UnmarshalJSON G v = Some (BlockNumberOrHashWithNumber k)"
    using geth_codec.rewriteValue_tag [OF codec ctx b k s] by blast
  have "rewriteParam G rctx req pos required bnh =
      (RewriteOverrideRequest, None, req\<lparr>Params := Some (JArr (q[pos := v]))\<rparr>)"
    using p q(2) v(1) by (simp add: rewriteParam_def Let_def flip: q(1))
  then have "RewriteRequest G rctx req =
      Return (RewriteOverrideRequest, None, req\<lparr>Params := Some (JArr (q[pos := v]))\<rparr>)"
    using rule param_rule_range [OF rule] by (simp add: RewriteRequest_def)
  with m v(2) show ?thesis by (auto simp: RewriteTags_Request)
qed

theorem rewrite_tags_replaces_witness:
  "\<exists>v. RewriteTags geth_ref ctx_100 (get_block ''safe'') (NewRPCRes ''1'' NilVal) =
      Return (RewriteOverrideRequest, None, (get_block ''safe'')\<lparr>Params := Some (JArr [v, JBool False])\<rparr>,
        NewRPCRes ''1'' NilVal) \<and>
    bnh_UnmarshalJSON geth_ref v = Some (BlockNumberOrHashWithNumber 90)"
  using rewrite_tags_replaces [OF ref_codec.geth_codec_axioms ctx_100_ordered, of "get_block ''safe''" 0 False False
      "[JStr ''safe'', JBool False]" "[JStr ''safe'', JBool False]" "BlockNumberOrHashWithNumber (-4)" "-4" 90
      "NewRPCRes ''1'' NilVal"]
  by (simp add: get_block_def param_rule_def geth_ref_def ref_string_def BlockNumberOrHashWithNumber_def
      tag_number_def ctx_100_def)

text \<open>
  C26. The block range limit. When a log or filter request with a block range goes on to a backend
  and a maximal range is configured (small enough that it and the consensus block fit in 64
  bits), both bounds decode, the range is not inverted, it has at most the configured size and
  it ends at most at the pending block: the wrap-around of the unsigned subtraction of the bounds
  is never what lets a range pass.
\<close>

theorem rewrite_range_bound:
  assumes codec: "geth_codec G" and ctx: "ordered_ctx rctx" and m: "range_method (Method req)"
    and r: "RewriteTags G rctx req res = Return (rw, e, req', res')"
    and rw: "rw = RewriteNone \<or> rw = RewriteOverrideRequest"
    and max: "0 < rc_maxBlockRange rctx" "unat (rc_maxBlockRange rctx) + unat (rc_latest rctx) + 1 < 2 ^ 64"
  shows "\<exists>raw m ms. unmarshal_maps (Params req') = Some (raw, m # ms) \<and>
    (map_of m ''fromBlock'' = None \<and> map_of m ''toBlock'' = None \<or>
     (\<exists>frm to. blockNumber G m ''fromBlock'' (rc_latest rctx) = Inr frm \<and>
       blockNumber G m ''toBlock'' (rc_latest rctx) = Inr to \<and> frm \<le> to \<and>
       unat to - unat frm \<le> unat (rc_maxBlockRange rctx) \<and> unat to \<le> unat (rc_latest rctx) + 1))"
proof -
  have "rewriteRange G rctx req 0 = Return (rw, e, req')"
    using RewriteTags_Return [OF r rw] m by (simp add: RewriteRequest_def)
  from geth_codec.rewriteRange_sound [OF codec ctx this rw] obtain raw m ms
    where ok: "unmarshal_maps (Params req') = Some (raw, m # ms)" "range_accepted G rctx m" by blast
  show ?thesis
  proof (cases "map_of m ''fromBlock'' = None")
    case True
    with ok show ?thesis by (auto simp: range_accepted_def)
  next
    case False
    from geth_codec.check_range_bound [OF codec ctx ok(2) this max] ok(1) show ?thesis by blast
  qed
qed

definition logs_80_latest :: RPCReq where
  "logs_80_latest = get_logs [JObj [(''fromBlock'', JStr ''finalized''), (''toBlock'', JStr ''latest'')]]"

theorem rewrite_range_bound_witness:
  "blockNumber geth_ref [(''fromBlock'', JStr ''0x50''), (''toBlock'', JStr ''0x64'')] ''fromBlock'' 100 = Inr 80 \<and>
   (\<exists>frm to. blockNumber geth_ref [(''fromBlock'', JStr ''0x50''), (''toBlock'', JStr ''0x64'')] ''fromBlock'' 100 = Inr frm \<and>
     blockNumber geth_ref [(''fromBlock'', JStr ''0x50''), (''toBlock'', JStr ''0x64'')] ''toBlock'' 100 = Inr to \<and>
     frm \<le> to \<and> unat to - unat frm \<le> 30 \<and> unat to \<le> 101)"
proof
  show "blockNumber geth_ref [(''fromBlock'', JStr ''0x50''), (''toBlock'', JStr ''0x64'')] ''fromBlock'' 100 = Inr 80"
    by (simp add: rewrite_eval)
  have r: "RewriteTags geth_ref ctx_100 logs_80_latest (NewRPCRes ''1'' NilVal) =
      Return (RewriteOverrideRequest, None,
        get_logs [JObj [(''fromBlock'', JStr ''0x50''), (''toBlock'', JStr ''0x64'')]], NewRPCRes ''1'' NilVal)"
    by (simp add: rewrite_eval logs_80_latest_def get_logs_def ctx_100_def hex_encode_def hex_digits.simps)
  from rewrite_range_bound [OF ref_codec.geth_codec_axioms ctx_100_ordered _ r]
  show "\<exists>frm to. blockNumber geth_ref [(''fromBlock'', JStr ''0x50''), (''toBlock'', JStr ''0x64'')] ''fromBlock'' 100 = Inr frm \<and>
     blockNumber geth_ref [(''fromBlock'', JStr ''0x50''), (''toBlock'', JStr ''0x64'')] ''toBlock'' 100 = Inr to \<and>
     frm \<le> to \<and> unat to - unat frm \<le> 30 \<and> unat to \<le> 101"
    by (simp add: logs_80_latest_def get_logs_def range_method_def unmarshal_maps_def ctx_100_def)
qed

text \<open>
  The rewriter panics exactly on a log or filter request whose parameters are an empty array
  or null: the filter object is indexed without a check of the number of parameters. On every
  other request it returns.
\<close>

theorem rewrite_tags_panics_iff:
  "(\<exists>s. RewriteTags G rctx req res = Panic s) \<longleftrightarrow>
     range_method (Method req) \<and> unmarshal_slice (Params req) = Some []"
proof (cases "range_method (Method req)")
  case True
  then have m: "Method req \<noteq> ''eth_blockNumber''" using param_rule_blockNumber by auto
  have "(\<exists>s. rewriteRange G rctx req 0 = Panic s) \<longleftrightarrow> unmarshal_maps (Params req) = Some ([], [])"
    by (auto simp: rewriteRange_def unmarshal_maps_def Let_def split: option.splits sum.splits prod.splits)
  also have "\<dots> \<longleftrightarrow> unmarshal_slice (Params req) = Some []"
    by (auto simp: unmarshal_maps_def split: option.splits)
  finally show ?thesis using True m
    by (cases "rewriteRange G rctx req 0") (auto simp: RewriteTags_def RewriteResponse_def RewriteRequest_def)
next
  case False
  then show ?thesis
    by (auto simp: RewriteTags_def RewriteResponse_def RewriteRequest_def split: option.splits if_splits prod.splits)
qed

end
