(* ===== verification/Redis_Client.thy ===== *)
theory Redis_Client
  imports Rpc
begin

section \<open>What the program uses of Redis\<close>

text \<open>
  The shared cache, the shared rate limiter and the consensus tracker talk to a Redis server
  through go-redis, and the tracker takes a lock with redsync. Neither is part of this
  repository. Their operations are the fields of the record \<open>redis\<close>, over the state
  \<open>'r\<close> of the server and the network: every call is given the current time and may fail
  with an error. The locales state the documented behaviour the program relies on, and the last
  section is a server kept in a map that has it.
\<close>

definition redis_Nil :: err where
  "redis_Nil = Sentinel ''redis: nil''"

text \<open>
  \<open>GET\<close>, \<open>SET\<close> with an expiry, the pipeline of \<open>INCR\<close> and \<open>PEXPIRE\<close>, and the
  calls \<open>Lock\<close>, \<open>Extend\<close> and \<open>Unlock\<close> of a redsync mutex (its name, its value
  where it has one, its expiry).
\<close>

record 'r redis =
  redis_Get :: "Time \<Rightarrow> 'r \<Rightarrow> string \<Rightarrow> 'r \<times> (err + string)"
  redis_Set :: "Time \<Rightarrow> 'r \<Rightarrow> string \<Rightarrow> string \<Rightarrow> Duration \<Rightarrow> 'r \<times> err option"
  redis_Incr :: "Time \<Rightarrow> 'r \<Rightarrow> string \<Rightarrow> Duration \<Rightarrow> 'r \<times> (err + int)"
  mutex_Lock :: "Time \<Rightarrow> 'r \<Rightarrow> string \<Rightarrow> Duration \<Rightarrow> 'r \<times> (err + string)"
  mutex_Extend :: "Time \<Rightarrow> 'r \<Rightarrow> string \<Rightarrow> string \<Rightarrow> Duration \<Rightarrow> 'r \<times> bool \<times> err option"
  mutex_Unlock :: "Time \<Rightarrow> 'r \<Rightarrow> string \<Rightarrow> string \<Rightarrow> 'r \<times> bool \<times> err option"

text \<open>A reply that is an error other than the missing key.\<close>

definition redis_failed :: "err + 'a \<Rightarrow> bool" where
  "redis_failed x = (case x of Inl e \<Rightarrow> e \<noteq> redis_Nil | Inr _ \<Rightarrow> False)"

text \<open>
  Strings: \<open>live r t k\<close> is the value key \<open>k\<close> has at time \<open>t\<close> if nothing is written in
  between. A call that fails may or may not have had its effect on its own key; it has none on
  other keys. A redsync mutex is held by whoever wrote its value, and every \<open>Lock\<close> writes a
  new value: \<open>issued r\<close> are the values written so far.
\<close>

locale redis_strings =
  fixes R :: "'r redis" and live :: "'r \<Rightarrow> Time \<Rightarrow> string \<Rightarrow> string option" and issued :: "'r \<Rightarrow> string set"
  assumes Get_frame: "redis_Get R t r k = (r', x) \<Longrightarrow> live r' = live r \<and> issued r' = issued r"
    and Get_value: "redis_Get R t r k = (r', Inr v) \<Longrightarrow> live r t k = Some v"
    and Get_nil: "redis_Get R t r k = (r', Inl redis_Nil) \<Longrightarrow> live r t k = None"
    and Set_value: "redis_Set R t r k v d = (r', None) \<Longrightarrow> t \<le> t' \<Longrightarrow> t' < t + d \<Longrightarrow> live r' t' k = Some v"
    and Set_any: "redis_Set R t r k v d = (r', e) \<Longrightarrow> live r' t' k \<in> {live r t' k, Some v, None}"
    and Set_frame: "redis_Set R t r k v d = (r', e) \<Longrightarrow>
      issued r' = issued r \<and> (k' \<noteq> k \<longrightarrow> live r' t' k' = live r t' k')"
    and Lock_value: "mutex_Lock R t r k d = (r', Inr v) \<Longrightarrow> live r t k = None \<and> v \<noteq> [] \<and>
      v \<notin> issued r \<and> v \<in> issued r' \<and> (t \<le> t' \<longrightarrow> t' < t + d \<longrightarrow> live r' t' k = Some v)"
    and Lock_frame: "mutex_Lock R t r k d = (r', x) \<Longrightarrow>
      issued r \<subseteq> issued r' \<and> (k' \<noteq> k \<longrightarrow> live r' t' k' = live r t' k')"
    and Extend_value: "mutex_Extend R t r k v d = (r', True, None) \<Longrightarrow>
      live r t k = Some v \<and> (t \<le> t' \<longrightarrow> t' < t + d \<longrightarrow> live r' t' k = Some v)"
    and Extend_frame: "mutex_Extend R t r k v d = (r', b, e) \<Longrightarrow>
      issued r' = issued r \<and> (k' \<noteq> k \<or> live r t k \<noteq> Some v \<longrightarrow> live r' t' k' = live r t' k')"
    and Unlock_value: "mutex_Unlock R t r k v = (r', True, None) \<Longrightarrow>
      live r t k = Some v \<and> live r' t' k = None"
    and Unlock_frame: "mutex_Unlock R t r k v = (r', b, e) \<Longrightarrow>
      issued r' = issued r \<and> (k' \<noteq> k \<or> live r t k \<noteq> Some v \<longrightarrow> live r' t' k' = live r t' k')"

text \<open>Counters: \<open>cnt r t k\<close> is the number key \<open>k\<close> holds at time \<open>t\<close>, 0 if it is absent or expired.\<close>

locale redis_counters =
  fixes R :: "'r redis" and cnt :: "'r \<Rightarrow> Time \<Rightarrow> string \<Rightarrow> int"
  assumes Incr_value: "redis_Incr R t r k d = (r', Inr v) \<Longrightarrow> v = cnt r t k + 1"
    and Incr_count: "redis_Incr R t r k d = (r', Inr v) \<Longrightarrow> t \<le> t' \<Longrightarrow> t' < t + d \<Longrightarrow> cnt r' t' k = v"
    and Incr_frame: "redis_Incr R t r k d = (r', x) \<Longrightarrow> k' \<noteq> k \<Longrightarrow> cnt r' t' k' = cnt r t' k'"

subsection \<open>A server in a map\<close>

text \<open>
  Every entry has its expiry; while \<open>kv_up\<close> is false the server cannot be reached and every
  call fails; lock values are numbered.
\<close>

record kv =
  kv_up :: bool
  kv_str :: "string \<Rightarrow> (string \<times> Time) option"
  kv_int :: "string \<Rightarrow> (int \<times> Time) option"
  kv_locks :: nat

definition kv_empty :: kv where
  "kv_empty = \<lparr>kv_up = True, kv_str = Map.empty, kv_int = Map.empty, kv_locks = 0\<rparr>"

definition kv_live :: "kv \<Rightarrow> Time \<Rightarrow> string \<Rightarrow> string option" where
  "kv_live r t k = (case kv_str r k of Some (v, e) \<Rightarrow> if t < e then Some v else None | None \<Rightarrow> None)"

definition kv_count :: "kv \<Rightarrow> Time \<Rightarrow> string \<Rightarrow> int" where
  "kv_count r t k = (case kv_int r k of Some (v, e) \<Rightarrow> if t < e then v else 0 | None \<Rightarrow> 0)"

definition ErrDial :: err where
  "ErrDial = Errorf ''dial tcp: connection refused''"

definition kv_put :: "string \<Rightarrow> string \<Rightarrow> Time \<Rightarrow> kv \<Rightarrow> kv" where
  "kv_put k v e r = r\<lparr>kv_str := (kv_str r)(k \<mapsto> (v, e))\<rparr>"

definition kv_redis :: "kv redis" where
  "kv_redis = \<lparr>
     redis_Get = \<lambda>t r k. (r, if \<not> kv_up r then Inl ErrDial
        else case kv_live r t k of None \<Rightarrow> Inl redis_Nil | Some v \<Rightarrow> Inr v),
     redis_Set = \<lambda>t r k v d. if kv_up r then (kv_put k v (t + d) r, None) else (r, Some ErrDial),
     redis_Incr = \<lambda>t r k d. if kv_up r
        then (r\<lparr>kv_int := (kv_int r)(k \<mapsto> (kv_count r t k + 1, t + d))\<rparr>, Inr (kv_count r t k + 1))
        else (r, Inl ErrDial),
     mutex_Lock = \<lambda>t r k d. if kv_up r \<and> kv_live r t k = None
        then (kv_put k (CHR ''v'' # fmt_nat (kv_locks r)) (t + d) r\<lparr>kv_locks := kv_locks r + 1\<rparr>,
              Inr (CHR ''v'' # fmt_nat (kv_locks r)))
        else (r, Inl (Errorf ''redsync: failed to acquire lock'')),
     mutex_Extend = \<lambda>t r k v d. if kv_up r \<and> kv_live r t k = Some v then (kv_put k v (t + d) r, True, None)
        else (r, False, Some (Errorf ''redsync: failed to extend lock'')),
     mutex_Unlock = \<lambda>t r k v. if kv_up r \<and> kv_live r t k = Some v
        then (r\<lparr>kv_str := (kv_str r)(k := None)\<rparr>, True, None)
        else (r, False, Some (Errorf ''redsync: failed to unlock''))\<rparr>"

lemma kv_live_simps [simp]:
  "kv_live (kv_put k v e r) t k' = (if k' = k then (if t < e then Some v else None) else kv_live r t k')"
  "kv_live (r\<lparr>kv_str := (kv_str r)(k := None)\<rparr>) t k' = (if k' = k then None else kv_live r t k')"
  "kv_live (r\<lparr>kv_locks := n\<rparr>) = kv_live r"
  by (simp_all add: kv_live_def kv_put_def fun_eq_iff)

lemma kv_put_locks: "(kv_put k v e r)\<lparr>kv_locks := n\<rparr> = kv_put k v e (r\<lparr>kv_locks := n\<rparr>)"
  by (simp add: kv_put_def)

lemma ErrDial_not_nil: "ErrDial \<noteq> redis_Nil"
  by (simp add: ErrDial_def redis_Nil_def)

definition kv_issued :: "kv \<Rightarrow> string set" where
  "kv_issued r = {CHR ''v'' # fmt_nat n |n. n < kv_locks r}"

lemma kv_issued_simps [simp]:
  "kv_issued (kv_put k v e r) = kv_issued r"
  "kv_issued (r\<lparr>kv_str := s\<rparr>) = kv_issued r"
  "kv_issued (r\<lparr>kv_locks := Suc (kv_locks r)\<rparr>) = insert (CHR ''v'' # fmt_nat (kv_locks r)) (kv_issued r)"
  by (auto simp: kv_issued_def kv_put_def less_Suc_eq)

lemma kv_issued_fresh: "CHR ''v'' # fmt_nat (kv_locks r) \<notin> kv_issued r"
  by (auto simp: kv_issued_def) (metis fmt_nat_props less_irrefl)

interpretation kv_strings: redis_strings kv_redis kv_live kv_issued
  by unfold_locales
    (auto simp: kv_redis_def kv_put_locks ErrDial_not_nil kv_issued_fresh split: if_splits option.splits)

interpretation kv_counters: redis_counters kv_redis kv_count
  by unfold_locales (auto simp: kv_redis_def kv_count_def split: if_splits)

end
