(* ===== verification/Rate_Limiter.thy ===== *)
theory Rate_Limiter
  imports Redis_Client
begin

section \<open>Frontend rate limiting\<close>

text \<open>
  Models \<^verbatim>\<open>src/frontend_rate_limiter.go\<close>: the limiter in memory, the one in Redis, the
  limiter that never limits, and the combination of a primary and a secondary one. A call of
  \<open>Take\<close> is given the current time and the state of the limiter and returns the new state,
  the decision and an error.
\<close>

subsection \<open>Definitions\<close>

type_synonym 's limiter_take = "Time \<Rightarrow> 's \<Rightarrow> string \<Rightarrow> 's \<times> bool \<times> err option"

record limitedKeys =
  truncTS :: int
  lk_keys :: "string \<rightharpoonup> int"

definition newLimitedKeys :: "int \<Rightarrow> limitedKeys" where
  "newLimitedKeys t = \<lparr>truncTS = t, lk_keys = Map.empty\<rparr>"

definition limitedKeys_Take :: "limitedKeys \<Rightarrow> string \<Rightarrow> int \<Rightarrow> limitedKeys \<times> bool" where
  "limitedKeys_Take l key mx =
     (let val = (case lk_keys l key of None \<Rightarrow> 0 | Some v \<Rightarrow> v)
      in (l\<lparr>lk_keys := (lk_keys l)(key \<mapsto> val + 1)\<rparr>, val < mx))"

definition truncateNow :: "Duration \<Rightarrow> Time \<Rightarrow> int" where
  "truncateNow dur now = time_Unix (time_Truncate now dur)"

record MemoryFrontendRateLimiter =
  currGeneration :: "limitedKeys option"
  mem_dur :: Duration
  mem_max :: int

definition NewMemoryFrontendRateLimit :: "Duration \<Rightarrow> int \<Rightarrow> MemoryFrontendRateLimiter" where
  "NewMemoryFrontendRateLimit dur mx = \<lparr>currGeneration = None, mem_dur = dur, mem_max = mx\<rparr>"

definition Memory_Take :: "MemoryFrontendRateLimiter limiter_take" where
  "Memory_Take now m key =
     (let ts = truncateNow (mem_dur m) now;
          limiter = (case currGeneration m of
                       None \<Rightarrow> newLimitedKeys ts
                     | Some g \<Rightarrow> if truncTS g \<noteq> ts then newLimitedKeys ts else g);
          (limiter', ok) = limitedKeys_Take limiter key (mem_max m)
      in (m\<lparr>currGeneration := Some limiter'\<rparr>, ok, None))"

record RedisFrontendRateLimiter =
  red_dur :: Duration
  red_max :: int
  red_prefix :: string

definition NewRedisFrontendRateLimiter :: "Duration \<Rightarrow> int \<Rightarrow> string \<Rightarrow> RedisFrontendRateLimiter" where
  "NewRedisFrontendRateLimiter dur mx prefix = \<lparr>red_dur = dur, red_max = mx, red_prefix = prefix\<rparr>"

definition rate_limit_key :: "string \<Rightarrow> string \<Rightarrow> int \<Rightarrow> string" where
  "rate_limit_key prefix key ts = ''rate_limit:'' @ prefix @ '':'' @ key @ '':'' @ fmt_d ts"

definition Redis_Take :: "'r redis \<Rightarrow> RedisFrontendRateLimiter \<Rightarrow> 'r limiter_take" where
  "Redis_Take R l now r key =
     (let fullKey = rate_limit_key (red_prefix l) key (truncateNow (red_dur l) now)
      in case redis_Incr R now r fullKey (red_dur l - time_Millisecond) of
           (r', Inl e) \<Rightarrow> (r', False, Some e)
         | (r', Inr v) \<Rightarrow> (r', v - 1 < red_max l, None))"

definition Noop_Take :: "'s limiter_take" where
  "Noop_Take now s key = (s, True, None)"

definition Fallback_Take :: "'p limiter_take \<Rightarrow> 's limiter_take \<Rightarrow> ('p \<times> 's) limiter_take" where
  "Fallback_Take primary secondary now ps key =
     (case primary now (fst ps) key of
        (p', ok, Some e) \<Rightarrow> (case secondary now (snd ps) key of (s', r) \<Rightarrow> ((p', s'), r))
      | (p', ok, None) \<Rightarrow> ((p', snd ps), ok, None))"

subsection \<open>Specification\<close>

text \<open>
  A sequence of calls, and the decisions a limiter owes it: a call is let through when fewer than
  \<open>mx\<close> of the earlier calls had the same key in the same window.
\<close>

fun run_takes :: "'s limiter_take \<Rightarrow> (Time \<times> string) list \<Rightarrow> 's \<Rightarrow> (bool \<times> err option) list" where
  "run_takes tk [] s = []"
| "run_takes tk ((t, k) # xs) s = (case tk t s k of (s', r) \<Rightarrow> r # run_takes tk xs s')"

definition calls :: "(Time \<Rightarrow> int) \<Rightarrow> string \<Rightarrow> int \<Rightarrow> (Time \<times> string) list \<Rightarrow> nat" where
  "calls w k v xs = length (filter (\<lambda>(t, k'). k' = k \<and> w t = v) xs)"

fun decisions :: "(Time \<Rightarrow> int) \<Rightarrow> int \<Rightarrow> (Time \<times> string) list \<Rightarrow> (Time \<times> string) list \<Rightarrow> bool list" where
  "decisions w mx h [] = []"
| "decisions w mx h ((t, k) # xs) = (int (calls w k (w t) h) < mx) # decisions w mx (h @ [(t, k)]) xs"

definition allowed :: "(Time \<Rightarrow> int) \<Rightarrow> string \<Rightarrow> int \<Rightarrow> (Time \<times> string) list \<Rightarrow> bool list \<Rightarrow> nat" where
  "allowed w k v xs bs = length (filter (\<lambda>((t, k'), b). b \<and> k' = k \<and> w t = v) (zip xs bs))"

lemma decisions_length: "length (decisions w mx h xs) = length xs"
  by (induction w mx h xs rule: decisions.induct) simp_all

lemma calls_append: "calls w k v (xs @ ys) = calls w k v xs + calls w k v ys"
  by (simp add: calls_def)

lemma calls_Cons: "calls w k v ((t, k') # xs) = (if k' = k \<and> w t = v then 1 else 0) + calls w k v xs"
  by (simp add: calls_def)

lemma calls_Nil [simp]: "calls w k v [] = 0"
  by (simp add: calls_def)

lemma allowed_decisions_from:
  "allowed w k v xs (decisions w mx h xs) + min (nat mx) (calls w k v h) =
     min (nat mx) (calls w k v (h @ xs))"
proof (induction w mx h xs rule: decisions.induct)
  case (1 w mx h)
  then show ?case by (simp add: allowed_def)
next
  case (2 w mx h t k' xs)
  let ?b = "int (calls w k' (w t) h) < mx"
  have "allowed w k v ((t, k') # xs) (?b # decisions w mx (h @ [(t, k')]) xs) =
      (if ?b \<and> k' = k \<and> w t = v then 1 else 0) + allowed w k v xs (decisions w mx (h @ [(t, k')]) xs)"
    by (auto simp: allowed_def)
  moreover have "min (nat mx) (calls w k v (h @ [(t, k')])) =
      min (nat mx) (calls w k v h) + (if ?b \<and> k' = k \<and> w t = v then 1 else 0)"
  proof (cases "k' = k \<and> w t = v")
    case True
    then show ?thesis
      by (simp add: calls_append calls_Cons min_def) linarith
  qed (auto simp: calls_append calls_Cons)
  ultimately show ?case using 2 by simp
qed

lemma allowed_decisions: "allowed w k v xs (decisions w mx [] xs) = min (nat mx) (calls w k v xs)"
  using allowed_decisions_from [of w k v xs mx "[]"] by simp

subsection \<open>The contract of a limiter\<close>

text \<open>
  \<open>used t s k\<close> is how many calls of the window of \<open>t\<close> the limiter has counted for a key.
  The laws hold at the times \<open>ok_time\<close> and in the states \<open>inv\<close>.
\<close>

locale frontend_rate_limiter =
  fixes tk :: "'s limiter_take" and used :: "Time \<Rightarrow> 's \<Rightarrow> string \<Rightarrow> int" and inv :: "Time \<Rightarrow> 's \<Rightarrow> bool"
    and window :: "Time \<Rightarrow> int" and ok_time :: "Time \<Rightarrow> bool" and mx :: int
  assumes window_mono: "t \<le> t' \<Longrightarrow> window t \<le> window t'"
    and later: "inv t s \<Longrightarrow> t \<le> t' \<Longrightarrow> ok_time t \<Longrightarrow> ok_time t' \<Longrightarrow>
      inv t' s \<and> used t' s k = (if window t' = window t then used t s k else 0)"
    and take_counts: "inv t s \<Longrightarrow> ok_time t \<Longrightarrow> tk t s k = (s', b, None) \<Longrightarrow>
      inv t s' \<and> b = (used t s k < mx) \<and> used t s' k' = used t s k' + (if k' = k then 1 else 0)"
begin

lemma calls_next_window:
  assumes "\<forall>(t', k)\<in>set h. t' \<le> t" and "t \<le> u" and "window u \<noteq> window t"
  shows "calls window k (window u) h = 0"
proof -
  have "window u \<noteq> window t'" if "(t', k') \<in> set h" for t' k'
    using assms that window_mono [of t' t] window_mono [of t u] by force
  then show ?thesis by (fastforce simp: calls_def filter_empty_conv)
qed

lemma run_takes_decisions_from:
  assumes "inv t0 s" and "ok_time t0" and "\<forall>k. used t0 s k = int (calls window k (window t0) h)"
    and "\<forall>(t, k)\<in>set h. t \<le> t0" and "sorted (t0 # map fst xs)" and "\<forall>(t, k)\<in>set xs. ok_time t"
    and "\<forall>(b, e)\<in>set (run_takes tk xs s). e = None"
  shows "map fst (run_takes tk xs s) = decisions window mx h xs"
  using assms
proof (induction xs arbitrary: t0 s h)
  case Nil
  then show ?case by simp
next
  case (Cons x xs)
  obtain t k where x: "x = (t, k)" by (cases x)
  obtain s' b e where r: "tk t s k = (s', b, e)" by (metis prod_cases3)
  have e: "e = None" and t: "t0 \<le> t" "ok_time t" using Cons.prems(5-7) x r by auto
  have l: "inv t s" "\<And>k. used t s k = (if window t = window t0 then used t0 s k else 0)"
    using later [OF Cons.prems(1) t(1) Cons.prems(2) t(2)] by auto
  have u: "used t s k' = int (calls window k' (window t) h)" for k'
    using l(2) [of k'] Cons.prems(3) calls_next_window [OF Cons.prems(4) t(1), of k'] by auto
  have tkn: "inv t s'" "b = (used t s k < mx)" "\<And>k'. used t s' k' = used t s k' + (if k' = k then 1 else 0)"
    using take_counts [OF l(1) t(2)] r e by auto
  have "map fst (run_takes tk xs s') = decisions window mx (h @ [(t, k)]) xs"
  proof (rule Cons.IH)
    show "\<forall>k'. used t s' k' = int (calls window k' (window t) (h @ [(t, k)]))"
      by (auto simp: tkn(3) u calls_append calls_Cons)
  qed (use Cons.prems x r t tkn in auto)
  then show ?case using x r tkn(2) u by simp
qed

theorem run_takes_decisions:
  assumes "inv u s" and "ok_time u" and "\<forall>k. used u s k = 0"
    and "sorted (u # map fst xs)" and "\<forall>(t, k)\<in>set xs. ok_time t"
    and "\<forall>(b, e)\<in>set (run_takes tk xs s). e = None"
  shows "map fst (run_takes tk xs s) = decisions window mx [] xs"
  by (rule run_takes_decisions_from [OF assms(1,2) _ _ assms(4-6)]) (use assms(3) in \<open>simp_all add: calls_def\<close>)

end

subsection \<open>The windows\<close>

lemma time_Truncate_div: "0 < d \<Longrightarrow> time_Truncate t d = d * (t div d)"
  by (simp add: time_Truncate_def minus_mod_eq_mult_div)

lemma time_Truncate_mono: "t \<le> t' \<Longrightarrow> time_Truncate t d \<le> time_Truncate t' d"
proof (cases "0 < d")
  case True
  assume "t \<le> t'"
  then have "d * (t div d) \<le> d * (t' div d)" using True by (intro mult_left_mono zdiv_mono1) simp_all
  then show ?thesis using True by (simp add: time_Truncate_div)
qed (simp add: time_Truncate_def)

lemma truncateNow_mono: "t \<le> t' \<Longrightarrow> truncateNow d t \<le> truncateNow d t'"
  using time_Truncate_mono [of t t' d]
  by (simp add: truncateNow_def time_Unix_def time_Second_def zdiv_mono1)

lemma truncateNow_window:
  assumes "time_Second \<le> d"
  shows "truncateNow d t = truncateNow d t' \<longleftrightarrow> t div d = t' div d"
proof -
  have *: "a = b" if "(d * a) div time_Second = (d * b) div time_Second" for a b
  proof (rule ccontr)
    have sec: "0 < time_Second" by (simp add: time_Second_def)
    have step: "(d * x) div time_Second < (d * y) div time_Second" if "x < y" for x y
    proof -
      have "d * x + time_Second \<le> d * x + d * 1" using assms by simp
      also have "\<dots> = d * (x + 1)" by (simp add: distrib_left)
      also have "\<dots> \<le> d * y" using that assms sec by (intro mult_left_mono) simp_all
      finally have "(d * x + time_Second) div time_Second \<le> (d * y) div time_Second"
        using sec by (intro zdiv_mono1)
      then show ?thesis using sec by simp
    qed
    assume "a \<noteq> b"
    then show False using that step [of a b] step [of b a] by (cases "a < b") auto
  qed
  have "0 < d" using assms by (simp add: time_Second_def)
  then show ?thesis using * [of "t div d" "t' div d"]
    by (auto simp: truncateNow_def time_Unix_def time_Truncate_div)
qed

subsection \<open>The limiter in memory\<close>

text \<open>The counters of the window of \<open>t\<close>, and how a call changes them.\<close>

definition mem_keys :: "Time \<Rightarrow> MemoryFrontendRateLimiter \<Rightarrow> string \<rightharpoonup> int" where
  "mem_keys t m =
     (case currGeneration m of
        None \<Rightarrow> Map.empty
      | Some g \<Rightarrow> if truncTS g = truncateNow (mem_dur m) t then lk_keys g else Map.empty)"

definition mem_used :: "Time \<Rightarrow> MemoryFrontendRateLimiter \<Rightarrow> string \<Rightarrow> int" where
  "mem_used t m k = (case mem_keys t m k of None \<Rightarrow> 0 | Some v \<Rightarrow> v)"

lemma Memory_Take_eq:
  "Memory_Take t m k =
     (m\<lparr>currGeneration := Some \<lparr>truncTS = truncateNow (mem_dur m) t,
        lk_keys = (mem_keys t m)(k \<mapsto> mem_used t m k + 1)\<rparr>\<rparr>, mem_used t m k < mem_max m, None)"
proof -
  let ?g = "\<lparr>truncTS = truncateNow (mem_dur m) t, lk_keys = mem_keys t m\<rparr>"
  have "(case currGeneration m of None \<Rightarrow> newLimitedKeys (truncateNow (mem_dur m) t)
      | Some g \<Rightarrow> if truncTS g \<noteq> truncateNow (mem_dur m) t then newLimitedKeys (truncateNow (mem_dur m) t) else g) = ?g"
    by (simp add: mem_keys_def newLimitedKeys_def split: option.split)
  then show ?thesis by (simp add: Memory_Take_def limitedKeys_Take_def mem_used_def Let_def)
qed

text \<open>The generation of the limiter is not newer than the current window.\<close>

definition mem_inv :: "Duration \<Rightarrow> int \<Rightarrow> Time \<Rightarrow> MemoryFrontendRateLimiter \<Rightarrow> bool" where
  "mem_inv d mx t m \<longleftrightarrow> mem_dur m = d \<and> mem_max m = mx \<and>
     (case currGeneration m of None \<Rightarrow> True | Some g \<Rightarrow> truncTS g \<le> truncateNow d t)"

interpretation mem: frontend_rate_limiter Memory_Take mem_used "mem_inv d mx" "truncateNow d" "\<lambda>_. True" mx
  for d mx
proof unfold_locales
  show "truncateNow d t \<le> truncateNow d t'" if "t \<le> t'" for t t' using truncateNow_mono [OF that] .
  show "mem_inv d mx t' m \<and>
      mem_used t' m k = (if truncateNow d t' = truncateNow d t then mem_used t m k else 0)"
    if "mem_inv d mx t m" "t \<le> t'" for t t' m k
    using that truncateNow_mono [OF that(2), of d]
    by (cases "currGeneration m") (auto simp: mem_inv_def mem_used_def mem_keys_def)
  show "mem_inv d mx t m' \<and> b = (mem_used t m k < mx) \<and>
      mem_used t m' k' = mem_used t m k' + (if k' = k then 1 else 0)"
    if "mem_inv d mx t m" "Memory_Take t m k = (m', b, None)" for t m k m' b k'
    using that
    by (auto simp: mem_inv_def Memory_Take_eq) (auto simp: mem_used_def mem_keys_def)
qed

lemma Memory_Take_no_error: "\<forall>(b, e)\<in>set (run_takes Memory_Take xs m). e = None"
proof (induction xs arbitrary: m)
  case (Cons x xs)
  then show ?case by (cases x) (simp add: Memory_Take_eq)
qed simp

subsection \<open>The limiter in Redis\<close>

lemma suffix_unique:
  assumes "xs @ c # ds = ys @ c # es" and "c \<notin> set ds" "c \<notin> set es"
  shows "xs = ys \<and> ds = es"
proof -
  have "rev ds @ c # rev xs = rev es @ c # rev ys" using arg_cong [OF assms(1), of rev] by simp
  moreover have "takeWhile (\<lambda>x. x \<noteq> c) (rev zs @ c # rev ws) = rev zs" if "c \<notin> set zs" for zs ws
    using that by (subst takeWhile_append2) auto
  ultimately have "rev ds = rev es" using assms(2,3) by metis
  then show ?thesis using assms(1) by simp
qed

lemma rate_limit_key_inj:
  "rate_limit_key prefix k ts = rate_limit_key prefix k' ts' \<longleftrightarrow> k = k' \<and> ts = ts'"
  using suffix_unique [of k "CHR '':''" "fmt_d ts" k' "fmt_d ts'"] fmt_d_no_colon
  by (auto simp: rate_limit_key_def fmt_d_inj)

text \<open>
  The key of a window expires one millisecond before the window ends if it is not used again, so
  the last millisecond of a window is left out.
\<close>

definition red_time :: "RedisFrontendRateLimiter \<Rightarrow> Time \<Rightarrow> bool" where
  "red_time l t \<longleftrightarrow> t < time_Truncate t (red_dur l) + red_dur l - time_Millisecond"

definition red_used :: "('r \<Rightarrow> Time \<Rightarrow> string \<Rightarrow> int) \<Rightarrow> RedisFrontendRateLimiter \<Rightarrow> Time \<Rightarrow> 'r \<Rightarrow> string \<Rightarrow> int" where
  "red_used cnt l t r k = cnt r t (rate_limit_key (red_prefix l) k (truncateNow (red_dur l) t))"

definition red_inv :: "('r \<Rightarrow> Time \<Rightarrow> string \<Rightarrow> int) \<Rightarrow> RedisFrontendRateLimiter \<Rightarrow> Time \<Rightarrow> 'r \<Rightarrow> bool" where
  "red_inv cnt l t r \<longleftrightarrow> (\<forall>k t'. t \<le> t' \<longrightarrow> red_time l t' \<longrightarrow>
     red_used cnt l t' r k =
       (if truncateNow (red_dur l) t' = truncateNow (red_dur l) t then red_used cnt l t r k else 0))"

lemma red_inv_later:
  assumes "red_inv cnt l t r" "t \<le> u" "red_time l u"
  shows "red_inv cnt l u r"
  unfolding red_inv_def
proof (intro allI impI)
  fix k t' assume t': "u \<le> t'" "red_time l t'"
  let ?w = "truncateNow (red_dur l)"
  have m: "?w t \<le> ?w u" "?w u \<le> ?w t'" using truncateNow_mono assms(2) t'(1) by auto
  have *: "t \<le> x \<Longrightarrow> red_time l x \<Longrightarrow> red_used cnt l x r k = (if ?w x = ?w t then red_used cnt l t r k else 0)" for x
    using assms(1) by (simp add: red_inv_def)
  show "red_used cnt l t' r k = (if ?w t' = ?w u then red_used cnt l u r k else 0)"
    using * [of u] * [of t'] m assms t' by auto
qed

locale redis_rate_limiter = redis_counters R cnt
  for R :: "'r redis" and cnt :: "'r \<Rightarrow> Time \<Rightarrow> string \<Rightarrow> int" +
  fixes l :: RedisFrontendRateLimiter
  assumes dur_second: "time_Second \<le> red_dur l"
begin

lemma same_window_live:
  assumes "truncateNow (red_dur l) t' = truncateNow (red_dur l) t" "red_time l t'"
  shows "t' < t + (red_dur l - time_Millisecond)"
proof -
  have d: "0 < red_dur l" using dur_second by (simp add: time_Second_def)
  have "t' div red_dur l = t div red_dur l" using assms(1) truncateNow_window [OF dur_second] by simp
  then have "time_Truncate t' (red_dur l) = time_Truncate t (red_dur l)" using d by (simp add: time_Truncate_div)
  moreover have "time_Truncate t (red_dur l) \<le> t" using d by (simp add: time_Truncate_def)
  ultimately show ?thesis using assms(2) by (simp add: red_time_def)
qed

lemma Redis_Take_counts:
  assumes inv: "red_inv cnt l t r" and t: "red_time l t" and tk: "Redis_Take R l t r k = (r', b, None)"
  shows "red_inv cnt l t r' \<and> b = (red_used cnt l t r k < red_max l) \<and>
    red_used cnt l t r' k' = red_used cnt l t r k' + (if k' = k then 1 else 0)"
proof -
  let ?w = "truncateNow (red_dur l)"
  let ?key = "\<lambda>k t. rate_limit_key (red_prefix l) k (?w t)"
  obtain v where v: "redis_Incr R t r (?key k t) (red_dur l - time_Millisecond) = (r', Inr v)" "b = (v - 1 < red_max l)"
    using tk by (auto simp: Redis_Take_def Let_def split: prod.splits sum.splits)
  have val: "v = red_used cnt l t r k + 1" using Incr_value [OF v(1)] by (simp add: red_used_def)
  have same: "red_used cnt l t' r' k = v" if "t \<le> t'" "?w t' = ?w t" "red_time l t'" for t'
    using Incr_count [OF v(1) that(1) same_window_live [OF that(2,3)]] that(2) by (simp add: red_used_def)
  have other: "red_used cnt l t' r' x = red_used cnt l t' r x" if "x \<noteq> k \<or> ?w t' \<noteq> ?w t" for t' x
    using Incr_frame [OF v(1), of "?key x t'"] that by (auto simp: red_used_def rate_limit_key_inj)
  have "red_inv cnt l t r'"
    unfolding red_inv_def
  proof (intro allI impI)
    fix x t' assume t': "t \<le> t'" "red_time l t'"
    have i: "red_used cnt l t' r x = (if ?w t' = ?w t then red_used cnt l t r x else 0)"
      using inv t' by (simp add: red_inv_def)
    show "red_used cnt l t' r' x = (if ?w t' = ?w t then red_used cnt l t r' x else 0)"
    proof (cases "x = k \<and> ?w t' = ?w t")
      case True
      then show ?thesis using same [OF t'(1) _ t'(2)] same [OF order_refl refl t] by simp
    next
      case False
      then show ?thesis using i other [of x t'] other [of x t] by auto
    qed
  qed
  then show ?thesis using v(2) val same [of t] other [of k' t] t by auto
qed

end

sublocale redis_rate_limiter \<subseteq>
  lim: frontend_rate_limiter "Redis_Take R l" "red_used cnt l" "red_inv cnt l" "truncateNow (red_dur l)" "red_time l" "red_max l"
proof unfold_locales
  show "truncateNow (red_dur l) t \<le> truncateNow (red_dur l) t'" if "t \<le> t'" for t t'
    using truncateNow_mono [OF that] .
  show "red_inv cnt l t' r \<and> red_used cnt l t' r k =
      (if truncateNow (red_dur l) t' = truncateNow (red_dur l) t then red_used cnt l t r k else 0)"
    if "red_inv cnt l t r" "t \<le> t'" "red_time l t'" for t t' r k
    using that red_inv_later [OF that] unfolding red_inv_def [of cnt l t] by blast
  show "red_inv cnt l t r' \<and> b = (red_used cnt l t r k < red_max l) \<and>
      red_used cnt l t r' k' = red_used cnt l t r k' + (if k' = k then 1 else 0)"
    if "red_inv cnt l t r" "red_time l t" "Redis_Take R l t r k = (r', b, None)" for t r k r' b k'
    using Redis_Take_counts [OF that] .
qed

context redis_rate_limiter
begin

lemmas Redis_Take_decisions = lim.run_takes_decisions

end

interpretation kv_limiter: redis_rate_limiter kv_redis kv_count
  "NewRedisFrontendRateLimiter (time_Second * (1 + int n)) mx prefix" for n mx prefix
  by unfold_locales (simp add: NewRedisFrontendRateLimiter_def time_Second_def)

subsection \<open>Properties\<close>

text \<open>
  The limiter in memory implements the limit. For calls at non-decreasing times, each call
  is let through exactly when fewer than the maximum of the earlier calls had the same key in the
  same window, no call returns an error, and so each key gets exactly the smaller of the maximum
  and the number of its calls in a window.
\<close>

theorem memory_limiter_decides:
  assumes "sorted (map fst xs)"
  shows "map fst (run_takes Memory_Take xs (NewMemoryFrontendRateLimit d mx)) = decisions (truncateNow d) mx [] xs \<and>
    (\<forall>(b, e)\<in>set (run_takes Memory_Take xs (NewMemoryFrontendRateLimit d mx)). e = None) \<and>
    (\<forall>k v. allowed (truncateNow d) k v xs (map fst (run_takes Memory_Take xs (NewMemoryFrontendRateLimit d mx))) =
      min (nat mx) (calls (truncateNow d) k v xs))"
proof -
  let ?m = "NewMemoryFrontendRateLimit d mx" and ?t0 = "if xs = [] then 0 else fst (hd xs)"
  have s: "sorted (?t0 # map fst xs)" using assms by (cases xs) auto
  have "map fst (run_takes Memory_Take xs ?m) = decisions (truncateNow d) mx [] xs"
    by (rule mem.run_takes_decisions [where u = ?t0])
      (use s Memory_Take_no_error [of xs ?m] in
        \<open>auto simp: mem_inv_def mem_used_def mem_keys_def NewMemoryFrontendRateLimit_def\<close>)
  then show ?thesis using Memory_Take_no_error allowed_decisions by auto
qed

theorem memory_limiter_decides_witness:
  "sorted (map fst [(0, ''a''), (1, ''a''), (2, ''b''), (3, ''a''), (10 * time_Second, ''a'')]) \<and>
   map fst (run_takes Memory_Take [(0, ''a''), (1, ''a''), (2, ''b''), (3, ''a''), (10 * time_Second, ''a'')]
     (NewMemoryFrontendRateLimit (10 * time_Second) 2)) = [True, True, True, False, True]"
proof -
  have s: "sorted (map fst [(0, ''a''), (1, ''a''), (2, ''b''), (3, ''a''), (10 * time_Second, ''a'')])"
    by (simp add: time_Second_def)
  have "decisions (truncateNow (10 * time_Second)) 2 []
      [(0, ''a''), (1, ''a''), (2, ''b''), (3, ''a''), (10 * time_Second, ''a'')] = [True, True, True, False, True]"
    by (simp add: calls_def truncateNow_def go_time)
  then show ?thesis using s memory_limiter_decides [OF s, of "10 * time_Second" 2] by simp
qed

text \<open>
  C34. The limiter in Redis implements the same limit, for windows of a second or more, over a
  server whose counters behave as documented: starting without counters, over calls at
  non-decreasing times outside the last millisecond of a window (when the counter may already
  have expired) that all succeed, the decisions are those of the specification, the same as those
  of the limiter in memory.
\<close>

theorem redis_limiter_decides:
  assumes counters: "redis_counters R cnt" and dur: "time_Second \<le> d"
    and fresh: "\<forall>t k. cnt r t k = 0"
    and times: "sorted (map fst xs)"
    and edge: "\<forall>(t, k)\<in>set xs. t < time_Truncate t d + d - time_Millisecond"
    and ok: "\<forall>(b, e)\<in>set (run_takes (Redis_Take R (NewRedisFrontendRateLimiter d mx prefix)) xs r). e = None"
  shows "map fst (run_takes (Redis_Take R (NewRedisFrontendRateLimiter d mx prefix)) xs r) =
      decisions (truncateNow d) mx [] xs \<and>
    map fst (run_takes (Redis_Take R (NewRedisFrontendRateLimiter d mx prefix)) xs r) =
      map fst (run_takes Memory_Take xs (NewMemoryFrontendRateLimit d mx))"
proof (cases xs)
  case (Cons x ys)
  let ?l = "NewRedisFrontendRateLimiter d mx prefix" and ?m = "NewMemoryFrontendRateLimit d mx"
  have l: "red_dur ?l = d" "red_max ?l = mx" by (simp_all add: NewRedisFrontendRateLimiter_def)
  have loc: "redis_rate_limiter R cnt ?l"
    using counters dur l by (simp add: redis_rate_limiter_def redis_rate_limiter_axioms_def)
  have "map fst (run_takes (Redis_Take R ?l) xs r) = decisions (truncateNow (red_dur ?l)) (red_max ?l) [] xs"
    by (rule redis_rate_limiter.Redis_Take_decisions [OF loc, where u = "fst x"])
      (use fresh times edge ok Cons l in \<open>auto simp: red_inv_def red_used_def red_time_def split: prod.splits\<close>)
  moreover have "map fst (run_takes Memory_Take xs ?m) = decisions (truncateNow d) mx [] xs"
    by (rule mem.run_takes_decisions [where u = "fst x"])
      (use times Cons Memory_Take_no_error [of xs ?m] in
        \<open>auto simp: mem_inv_def mem_used_def mem_keys_def NewMemoryFrontendRateLimit_def\<close>)
  ultimately show ?thesis using l by simp
qed simp

theorem redis_limiter_decides_witness:
  "map fst (run_takes (Redis_Take kv_redis (NewRedisFrontendRateLimiter time_Second 1 ''main''))
      [(0, ''a''), (5, ''a''), (7, ''b'')] kv_empty) =
    map fst (run_takes Memory_Take [(0, ''a''), (5, ''a''), (7, ''b'')] (NewMemoryFrontendRateLimit time_Second 1))"
proof -
  have ok: "\<forall>(b, e)\<in>set (run_takes (Redis_Take kv_redis (NewRedisFrontendRateLimiter time_Second 1 ''main''))
      [(0, ''a''), (5, ''a''), (7, ''b'')] kv_empty). e = None"
    by (simp add: Redis_Take_def kv_redis_def kv_empty_def Let_def)
  have fresh: "\<forall>t k. kv_count kv_empty t k = 0" by (simp add: kv_count_def kv_empty_def)
  have times: "sorted (map fst [(0 :: int, ''a''), (5, ''a''), (7, ''b'')])" by simp
  have edge: "\<forall>(t, k)\<in>set [(0, ''a''), (5, ''a''), (7, ''b'')].
      t < time_Truncate t time_Second + time_Second - time_Millisecond"
    by (simp add: go_time)
  show ?thesis
    using redis_limiter_decides [OF kv_counters.redis_counters_axioms order_refl fresh times edge ok] by blast
qed

text \<open>
  The window of a limit. With a duration of a second or more two calls fall in the same
  window exactly when they are in the same interval of that duration. With a shorter duration
  that divides a second the windows are whole seconds: the timestamp of a window is truncated to
  seconds, so the counter is not reset in every interval and the limit of an interval holds for
  the whole second.
\<close>

theorem limiter_windows:
  "(time_Second \<le> d \<longrightarrow> (truncateNow d t = truncateNow d t' \<longleftrightarrow> t div d = t' div d)) \<and>
   (0 < d \<and> d dvd time_Second \<longrightarrow>
     (truncateNow d t = truncateNow d t' \<longleftrightarrow> t div time_Second = t' div time_Second))"
proof (intro conjI impI)
  show "truncateNow d t = truncateNow d t' \<longleftrightarrow> t div d = t' div d" if "time_Second \<le> d"
    using truncateNow_window [OF that] .
  assume d: "0 < d \<and> d dvd time_Second"
  then obtain n where n: "time_Second = d * n" by (elim conjE dvdE)
  have "0 < d * n" using n by (simp add: time_Second_def)
  then have "0 < n" using d by (simp add: zero_less_mult_iff)
  have "(d * (x div d)) div time_Second = x div time_Second" for x
  proof -
    have "(d * (x div d)) div (d * n) = x div d div n" using d by (subst div_mult_mult1) simp_all
    also have "\<dots> = x div (d * n)" using d \<open>0 < n\<close> by (simp add: zdiv_zmult2_eq)
    finally show ?thesis by (simp add: n)
  qed
  then show "truncateNow d t = truncateNow d t' \<longleftrightarrow> t div time_Second = t' div time_Second"
    using d by (simp add: truncateNow_def time_Unix_def time_Truncate_div)
qed

theorem limiter_windows_witness:
  "truncateNow (100 * time_Millisecond) (50 * time_Millisecond) =
     truncateNow (100 * time_Millisecond) (950 * time_Millisecond) \<and>
   truncateNow time_Minute (time_Minute - 1) \<noteq> truncateNow time_Minute time_Minute"
  using limiter_windows [of "100 * time_Millisecond" "50 * time_Millisecond" "950 * time_Millisecond"]
    limiter_windows [of time_Minute "time_Minute - 1" time_Minute]
  by (simp add: time_Second_def time_Millisecond_def time_Minute_def dvd_def)

lemma Fallback_Take_error:
  "Fallback_Take P S t ps k = (ps', b, Some e) \<Longrightarrow>
     (\<exists>p' b' e'. P t (fst ps) k = (p', b', Some e')) \<and> (\<exists>s'. S t (snd ps) k = (s', b, Some e))"
  by (auto simp: Fallback_Take_def split: prod.splits option.splits)

lemma fallback_primary:
  "\<forall>(b, e)\<in>set (run_takes P xs p). e = None \<Longrightarrow> run_takes (Fallback_Take P S) xs (p, s) = run_takes P xs p"
proof (induction xs arbitrary: p)
  case (Cons x xs)
  obtain t k where x: "x = (t, k)" by (cases x)
  obtain p' b e where r: "P t p k = (p', b, e)" by (metis prod_cases3)
  then show ?case using Cons x by (simp add: Fallback_Take_def)
qed simp

lemma fallback_secondary:
  "\<forall>(b, e)\<in>set (run_takes P xs p). e \<noteq> None \<Longrightarrow> run_takes (Fallback_Take P S) xs (p, s) = run_takes S xs s"
proof (induction xs arbitrary: p s)
  case (Cons x xs)
  obtain t k where x: "x = (t, k)" by (cases x)
  obtain p' b e where r: "P t p k = (p', b, e)" by (metis prod_cases3)
  obtain s' c where "S t s k = (s', c)" by (cases "S t s k")
  then show ?case using Cons x r by (auto simp: Fallback_Take_def)
qed simp

text \<open>
  The fallback limiter. While the primary limiter answers, every decision is the primary's and
  the secondary is not consulted; while it fails, every decision is the secondary's; and a
  request gets an error only when both limiters fail on it.
\<close>

theorem fallback_limiter:
  "((\<forall>(b, e)\<in>set (run_takes P xs p). e = None) \<longrightarrow> run_takes (Fallback_Take P S) xs (p, s) = run_takes P xs p) \<and>
   ((\<forall>(b, e)\<in>set (run_takes P xs p). e \<noteq> None) \<longrightarrow> run_takes (Fallback_Take P S) xs (p, s) = run_takes S xs s) \<and>
   (Fallback_Take P S t ps k = (ps', b, Some e) \<longrightarrow>
     (\<exists>p' b' e'. P t (fst ps) k = (p', b', Some e')) \<and> (\<exists>s'. S t (snd ps) k = (s', b, Some e)))"
  using fallback_primary [of P xs p S s] fallback_secondary [of P xs p S s]
    Fallback_Take_error [of P S t ps k ps' b e] by simp

theorem fallback_limiter_witness:
  "run_takes (Fallback_Take (Redis_Take kv_redis (NewRedisFrontendRateLimiter time_Second 1 ''main'')) Memory_Take)
      [(0, ''a''), (5, ''a'')] (kv_empty\<lparr>kv_up := False\<rparr>, NewMemoryFrontendRateLimit time_Second 1) =
    [(True, None), (False, None)]"
proof -
  have down: "\<forall>(b, e)\<in>set (run_takes (Redis_Take kv_redis (NewRedisFrontendRateLimiter time_Second 1 ''main''))
      [(0, ''a''), (5, ''a'')] (kv_empty\<lparr>kv_up := False\<rparr>)). e \<noteq> None"
    by (simp add: Redis_Take_def kv_redis_def kv_empty_def Let_def)
  have "run_takes Memory_Take [(0, ''a''), (5, ''a'')] (NewMemoryFrontendRateLimit time_Second 1) =
      [(True, None), (False, None)]"
    by (simp add: Memory_Take_eq mem_used_def mem_keys_def NewMemoryFrontendRateLimit_def truncateNow_def go_time)
  with down show ?thesis
    by (simp only: fallback_limiter [THEN conjunct2, THEN conjunct1, THEN mp, OF down])
qed

end
