(* ===== verification/Consensus_Tracker.thy ===== *)
theory Consensus_Tracker
  imports Redis_Client Geth
begin

section \<open>Consensus trackers\<close>

text \<open>
  Models \<^verbatim>\<open>src/consensus_tracker.go\<close>: the consensus of a group is kept in memory, or
  shared by several proxies through Redis, where the proxy that holds a lock (the leader) posts
  its local state and the others follow the posted one. A heartbeat of the tracker is one step at
  one time; logging and metrics are left out. The JSON text of a posted state is written by
  \<open>enc\<close> and read by \<open>dec\<close>, parameters of the heartbeat.
\<close>

subsection \<open>The state of a consensus\<close>

record ConsensusTrackerState =
  Latest :: u64
  Safe :: u64
  Finalized :: u64

type_synonym InMemoryConsensusTracker = ConsensusTrackerState

definition tracker_update :: "InMemoryConsensusTracker \<Rightarrow> ConsensusTrackerState \<Rightarrow> InMemoryConsensusTracker" where
  "tracker_update ct o' = ct\<lparr>Latest := Latest o', Safe := Safe o', Finalized := Finalized o'\<rparr>"

definition NewInMemoryConsensusTracker :: InMemoryConsensusTracker where
  "NewInMemoryConsensusTracker = \<lparr>Latest = 0, Safe = 0, Finalized = 0\<rparr>"

definition Valid :: "InMemoryConsensusTracker \<Rightarrow> bool" where
  "Valid ct \<longleftrightarrow> Latest ct > 0 \<and> Safe ct > 0 \<and> Finalized ct > 0"

definition Behind :: "InMemoryConsensusTracker \<Rightarrow> InMemoryConsensusTracker \<Rightarrow> bool" where
  "Behind ct other \<longleftrightarrow> Latest ct < Latest other \<or> Safe ct < Safe other \<or> Finalized ct < Finalized other"

text \<open>The interface \<open>ConsensusTracker\<close>, as the poller uses it.\<close>

record 't ConsensusTracker =
  GetLatestBlockNumber :: "'t \<Rightarrow> u64"
  SetLatestBlockNumber :: "u64 \<Rightarrow> 't \<Rightarrow> 't"
  GetSafeBlockNumber :: "'t \<Rightarrow> u64"
  SetSafeBlockNumber :: "u64 \<Rightarrow> 't \<Rightarrow> 't"
  GetFinalizedBlockNumber :: "'t \<Rightarrow> u64"
  SetFinalizedBlockNumber :: "u64 \<Rightarrow> 't \<Rightarrow> 't"

definition memory_tracker :: "InMemoryConsensusTracker ConsensusTracker" where
  "memory_tracker = \<lparr>
     GetLatestBlockNumber = Latest, SetLatestBlockNumber = \<lambda>n ct. ct\<lparr>Latest := n\<rparr>,
     GetSafeBlockNumber = Safe, SetSafeBlockNumber = \<lambda>n ct. ct\<lparr>Safe := n\<rparr>,
     GetFinalizedBlockNumber = Finalized, SetFinalizedBlockNumber = \<lambda>n ct. ct\<lparr>Finalized := n\<rparr>\<rparr>"

subsection \<open>The tracker in Redis\<close>

text \<open>\<open>redlock\<close> is the value of the redsync mutex the tracker has; its name is always the same key.\<close>

record RedisConsensusTracker =
  namespace :: string
  redlock :: "string option"
  lockPeriod :: Duration
  heartbeatInterval :: Duration
  leader :: bool
  leaderName :: string
  local_st :: InMemoryConsensusTracker
  remote_st :: InMemoryConsensusTracker

type_synonym RedisConsensusTrackerOpt = "RedisConsensusTracker \<Rightarrow> RedisConsensusTracker"

definition WithLockPeriod :: "Duration \<Rightarrow> RedisConsensusTrackerOpt" where
  "WithLockPeriod d ct = ct\<lparr>lockPeriod := d\<rparr>"

definition WithHeartbeatInterval :: "Duration \<Rightarrow> RedisConsensusTrackerOpt" where
  "WithHeartbeatInterval d ct = ct\<lparr>heartbeatInterval := d\<rparr>"

definition NewRedisConsensusTracker :: "string \<Rightarrow> RedisConsensusTrackerOpt list \<Rightarrow> RedisConsensusTracker" where
  "NewRedisConsensusTracker ns opts =
     fold (\<lambda>opt ct. opt ct) opts
       \<lparr>namespace = ns, redlock = None, lockPeriod = 30 * time_Second, heartbeatInterval = 2 * time_Second,
        leader = False, leaderName = [], local_st = NewInMemoryConsensusTracker,
        remote_st = NewInMemoryConsensusTracker\<rparr>"

definition redis_tracker :: "RedisConsensusTracker ConsensusTracker" where
  "redis_tracker = \<lparr>
     GetLatestBlockNumber = \<lambda>ct. Latest (remote_st ct),
     SetLatestBlockNumber = \<lambda>n ct. ct\<lparr>local_st := (local_st ct)\<lparr>Latest := n\<rparr>\<rparr>,
     GetSafeBlockNumber = \<lambda>ct. Safe (remote_st ct),
     SetSafeBlockNumber = \<lambda>n ct. ct\<lparr>local_st := (local_st ct)\<lparr>Safe := n\<rparr>\<rparr>,
     GetFinalizedBlockNumber = \<lambda>ct. Finalized (remote_st ct),
     SetFinalizedBlockNumber = \<lambda>n ct. ct\<lparr>local_st := (local_st ct)\<lparr>Finalized := n\<rparr>\<rparr>\<rparr>"

definition tracker_key :: "RedisConsensusTracker \<Rightarrow> string \<Rightarrow> string" where
  "tracker_key ct tag = ''consensus:'' @ namespace ct @ '':'' @ tag"

definition state_key :: "RedisConsensusTracker \<Rightarrow> string \<Rightarrow> string" where
  "state_key ct v = tracker_key ct (''state:'' @ v)"

definition leader_key :: "RedisConsensusTracker \<Rightarrow> string \<Rightarrow> string" where
  "leader_key ct v = tracker_key ct (''leader:'' @ v)"

definition mutex_key :: "RedisConsensusTracker \<Rightarrow> string" where
  "mutex_key ct = tracker_key ct ''mutex''"

definition postPayload ::
  "'r redis \<Rightarrow> (ConsensusTrackerState \<Rightarrow> string) \<Rightarrow> string \<Rightarrow> Time \<Rightarrow> 'r \<Rightarrow> RedisConsensusTracker \<Rightarrow> string
    \<Rightarrow> 'r \<times> RedisConsensusTracker" where
  "postPayload R enc hostname now r ct mutexVal =
     (case redis_Set R now r (state_key ct mutexVal) (enc (local_st ct)) (lockPeriod ct) of
        (r1, Some e) \<Rightarrow> (r1, ct\<lparr>leader := False\<rparr>)
      | (r1, None) \<Rightarrow>
          (case redis_Set R now r1 (leader_key ct mutexVal) hostname (lockPeriod ct) of
             (r2, Some e) \<Rightarrow> (r2, ct\<lparr>leader := False\<rparr>)
           | (r2, None) \<Rightarrow>
               (r2, ct\<lparr>leaderName := hostname, remote_st := tracker_update (remote_st ct) (local_st ct)\<rparr>)))"

text \<open>
  Recording an error in the metrics calls its method \<open>Error\<close>, which panics for a nil error. It is recorded also where a call
  reports failure without an error.
\<close>

definition after_record :: "err option \<Rightarrow> 'a outcome \<Rightarrow> 'a outcome" where
  "after_record err k = (case err of None \<Rightarrow> Panic ''nil pointer dereference'' | Some _ \<Rightarrow> k)"

text \<open>Releasing the lock after an error: the tracker gives up leadership only if that succeeds.\<close>

definition release_lock :: "'r redis \<Rightarrow> Time \<Rightarrow> 'r \<Rightarrow> RedisConsensusTracker \<Rightarrow> ('r \<times> RedisConsensusTracker) outcome" where
  "release_lock R now r ct =
     (case mutex_Unlock R now r (mutex_key ct) (the (redlock ct)) of
        (r', ok, err) \<Rightarrow>
          if err \<noteq> None \<or> \<not> ok then after_record err (Return (r', ct)) else Return (r', ct\<lparr>leader := False\<rparr>))"

definition follow ::
  "'r redis \<Rightarrow> (string \<Rightarrow> ConsensusTrackerState option) \<Rightarrow> Time \<Rightarrow> 'r \<Rightarrow> RedisConsensusTracker \<Rightarrow> string
    \<Rightarrow> ('r \<times> RedisConsensusTracker) outcome" where
  "follow R dec now r ct val =
     (case redis_Get R now r (leader_key ct val) of
        (r1, lead) \<Rightarrow>
          if redis_failed lead then Return (r1, ct)
          else
            let ct1 = ct\<lparr>leaderName := (case lead of Inr name \<Rightarrow> name | Inl _ \<Rightarrow> [])\<rparr>
            in (case redis_Get R now r1 (state_key ct val) of
                  (r2, Inl e) \<Rightarrow> Return (r2, ct1)
                | (r2, Inr payload) \<Rightarrow>
                    if payload = [] then after_record None (Return (r2, ct1))
                    else (case dec payload of
                            None \<Rightarrow> Return (r2, ct1)
                          | Some state \<Rightarrow> Return (r2, ct1\<lparr>remote_st := tracker_update (remote_st ct1) state\<rparr>))))"

definition lead ::
  "'r redis \<Rightarrow> (ConsensusTrackerState \<Rightarrow> string) \<Rightarrow> string \<Rightarrow> Time \<Rightarrow> 'r \<Rightarrow> RedisConsensusTracker
    \<Rightarrow> 'r \<times> RedisConsensusTracker" where
  "lead R enc hostname now r ct =
     (if \<not> Valid (local_st ct) then (r, ct)
      else if Valid (remote_st ct) \<and> Behind (local_st ct) (remote_st ct) then (r, ct)
      else (case mutex_Lock R now r (mutex_key ct) (lockPeriod ct) of
              (r1, Inl e) \<Rightarrow> (r1, ct\<lparr>leader := False\<rparr>)
            | (r1, Inr v) \<Rightarrow> postPayload R enc hostname now r1 (ct\<lparr>redlock := Some v, leader := True\<rparr>) v))"

definition stateHeartbeat ::
  "'r redis \<Rightarrow> (ConsensusTrackerState \<Rightarrow> string) \<Rightarrow> (string \<Rightarrow> ConsensusTrackerState option) \<Rightarrow> string \<Rightarrow> Time
    \<Rightarrow> 'r \<Rightarrow> RedisConsensusTracker \<Rightarrow> ('r \<times> RedisConsensusTracker) outcome" where
  "stateHeartbeat R enc dec hostname now r ct =
     (case redis_Get R now r (mutex_key ct) of
        (r1, x) \<Rightarrow>
          if redis_failed x then
            (if leader ct then release_lock R now r1 ct else Return (r1, ct))
          else
            let val = (case x of Inr v \<Rightarrow> v | Inl _ \<Rightarrow> [])
            in if val \<noteq> [] then
                 (if leader ct then
                    (case mutex_Extend R now r1 (mutex_key ct) (the (redlock ct)) (lockPeriod ct) of
                       (r2, ok, err) \<Rightarrow>
                         if err \<noteq> None \<or> \<not> ok then after_record err (release_lock R now r2 ct)
                         else Return (postPayload R enc hostname now r2 ct val))
                  else follow R dec now r1 ct val)
               else Return (lead R enc hostname now r1 ct))"

subsection \<open>Lemmas on one heartbeat\<close>

lemma tracker_update_eq [simp]: "tracker_update ct st = st"
  by (simp add: tracker_update_def)

lemma tracker_key_eq [simp]: "tracker_key ct a = tracker_key ct b \<longleftrightarrow> a = b"
  by (simp add: tracker_key_def)

lemma keys_distinct [simp]:
  "state_key ct v = state_key ct w \<longleftrightarrow> v = w" "state_key ct v \<noteq> leader_key ct w" "state_key ct v \<noteq> mutex_key ct"
  "leader_key ct v \<noteq> mutex_key ct" "leader_key ct v \<noteq> state_key ct w" "mutex_key ct \<noteq> state_key ct v"
  "mutex_key ct \<noteq> leader_key ct v"
  by (simp_all add: state_key_def leader_key_def mutex_key_def)

lemma keys_namespace:
  "namespace a = namespace b \<Longrightarrow> state_key a v = state_key b v" "namespace a = namespace b \<Longrightarrow> mutex_key a = mutex_key b"
  by (simp_all add: state_key_def mutex_key_def tracker_key_def)

lemma keys_update [simp]:
  "state_key (ct\<lparr>redlock := x, leader := b\<rparr>) = state_key ct" "leader_key (ct\<lparr>redlock := x, leader := b\<rparr>) = leader_key ct"
  by (simp_all add: fun_eq_iff state_key_def leader_key_def tracker_key_def)

text \<open>
  A store with the text of states: a state can be read back from its text, which is not empty, and an
  extension or release of the lock that fails reports an error.
\<close>

lemma after_record_Return [simp]: "after_record err k = Return x \<longleftrightarrow> err \<noteq> None \<and> k = Return x"
  by (simp add: after_record_def split: option.split)

lemma after_record_Some [simp]: "after_record (Some e) k = k"
  by (simp add: after_record_def)

locale tracker_store = redis_strings R live issued
  for R :: "'r redis" and live :: "'r \<Rightarrow> Time \<Rightarrow> string \<Rightarrow> string option" and issued :: "'r \<Rightarrow> string set" +
  fixes enc :: "ConsensusTrackerState \<Rightarrow> string" and dec :: "string \<Rightarrow> ConsensusTrackerState option"
  assumes dec_enc: "dec (enc st) = Some st" and enc_text: "enc st \<noteq> []"
    and Extend_error: "mutex_Extend R t r k v d = (r', False, e) \<Longrightarrow> e \<noteq> None"
    and Unlock_error: "mutex_Unlock R t r k v = (r', False, e) \<Longrightarrow> e \<noteq> None"
begin

text \<open>What a heartbeat may change: the lock value, the leadership, the posted states and the view.\<close>

definition effect :: "'r \<Rightarrow> RedisConsensusTracker \<Rightarrow> 'r \<Rightarrow> RedisConsensusTracker \<Rightarrow> bool" where
  "effect r ct r' ct' \<longleftrightarrow>
     namespace ct' = namespace ct \<and> lockPeriod ct' = lockPeriod ct \<and> local_st ct' = local_st ct \<and>
     (redlock ct' = redlock ct \<or> (\<exists>v. redlock ct' = Some v \<and> v \<notin> issued r \<and> v \<in> issued r')) \<and>
     issued r \<subseteq> issued r' \<and> (leader ct' \<longrightarrow> redlock ct' \<noteq> None) \<and>
     (\<forall>t v. live r' t (state_key ct v) = live r t (state_key ct v) \<or> live r' t (state_key ct v) = None \<or>
       redlock ct' \<noteq> None \<and> live r' t (state_key ct v) = Some (enc (local_st ct))) \<and>
     (remote_st ct' = remote_st ct \<or> redlock ct' \<noteq> None \<and> remote_st ct' = local_st ct \<or>
       (\<exists>v t x. live r t (state_key ct v) = Some x \<and> dec x = Some (remote_st ct')))"

lemma effect_store:
  assumes "effect r ct r' ct'" and "live r' t (state_key ct v) = Some x"
  shows "live r t (state_key ct v) = Some x \<or> redlock ct' \<noteq> None \<and> x = enc (local_st ct)"
proof -
  have "live r' t (state_key ct v) = live r t (state_key ct v) \<or> live r' t (state_key ct v) = None \<or>
      redlock ct' \<noteq> None \<and> live r' t (state_key ct v) = Some (enc (local_st ct))"
    using assms(1) unfolding effect_def by blast
  then show ?thesis using assms(2) by auto
qed

lemma effect_view:
  assumes "effect r ct r' ct'"
  obtains "remote_st ct' = remote_st ct" | "redlock ct' \<noteq> None" "remote_st ct' = local_st ct"
  | v t x where "live r t (state_key ct v) = Some x" "dec x = Some (remote_st ct')"
  using assms unfolding effect_def by blast

lemma postPayload_effect:
  assumes "postPayload R enc h now r ct v = (r', ct')" and "redlock ct = Some w"
  shows "effect r ct r' ct'"
proof -
  obtain r1 e1 where s1: "redis_Set R now r (state_key ct v) (enc (local_st ct)) (lockPeriod ct) = (r1, e1)"
    by (metis surj_pair)
  obtain r2 e2 where s2: "redis_Set R now r1 (leader_key ct v) h (lockPeriod ct) = (r2, e2)"
    by (metis surj_pair)
  have l1: "live r1 t (state_key ct u) = live r t (state_key ct u) \<or> live r1 t (state_key ct u) = None \<or>
      live r1 t (state_key ct u) = Some (enc (local_st ct))" for t u
    using Set_any [OF s1, of t] Set_frame [OF s1, of "state_key ct u" t] by (cases "u = v") auto
  have l2: "live r2 t (state_key ct u) = live r1 t (state_key ct u)" for t u
    using Set_frame [OF s2, of "state_key ct u" t] by simp
  have i: "issued r1 = issued r" "issued r2 = issued r" using Set_frame [OF s1] Set_frame [OF s2] by auto
  show ?thesis
  proof (cases e1)
    case None
    with assms s1 s2 have "r' = r2" and ct': "ct' = (if e2 = None
        then ct\<lparr>leaderName := h, remote_st := local_st ct\<rparr> else ct\<lparr>leader := False\<rparr>)"
      by (auto simp: postPayload_def split: option.splits)
    with assms(2) i l1 show ?thesis by (simp add: effect_def l2)
  next
    case (Some e)
    with assms s1 have "r' = r1" "ct' = ct\<lparr>leader := False\<rparr>" by (auto simp: postPayload_def)
    with assms(2) i l1 show ?thesis by (simp add: effect_def)
  qed
qed

lemma release_lock_effect:
  assumes "release_lock R now r ct = Return (r', ct')" and "leader ct \<longrightarrow> redlock ct \<noteq> None"
  shows "effect r ct r' ct'"
proof -
  obtain r1 ok e where u: "mutex_Unlock R now r (mutex_key ct) (the (redlock ct)) = (r1, ok, e)"
    by (metis prod_cases3)
  have "issued r1 = issued r" "live r1 t (state_key ct w) = live r t (state_key ct w)" for t w
    using Unlock_frame [OF u, of "state_key ct w" t] by simp_all
  then show ?thesis using assms u by (auto simp: release_lock_def effect_def split: if_splits)
qed

lemma follow_effect:
  assumes "follow R dec now r ct v = Return (r', ct')" and "leader ct \<longrightarrow> redlock ct \<noteq> None"
  shows "effect r ct r' ct'"
proof -
  obtain r1 x1 where g1: "redis_Get R now r (leader_key ct v) = (r1, x1)" by (metis surj_pair)
  obtain r2 x2 where g2: "redis_Get R now r1 (state_key ct v) = (r2, x2)" by (metis surj_pair)
  have f: "live r1 = live r" "live r2 = live r" "issued r1 = issued r" "issued r2 = issued r"
    using Get_frame [OF g1] Get_frame [OF g2] by simp_all
  have val: "live r now (state_key ct v) = Some p" if "x2 = Inr p" for p
    using Get_value [OF g2 [unfolded that]] f by simp
  show ?thesis
  proof (cases "redis_failed x1")
    case True
    with assms g1 f show ?thesis by (auto simp: follow_def effect_def)
  next
    case False
    with assms g1 g2 f val show ?thesis
      by (auto simp: follow_def effect_def Let_def split: sum.splits if_splits option.splits)
  qed
qed

lemma postPayload_redlock:
  "postPayload R enc h now r ct v = (r', ct') \<Longrightarrow> redlock ct' = redlock ct \<and> issued r' = issued r"
  by (auto simp: postPayload_def split: prod.splits option.splits dest!: Set_frame)

lemma effect_cong: "live r1 = live r \<Longrightarrow> issued r1 = issued r \<Longrightarrow> effect r1 ct r' ct' = effect r ct r' ct'"
  by (simp add: effect_def)

lemma effect_id: "leader ct \<longrightarrow> redlock ct \<noteq> None \<Longrightarrow> effect r ct r ct"
  by (simp add: effect_def)

lemma lead_effect:
  assumes "lead R enc h now r ct = (r', ct')" and inv: "leader ct \<longrightarrow> redlock ct \<noteq> None"
  shows "effect r ct r' ct'"
proof (cases "\<not> Valid (local_st ct) \<or> Valid (remote_st ct) \<and> Behind (local_st ct) (remote_st ct)")
  case True
  with assms show ?thesis by (auto simp: lead_def effect_id split: if_splits)
next
  case False
  obtain r1 x where l: "mutex_Lock R now r (mutex_key ct) (lockPeriod ct) = (r1, x)" by (metis surj_pair)
  have f: "issued r \<subseteq> issued r1" "live r1 t (state_key ct w) = live r t (state_key ct w)" for t w
    using Lock_frame [OF l, of "state_key ct w" t] by simp_all
  show ?thesis
  proof (cases x)
    case (Inl e)
    with assms False l f show ?thesis by (auto simp: lead_def effect_def)
  next
    case (Inr v)
    let ?ct = "ct\<lparr>redlock := Some v, leader := True\<rparr>"
    have v: "v \<notin> issued r" "v \<in> issued r1" using Lock_value [OF l [unfolded Inr]] by simp_all
    have p: "postPayload R enc h now r1 ?ct v = (r', ct')" using assms(1) False l Inr by (auto simp: lead_def split: if_splits)
    have "effect r1 ?ct r' ct'" "redlock ct' = Some v" "issued r' = issued r1"
      using postPayload_effect [OF p] postPayload_redlock [OF p] by simp_all
    then show ?thesis using v f by (simp add: effect_def)
  qed
qed

lemma stateHeartbeat_effect:
  assumes hb: "stateHeartbeat R enc dec h now r ct = Return (r', ct')" and inv: "leader ct \<longrightarrow> redlock ct \<noteq> None"
  shows "effect r ct r' ct'"
proof -
  obtain r1 x where g: "redis_Get R now r (mutex_key ct) = (r1, x)" by (metis surj_pair)
  have f: "live r1 = live r" "issued r1 = issued r" using Get_frame [OF g] by simp_all
  let ?val = "case x of Inr v \<Rightarrow> v | Inl _ \<Rightarrow> []"
  consider (failed) "redis_failed x" "leader ct" | (failed_follower) "redis_failed x" "\<not> leader ct"
    | (leader) "\<not> redis_failed x" "?val \<noteq> []" "leader ct" | (follower) "\<not> redis_failed x" "?val \<noteq> []" "\<not> leader ct"
    | (free) "\<not> redis_failed x" "?val = []"
    by blast
  then have "effect r1 ct r' ct'"
  proof cases
    case failed
    then have "release_lock R now r1 ct = Return (r', ct')" using hb g by (simp add: stateHeartbeat_def)
    then show ?thesis using release_lock_effect inv by blast
  next
    case failed_follower
    then show ?thesis using hb g inv by (auto simp: stateHeartbeat_def effect_id)
  next
    case leader
    obtain r2 ok e where x: "mutex_Extend R now r1 (mutex_key ct) (the (redlock ct)) (lockPeriod ct) = (r2, ok, e)"
      by (metis prod_cases3)
    have f2: "issued r2 = issued r1" "live r2 t (state_key ct w) = live r1 t (state_key ct w)" for t w
      using Extend_frame [OF x, of "state_key ct w" t] by simp_all
    have "effect r2 ct r' ct'"
    proof (cases "e \<noteq> None \<or> \<not> ok")
      case True
      with hb g leader x have "release_lock R now r2 ct = Return (r', ct')" by (simp add: stateHeartbeat_def Let_def)
      then show ?thesis using release_lock_effect inv by blast
    next
      case False
      with hb g leader x have "postPayload R enc h now r2 ct ?val = (r', ct')" by (simp add: stateHeartbeat_def Let_def)
      then show ?thesis using postPayload_effect inv leader by blast
    qed
    then show ?thesis using f2 by (simp add: effect_def)
  next
    case follower
    then have "follow R dec now r1 ct ?val = Return (r', ct')" using hb g by (simp add: stateHeartbeat_def Let_def)
    then show ?thesis using follow_effect inv by blast
  next
    case free
    then have "lead R enc h now r1 ct = (r', ct')" using hb g by (simp add: stateHeartbeat_def Let_def)
    then show ?thesis using lead_effect inv by blast
  qed
  then show ?thesis using effect_cong [OF f] by simp
qed

lemma release_lock_returns: "\<exists>r' ct'. release_lock R now r ct = Return (r', ct')"
proof -
  obtain r1 ok e where u: "mutex_Unlock R now r (mutex_key ct) (the (redlock ct)) = (r1, ok, e)"
    by (metis prod_cases3)
  then show ?thesis using Unlock_error [of now r "mutex_key ct" "the (redlock ct)" r1 e]
    by (cases ok; cases e) (auto simp: release_lock_def)
qed

lemma follow_returns:
  assumes "\<And>t. live r t (state_key ct v) \<noteq> Some []"
  shows "\<exists>r' ct'. follow R dec now r ct v = Return (r', ct')"
proof -
  obtain r1 x1 where g1: "redis_Get R now r (leader_key ct v) = (r1, x1)" by (metis surj_pair)
  obtain r2 x2 where g2: "redis_Get R now r1 (state_key ct v) = (r2, x2)" by (metis surj_pair)
  have "x2 \<noteq> Inr []" using Get_value [of now r1 "state_key ct v" r2 "[]"] g2 Get_frame [OF g1] assms by auto
  then show ?thesis using g1 g2 by (auto simp: follow_def Let_def split: sum.split option.split)
qed

lemma heartbeat_returns:
  assumes "\<And>t v. live r t (state_key ct v) \<noteq> Some []"
  shows "\<exists>r' ct'. stateHeartbeat R enc dec h now r ct = Return (r', ct')"
proof -
  obtain r1 x where g: "redis_Get R now r (mutex_key ct) = (r1, x)" by (metis surj_pair)
  have "live r1 = live r" using Get_frame [OF g] by simp
  then have f: "\<exists>r' ct'. follow R dec now r1 ct v = Return (r', ct')" for v using assms follow_returns by simp
  obtain r2 ok e where x: "mutex_Extend R now r1 (mutex_key ct) (the (redlock ct)) (lockPeriod ct) = (r2, ok, e)"
    by (metis prod_cases3)
  then have "\<not> ok \<Longrightarrow> e \<noteq> None" using Extend_error by (cases ok) auto
  then show ?thesis using g x f release_lock_returns [of now r1 ct] release_lock_returns [of now r2 ct]
    by (cases e) (auto simp: stateHeartbeat_def Let_def intro: prod.exhaust)
qed

end

subsection \<open>Several proxies sharing a server\<close>

text \<open>
  The proxies are numbered; a step is a heartbeat of one of them, or its poller writing new local
  numbers. \<open>posted\<close> records the local states of the heartbeats of proxies that have held the
  lock: it is only there to state what a view can be.
\<close>

record 'r tracker_sys =
  srv :: 'r
  trackers :: "nat \<Rightarrow> RedisConsensusTracker"
  clock :: Time
  posted :: "ConsensusTrackerState set"

inductive tracker_step ::
  "'r redis \<Rightarrow> (ConsensusTrackerState \<Rightarrow> string) \<Rightarrow> (string \<Rightarrow> ConsensusTrackerState option) \<Rightarrow>
   'r tracker_sys \<Rightarrow> 'r tracker_sys \<Rightarrow> bool" for R enc dec where
  beat: "clock s \<le> now \<Longrightarrow> stateHeartbeat R enc dec hostname now (srv s) (trackers s i) = Return (r', ct') \<Longrightarrow>
    tracker_step R enc dec s (s\<lparr>srv := r', trackers := (trackers s)(i := ct'), clock := now,
      posted := (if redlock ct' \<noteq> None then insert (local_st ct') (posted s) else posted s)\<rparr>)"
| poll: "tracker_step R enc dec s (s\<lparr>trackers := (trackers s)(i := (trackers s i)\<lparr>local_st := st\<rparr>)\<rparr>)"

inductive_cases tracker_stepE: "tracker_step R enc dec s s'"

definition tracker_init :: "string \<Rightarrow> 'r \<Rightarrow> 'r tracker_sys \<Rightarrow> bool" where
  "tracker_init ns r s \<longleftrightarrow> srv s = r \<and> posted s = {} \<and>
     (\<forall>i. \<exists>lp hb. trackers s i = NewRedisConsensusTracker ns [WithLockPeriod lp, WithHeartbeatInterval hb])"

context tracker_store
begin

definition sys_inv :: "string \<Rightarrow> 'r tracker_sys \<Rightarrow> bool" where
  "sys_inv ns s \<longleftrightarrow>
     (\<forall>i. namespace (trackers s i) = ns) \<and>
     (\<forall>i. leader (trackers s i) \<longrightarrow> redlock (trackers s i) \<noteq> None) \<and>
     (\<forall>i v. redlock (trackers s i) = Some v \<longrightarrow> v \<in> issued (srv s)) \<and>
     (\<forall>i j v. i \<noteq> j \<longrightarrow> redlock (trackers s i) = Some v \<longrightarrow> redlock (trackers s j) \<noteq> Some v) \<and>
     (\<forall>i t v x. live (srv s) t (state_key (trackers s i) v) = Some x \<longrightarrow> x \<in> enc ` posted s) \<and>
     (\<forall>i. remote_st (trackers s i) \<in> insert NewInMemoryConsensusTracker (posted s))"

lemma beat_inv:
  assumes inv: "sys_inv ns s" and hb: "stateHeartbeat R enc dec h now (srv s) (trackers s i) = Return (r', ct')"
  shows "sys_inv ns (s\<lparr>srv := r', trackers := (trackers s)(i := ct'), clock := now,
    posted := (if redlock ct' \<noteq> None then insert (local_st ct') (posted s) else posted s)\<rparr>)" (is "sys_inv ns ?s")
proof -
  let ?ct = "trackers s i"
  have ns: "namespace (trackers s j) = ns" for j using inv by (simp add: sys_inv_def)
  have eff: "effect (srv s) ?ct r' ct'"
    using stateHeartbeat_effect [OF hb] inv by (simp add: sys_inv_def)
  then have ns': "namespace ct' = ns" and l: "local_st ct' = local_st ?ct" by (simp_all add: effect_def ns)
  have key: "state_key (trackers ?s j) v = state_key ?ct v" for j v by (rule keys_namespace) (simp add: ns ns')
  have lead: "leader ct' \<Longrightarrow> redlock ct' \<noteq> None" using eff by (simp add: effect_def)
  have iss: "issued (srv s) \<subseteq> issued r'" using eff by (simp add: effect_def)
  have red: "redlock ct' = redlock ?ct \<or> (\<exists>v. redlock ct' = Some v \<and> v \<notin> issued (srv s) \<and> v \<in> issued r')"
    using eff by (simp add: effect_def)
  have old: "redlock (trackers s j) = Some v \<Longrightarrow> v \<in> issued (srv s)" for j v using inv by (simp add: sys_inv_def)
  have enc: "x \<in> enc ` posted ?s" if "live r' t (state_key ?ct v) = Some x" for t v x
  proof -
    have "live (srv s) t (state_key ?ct v) = Some x \<or> redlock ct' \<noteq> None \<and> x = enc (local_st ct')"
      using effect_store [OF eff that] l by simp
    then show ?thesis using inv by (auto simp: sys_inv_def)
  qed
  have view: "remote_st ct' \<in> insert NewInMemoryConsensusTracker (posted ?s)"
    using eff
  proof (cases rule: effect_view)
    case 1
    then show ?thesis using inv by (auto simp: sys_inv_def)
  next
    case 2
    then show ?thesis using l by simp
  next
    case (3 v t x)
    then have "x \<in> enc ` posted s" using inv unfolding sys_inv_def by blast
    with 3 dec_enc show ?thesis by auto
  qed
  have uniq: "redlock (trackers s j) = Some v \<Longrightarrow> redlock (trackers s k) = Some v \<Longrightarrow> j = k" for j k v
    using inv unfolding sys_inv_def by blast
  have distinct: "redlock (trackers ?s j) \<noteq> Some v" if "j \<noteq> k" "redlock (trackers ?s k) = Some v" for j k v
  proof
    assume j: "redlock (trackers ?s j) = Some v"
    consider "j = i" | "k = i" | "j \<noteq> i" "k \<noteq> i" by blast
    then show False
      using that j red uniq [of j v k] old [of j v] old [of k v] by cases (auto simp: fun_upd_apply split: if_splits)
  qed
  show ?thesis
    unfolding sys_inv_def
  proof (intro conjI allI impI)
    show "redlock (trackers ?s j) = Some v \<Longrightarrow> v \<in> issued (srv ?s)" for j v
      using red old iss by (auto split: if_splits)
    show "live (srv ?s) t (state_key (trackers ?s j) v) = Some x \<Longrightarrow> x \<in> enc ` posted ?s" for j t v x
      using enc [of t v x] key [of j v] by simp
    show "remote_st (trackers ?s j) \<in> insert NewInMemoryConsensusTracker (posted ?s)" for j
      using view inv by (auto simp: sys_inv_def)
    show "leader (trackers ?s j) \<Longrightarrow> redlock (trackers ?s j) \<noteq> None" for j
      using lead inv by (auto simp: sys_inv_def)
    show "j \<noteq> k \<Longrightarrow> redlock (trackers ?s j) = Some v \<Longrightarrow> redlock (trackers ?s k) \<noteq> Some v" for j k v
      using distinct [of k j v] by simp
  qed (simp add: ns ns')
qed

lemma poll_inv: "sys_inv ns s \<Longrightarrow> sys_inv ns (s\<lparr>trackers := (trackers s)(i := (trackers s i)\<lparr>local_st := st\<rparr>)\<rparr>)"
  by (auto simp: sys_inv_def state_key_def tracker_key_def)

lemma tracker_steps_inv: "(tracker_step R enc dec)\<^sup>*\<^sup>* s s' \<Longrightarrow> sys_inv ns s \<Longrightarrow> sys_inv ns s'"
proof (induction rule: rtranclp_induct)
  case (step y z)
  from step(2) show ?case
  proof (cases rule: tracker_step.cases)
    case (beat now h i r' ct')
    then show ?thesis using beat_inv [OF step(3) [OF step(4)] beat(3)] by simp
  next
    case (poll i st)
    then show ?thesis using poll_inv step by simp
  qed
qed

lemma init_inv:
  assumes "tracker_init ns r s" and "\<forall>t k. live r t k = None"
  shows "sys_inv ns s"
proof -
  have "namespace (trackers s i) = ns \<and> \<not> leader (trackers s i) \<and> redlock (trackers s i) = None \<and>
      remote_st (trackers s i) = NewInMemoryConsensusTracker" for i
    using assms(1) by (auto simp: tracker_init_def NewRedisConsensusTracker_def WithLockPeriod_def
        WithHeartbeatInterval_def dest!: spec [of _ i])
  then show ?thesis using assms by (simp add: sys_inv_def tracker_init_def)
qed

text \<open>A takeover of the lock does not move the view of the new leader back.\<close>

lemma takeover_not_behind:
  assumes hb: "stateHeartbeat R enc dec h now r ct = Return (r', ct')" and free: "live r now (mutex_key ct) = None"
    and valid: "Valid (remote_st ct)"
  shows "\<not> Behind (remote_st ct') (remote_st ct)"
proof -
  have refl: "\<not> Behind st st" for st by (simp add: Behind_def)
  obtain r1 x where g: "redis_Get R now r (mutex_key ct) = (r1, x)" by (metis surj_pair)
  then have x: "\<exists>e. x = Inl e" using Get_value [of now r "mutex_key ct" r1] free by (cases x) auto
  have rel: "remote_st c = remote_st ct" if "release_lock R now r1 ct = Return (r2, c)" for r2 c
    using that by (auto simp: release_lock_def split: prod.splits if_splits)
  have post: "remote_st (snd (postPayload R enc h now r2 c v)) \<in> {remote_st c, local_st c}" for r2 c v
    by (auto simp: postPayload_def split: prod.split option.split)
  have "remote_st ct' = remote_st ct \<or> remote_st ct' = local_st ct \<and> \<not> Behind (local_st ct) (remote_st ct)"
  proof (cases "redis_failed x")
    case True
    with hb g have "release_lock R now r1 ct = Return (r', ct') \<or> ct' = ct"
      by (auto simp: stateHeartbeat_def split: if_splits)
    then show ?thesis using rel by blast
  next
    case False
    with hb g x have l: "lead R enc h now r1 ct = (r', ct')" by (auto simp: stateHeartbeat_def Let_def)
    show ?thesis
    proof (cases "Valid (local_st ct) \<and> \<not> Behind (local_st ct) (remote_st ct)")
      case True
      obtain r2 y where "mutex_Lock R now r1 (mutex_key ct) (lockPeriod ct) = (r2, y)" by (metis surj_pair)
      with l True show ?thesis
        using post [of r2 "ct\<lparr>redlock := Some (projr y), leader := True\<rparr>" "projr y"]
        by (cases y) (auto simp: lead_def)
    next
      case False
      with l valid show ?thesis by (auto simp: lead_def split: if_splits)
    qed
  qed
  then show ?thesis using refl by auto
qed

text \<open>A leader whose lock went to another proxy: nothing changes.\<close>

lemma stale_leader_beat:
  assumes hb: "stateHeartbeat R enc dec h now r ct = Return (r', ct')" and lead: "leader ct" "redlock ct = Some v"
    and other: "live r now (mutex_key ct) = Some w" "w \<noteq> v" "w \<noteq> []"
  shows "ct' = ct \<and> live r' t (mutex_key ct) = live r t (mutex_key ct)"
proof -
  obtain r1 x where g: "redis_Get R now r (mutex_key ct) = (r1, x)" by (metis surj_pair)
  have f1: "live r1 = live r" using Get_frame [OF g] by simp
  have rel: "ct' = ct \<and> live r' t (mutex_key ct) = live r t (mutex_key ct)"
    if "\<And>t. live r2 t (mutex_key ct) = live r t (mutex_key ct)" "release_lock R now r2 ct = Return (r', ct')" for r2
  proof -
    obtain r3 ok e where u: "mutex_Unlock R now r2 (mutex_key ct) v = (r3, ok, e)" by (metis prod_cases3)
    have "live r2 now (mutex_key ct) \<noteq> Some v" using that(1) [of now] other by simp
    then have "e \<noteq> None \<or> \<not> ok" "live r3 t (mutex_key ct) = live r2 t (mutex_key ct)"
      using Unlock_value [of now r2 "mutex_key ct" v r3] Unlock_frame [OF u] u by (cases e; cases ok; simp)+
    then show ?thesis using u lead that by (auto simp: release_lock_def split: if_splits)
  qed
  show ?thesis
  proof (cases "redis_failed x")
    case True
    with hb g lead rel [of r1] f1 show ?thesis by (simp add: stateHeartbeat_def)
  next
    case False
    then have x: "x = Inr w"
      using Get_value [of now r "mutex_key ct" r1] Get_nil [of now r "mutex_key ct" r1] g other
      by (cases x) (auto simp: redis_failed_def)
    obtain r2 ok e where ex: "mutex_Extend R now r1 (mutex_key ct) v (lockPeriod ct) = (r2, ok, e)" by (metis prod_cases3)
    have n: "live r1 now (mutex_key ct) \<noteq> Some v" using f1 other by simp
    then have bad: "e \<noteq> None \<or> \<not> ok"
      using Extend_value [of now r1 "mutex_key ct" v "lockPeriod ct" r2] ex by (cases e; cases ok; simp)
    have f2: "live r2 t (mutex_key ct) = live r t (mutex_key ct)" for t
      using Extend_frame [OF ex] n f1 by simp
    have "release_lock R now r2 ct = Return (r', ct')"
      using hb g x lead ex bad other(3) by (simp add: stateHeartbeat_def redis_failed_def)
    then show ?thesis using rel [OF f2] by simp
  qed
qed

text \<open>In every reachable state a heartbeat returns.\<close>

lemma sys_inv_returns:
  assumes "sys_inv ns s"
  shows "\<exists>r' ct'. stateHeartbeat R enc dec h now (srv s) (trackers s i) = Return (r', ct')"
proof (rule heartbeat_returns)
  fix t v
  have "[] \<notin> enc ` posted s" by (metis enc_text imageE)
  then show "live (srv s) t (state_key (trackers s i) v) \<noteq> Some []" using assms unfolding sys_inv_def by blast
qed

end

subsection \<open>The interface of a tracker\<close>

text \<open>
  What the poller relies on: a setter changes one number of the pending state, and publishing
  makes the pending state the view the getters return. In memory both states are the same; in
  Redis publishing is the post of the leader.
\<close>

locale consensus_tracker =
  fixes T :: "'t ConsensusTracker" and pending :: "'t \<Rightarrow> ConsensusTrackerState"
    and view :: "'t \<Rightarrow> ConsensusTrackerState" and publish :: "'t \<Rightarrow> 't"
  assumes set_pending: "pending (SetLatestBlockNumber T n t) = (pending t)\<lparr>Latest := n\<rparr>"
      "pending (SetSafeBlockNumber T n t) = (pending t)\<lparr>Safe := n\<rparr>"
      "pending (SetFinalizedBlockNumber T n t) = (pending t)\<lparr>Finalized := n\<rparr>"
    and get_view: "GetLatestBlockNumber T t = Latest (view t)" "GetSafeBlockNumber T t = Safe (view t)"
      "GetFinalizedBlockNumber T t = Finalized (view t)"
    and publish_view: "view (publish t) = pending t"
begin

lemma set_all_pending:
  "pending (SetFinalizedBlockNumber T f (SetSafeBlockNumber T sf (SetLatestBlockNumber T l t))) =
     \<lparr>Latest = l, Safe = sf, Finalized = f\<rparr>"
  by (simp add: set_pending)

lemma set_all_get:
  fixes l sf f t
  defines "t' \<equiv> publish (SetFinalizedBlockNumber T f (SetSafeBlockNumber T sf (SetLatestBlockNumber T l t)))"
  shows "GetLatestBlockNumber T t' = l" "GetSafeBlockNumber T t' = sf" "GetFinalizedBlockNumber T t' = f"
  by (simp_all add: t'_def get_view publish_view set_all_pending)

end

interpretation memory: consensus_tracker memory_tracker "\<lambda>t. t" "\<lambda>t. t" "\<lambda>t. t"
  by unfold_locales (simp_all add: memory_tracker_def)

interpretation shared: consensus_tracker redis_tracker local_st remote_st
  "\<lambda>ct. snd (postPayload kv_redis enc h now (r\<lparr>kv_up := True\<rparr>) ct v)" for enc h now r v
  by unfold_locales (simp_all add: redis_tracker_def postPayload_def kv_redis_def kv_put_def)

subsection \<open>The text of a state\<close>

definition quoted :: "string \<Rightarrow> string" where
  "quoted s = quote # s @ [quote]"

definition state_text :: "ConsensusTrackerState \<Rightarrow> string" where
  "state_text st = ''{'' @ quoted ''latest'' @ '':'' @ quoted (hex_encode (Latest st)) @
     '','' @ quoted ''safe'' @ '':'' @ quoted (hex_encode (Safe st)) @
     '','' @ quoted ''finalized'' @ '':'' @ quoted (hex_encode (Finalized st)) @ ''}''"

definition state_of_text :: "string \<Rightarrow> ConsensusTrackerState option" where
  "state_of_text s =
     (case split_on quote s of
        [_, _, _, l, _, _, _, sf, _, _, _, f, _] \<Rightarrow>
          (case (hex_decode l, hex_decode sf, hex_decode f) of
             (Some l', Some s', Some f') \<Rightarrow> Some \<lparr>Latest = l', Safe = s', Finalized = f'\<rparr>
           | _ \<Rightarrow> None)
      | _ \<Rightarrow> None)"

lemma hex_encode_no_quote: "quote \<notin> set (hex_encode n)"
proof -
  have d: "quote \<notin> set (hex_digits m)" for m
  proof (induction m rule: hex_digits.induct)
    case (1 m)
    have q: "quote \<notin> set hex_alphabet" "length hex_alphabet = 16" by (simp_all add: quote_def hex_alphabet_def)
    have "k < 16 \<Longrightarrow> quote \<noteq> hex_alphabet ! k" for k using q nth_mem [of k hex_alphabet] by metis
    then show ?case using 1 by (auto simp: hex_digits.simps [of m])
  qed
  show ?thesis using d by (simp add: hex_encode_def quote_def)
qed

lemma split_quoted: "quote \<notin> set xs \<Longrightarrow> quote \<notin> set w \<Longrightarrow>
    split_on quote (xs @ quoted w @ ys) = xs # w # split_on quote ys"
  using split_on_append [of quote xs "w @ quote # ys"] split_on_append [of quote w ys] by (simp add: quoted_def)

lemma state_text_roundtrip: "state_of_text (state_text st) = Some st"
proof -
  have lits: "quote \<notin> set ''{''" "quote \<notin> set ''}''" "quote \<notin> set '',''" "quote \<notin> set '':''"
      "quote \<notin> set ''latest''" "quote \<notin> set ''safe''" "quote \<notin> set ''finalized''"
    by (simp_all add: quote_def)
  have "split_on quote (state_text st) = [''{'', ''latest'', '':'', hex_encode (Latest st), '','', ''safe'', '':'',
      hex_encode (Safe st), '','', ''finalized'', '':'', hex_encode (Finalized st), ''}'']"
    unfolding state_text_def
    by (simp only: split_quoted split_on_none lits hex_encode_no_quote not_False_eq_True)
  then show ?thesis by (simp add: state_of_text_def hex_decode_encode)
qed

interpretation kv_tracker: tracker_store kv_redis kv_live kv_issued state_text state_of_text
proof (unfold_locales, rule state_text_roundtrip)
  show "state_text st \<noteq> []" for st by (simp add: state_text_def)
qed (auto simp: kv_redis_def split: if_splits)

subsection \<open>Properties\<close>

text \<open>
  C13. Shared consensus. Take any number of proxies of one group over a Redis server that starts
  empty, and any interleaving of their heartbeats and of the updates of their pollers. A proxy
  that believes it is the leader has a lock value, no two proxies ever have the same lock value
  (so at most one of them holds the lock the server has), and the view of every proxy is the
  empty one or a local state of a proxy that has held the lock: a follower never sees numbers that no
  leader had. No heartbeat panics: it always has an error to record where it records one.
\<close>

theorem shared_consensus_safe:
  assumes store: "tracker_store R live issued enc dec" and empty: "\<forall>t k. live r t k = None"
    and init: "tracker_init ns r s0" and steps: "(tracker_step R enc dec)\<^sup>*\<^sup>* s0 s"
  shows "(\<forall>i. leader (trackers s i) \<longrightarrow> redlock (trackers s i) \<noteq> None) \<and>
    (\<forall>i j v. redlock (trackers s i) = Some v \<longrightarrow> redlock (trackers s j) = Some v \<longrightarrow> i = j) \<and>
    (\<forall>i. remote_st (trackers s i) = NewInMemoryConsensusTracker \<or> remote_st (trackers s i) \<in> posted s) \<and>
    (\<forall>i h now. \<exists>r' ct'. stateHeartbeat R enc dec h now (srv s) (trackers s i) = Return (r', ct'))"
proof -
  have inv: "tracker_store.sys_inv live issued enc ns s"
    using tracker_store.tracker_steps_inv [OF store steps] tracker_store.init_inv [OF store init empty] by blast
  then have "\<forall>i h now. \<exists>r' ct'. stateHeartbeat R enc dec h now (srv s) (trackers s i) = Return (r', ct')"
    using tracker_store.sys_inv_returns [OF store inv] by blast
  with inv show ?thesis unfolding tracker_store.sys_inv_def [OF store] by blast
qed

definition two_proxies :: "kv tracker_sys" where
  "two_proxies = \<lparr>srv = kv_empty,
     trackers = (\<lambda>i. NewRedisConsensusTracker ''main'' [WithLockPeriod (30 * time_Second), WithHeartbeatInterval time_Second]),
     clock = 0, posted = {}\<rparr>"

theorem shared_consensus_safe_witness:
  "\<exists>s. (tracker_step kv_redis state_text state_of_text)\<^sup>*\<^sup>* two_proxies s \<and> leader (trackers s 0) \<and>
     redlock (trackers s 0) \<noteq> None \<and> redlock (trackers s 1) \<noteq> redlock (trackers s 0)"
proof -
  let ?st = "\<lparr>Latest = 10, Safe = 9, Finalized = 8\<rparr>"
  let ?step = "tracker_step kv_redis state_text state_of_text"
  define s1 where "s1 = two_proxies\<lparr>trackers := (trackers two_proxies)(0 := (trackers two_proxies 0)\<lparr>local_st := ?st\<rparr>)\<rparr>"
  obtain r ct where hb: "stateHeartbeat kv_redis state_text state_of_text ''a'' 0 (srv s1) (trackers s1 0) = Return (r, ct)"
    using kv_tracker.heartbeat_returns [of "srv s1" "trackers s1 0" "''a''" 0] by (auto simp: s1_def two_proxies_def kv_live_def kv_empty_def)
  have lead: "leader ct"
    using hb by (auto simp: s1_def two_proxies_def stateHeartbeat_def lead_def postPayload_def kv_redis_def kv_empty_def
        kv_live_def kv_put_def redis_failed_def Valid_def NewRedisConsensusTracker_def WithLockPeriod_def
        WithHeartbeatInterval_def NewInMemoryConsensusTracker_def)
  obtain s where s: "?step s1 s" "trackers s 0 = ct"
    using tracker_step.beat [OF _ hb] by (fastforce simp: s1_def two_proxies_def)
  have "?step two_proxies s1" unfolding s1_def by (rule tracker_step.poll)
  with s(1) have steps: "?step\<^sup>*\<^sup>* two_proxies s" by (simp add: converse_rtranclp_into_rtranclp)
  have "tracker_init ''main'' kv_empty two_proxies" by (auto simp: tracker_init_def two_proxies_def)
  from shared_consensus_safe [OF kv_tracker.tracker_store_axioms _ this steps]
  have "leader (trackers s 0) \<longrightarrow> redlock (trackers s 0) \<noteq> None"
    "redlock (trackers s 1) = Some v \<longrightarrow> redlock (trackers s 0) \<noteq> Some v" for v
    by (auto simp: kv_live_def kv_empty_def)
  with s(2) lead steps show ?thesis by (intro exI [of _ s]) (metis not_None_eq)
qed

text \<open>
  C28. Takeover. A heartbeat that finds no lock never moves the view of the proxy back when that
  view is valid: neither the latest nor the safe nor the finalized number it serves gets smaller.
\<close>

theorem takeover_keeps_view:
  assumes store: "tracker_store R live issued enc dec"
    and hb: "stateHeartbeat R enc dec hostname now r ct = Return (r', ct')"
    and free: "live r now (mutex_key ct) = None" and valid: "Valid (remote_st ct)"
  shows "Latest (remote_st ct) \<le> Latest (remote_st ct') \<and> Safe (remote_st ct) \<le> Safe (remote_st ct') \<and>
    Finalized (remote_st ct) \<le> Finalized (remote_st ct')"
  using tracker_store.takeover_not_behind [OF store hb free valid] by (simp add: Behind_def not_less)

definition follower :: RedisConsensusTracker where
  "follower = (NewRedisConsensusTracker ''main'' [])\<lparr>local_st := \<lparr>Latest = 12, Safe = 9, Finalized = 8\<rparr>,
     remote_st := \<lparr>Latest = 10, Safe = 9, Finalized = 8\<rparr>\<rparr>"

theorem takeover_keeps_view_witness:
  "\<exists>r' ct'. stateHeartbeat kv_redis state_text state_of_text ''b'' 0 kv_empty follower = Return (r', ct') \<and>
     Latest (remote_st follower) \<le> Latest (remote_st ct') \<and> Valid (remote_st follower)"
proof -
  have v: "Valid (remote_st follower)" by (simp add: follower_def Valid_def)
  obtain r' ct' where hb: "stateHeartbeat kv_redis state_text state_of_text ''b'' 0 kv_empty follower = Return (r', ct')"
    using kv_tracker.heartbeat_returns [of kv_empty follower "''b''" 0] by (auto simp: kv_live_def kv_empty_def)
  from takeover_keeps_view [OF kv_tracker.tracker_store_axioms hb _ v] v hb show ?thesis
    by (simp add: kv_live_def kv_empty_def)
qed

text \<open>
  A leader that lost its lock is stuck. When the lock has expired and another proxy has taken
  it, the former leader fails to extend it, fails to release it, and keeps both its leadership
  flag and its view: through any number of heartbeats, as long as the other proxy holds the lock,
  it neither posts nor follows, and serves the numbers it had.
\<close>

fun heartbeats ::
  "'r redis \<Rightarrow> (ConsensusTrackerState \<Rightarrow> string) \<Rightarrow> (string \<Rightarrow> ConsensusTrackerState option) \<Rightarrow> string \<Rightarrow> Time list
    \<Rightarrow> 'r \<Rightarrow> RedisConsensusTracker \<Rightarrow> ('r \<times> RedisConsensusTracker) outcome" where
  "heartbeats R enc dec h [] r ct = Return (r, ct)"
| "heartbeats R enc dec h (t # ts) r ct =
     obind (stateHeartbeat R enc dec h t r ct) (\<lambda>(r', ct'). heartbeats R enc dec h ts r' ct')"

theorem stale_leader_stuck:
  assumes store: "tracker_store R live issued enc dec" and lead: "leader ct" "redlock ct = Some v"
    and other: "\<forall>t\<in>set ts. live r t (mutex_key ct) = Some w" "w \<noteq> v" "w \<noteq> []"
    and hbs: "heartbeats R enc dec hostname ts r ct = Return (r', ct')"
  shows "ct' = ct"
  using other(1) hbs
proof (induction ts arbitrary: r)
  case (Cons t ts)
  then obtain r1 ct1 where hb: "stateHeartbeat R enc dec hostname t r ct = Return (r1, ct1)"
    and hs: "heartbeats R enc dec hostname ts r1 ct1 = Return (r', ct')" by (auto simp: go_outcome)
  have "live r t (mutex_key ct) = Some w" using Cons.prems by simp
  note st = tracker_store.stale_leader_beat [OF store hb lead this other(2,3)]
  then have "\<forall>t\<in>set ts. live r1 t (mutex_key ct) = Some w" "ct1 = ct" using Cons.prems(1) by simp_all
  then show ?case using Cons.IH [of r1] hs by simp
qed simp

theorem stale_leader_stuck_witness:
  "\<exists>r'. heartbeats kv_redis state_text state_of_text ''a'' [1, 2, 3]
      (kv_put (mutex_key follower) ''v7'' 100 kv_empty) (follower\<lparr>leader := True, redlock := Some ''v3''\<rparr>) =
    Return (r', follower\<lparr>leader := True, redlock := Some ''v3''\<rparr>)"
proof -
  let ?ct = "follower\<lparr>leader := True, redlock := Some ''v3''\<rparr>"
  let ?r = "kv_put (mutex_key follower) ''v7'' 100 kv_empty"
  have k: "mutex_key ?ct = mutex_key follower" by (simp add: mutex_key_def tracker_key_def)
  have up: "kv_up ?r" by (simp add: kv_put_def kv_empty_def)
  have "stateHeartbeat kv_redis state_text state_of_text ''a'' t ?r ?ct = Return (?r, ?ct)" if "t < 100" for t
    using that up by (simp add: stateHeartbeat_def release_lock_def kv_redis_def k redis_failed_def)
  then have h: "heartbeats kv_redis state_text state_of_text ''a'' [1, 2, 3] ?r ?ct = Return (?r, ?ct)" by simp
  show ?thesis
    using stale_leader_stuck [OF kv_tracker.tracker_store_axioms _ _ _ _ _ h, of "''v3''" "''v7''"] h by blast
qed

end
