(* ===== verification/Backend.thy ===== *)
theory Backend
  imports Sliding_Window Geth
begin

section \<open>Backends\<close>

text \<open>
  Models the type \<open>Backend\<close> of \<^verbatim>\<open>src/backend.go\<close>: its options, the forwarding of
  requests with retries, the translation of \<open>consensus_getReceipts\<close>, the sliding windows
  that record latencies and errors, and the health checks on them.

  Everything outside the program is in the record \<open>World\<close> over a state \<open>'e\<close>: the clock,
  sleeping, random numbers, the order in which a map is iterated, the semaphore of the HTTP client, HTTP round trips, and the decoding
  of response bodies. A Go method that changes its backend, the world or its requests returns
  them.
\<close>

subsection \<open>The outside world\<close>

datatype http_body = Single RPCReq | Batch "RPCReq list"

type_synonym http_header = "(string \<times> string list) list"

record http_request =
  hq_url :: string
  hq_header :: http_header
  hq_body :: http_body

text \<open>
  A response body: its bytes, the error that ends it (none at the end of file), and whether that
  end is reported together with the last bytes or by a further read.
\<close>

record http_response =
  StatusCode :: int
  body_bytes :: string
  body_err :: "err option"
  body_eager :: bool

record 'e World =
  w_now :: "'e \<Rightarrow> Time"
  w_sleep :: "'e \<Rightarrow> Duration \<Rightarrow> 'e"
  w_Int63n :: "'e \<Rightarrow> nat \<Rightarrow> 'e \<times> nat"
  w_order :: "'e \<Rightarrow> string list \<Rightarrow> 'e \<times> string list"
  sem_Acquire :: "'e \<Rightarrow> 'e \<times> err option"
  sem_Release :: "'e \<Rightarrow> 'e"
  http_Do :: "'e \<Rightarrow> string \<Rightarrow> http_request \<Rightarrow> 'e \<times> (err + http_response)"
  url_ok :: "string \<Rightarrow> bool"
  json_RPCRes :: "string \<Rightarrow> RPCRes option"
  json_RPCRes_slice :: "string \<Rightarrow> RPCRes option list option"

text \<open>The values of a request's context.\<close>

record Ctx =
  ctx_Auth :: "string option"
  ctx_ReqID :: "string option"
  ctx_XForwardedFor :: "string option"
  ctx_OpTxProxyAuth :: "string option"
  ctx_HeadersToForward :: "http_header option"
  ctx_Path :: "string option"
  ctx_RawQuery :: "string option"

definition GetAuthCtx :: "Ctx \<Rightarrow> string" where
  "GetAuthCtx ctx = (case ctx_Auth ctx of None \<Rightarrow> ''none'' | Some a \<Rightarrow> a)"

definition GetOpTxProxyAuthHeader :: "Ctx \<Rightarrow> string" where
  "GetOpTxProxyAuthHeader ctx = (case ctx_OpTxProxyAuth ctx of None \<Rightarrow> [] | Some a \<Rightarrow> a)"

definition GetReqID :: "Ctx \<Rightarrow> string" where
  "GetReqID ctx = (case ctx_ReqID ctx of None \<Rightarrow> [] | Some a \<Rightarrow> a)"

definition GetXForwardedFor :: "Ctx \<Rightarrow> string" where
  "GetXForwardedFor ctx = (case ctx_XForwardedFor ctx of None \<Rightarrow> [] | Some a \<Rightarrow> a)"

definition GetHeadersToForward :: "Ctx \<Rightarrow> http_header" where
  "GetHeadersToForward ctx = (case ctx_HeadersToForward ctx of None \<Rightarrow> [] | Some h \<Rightarrow> h)"

subsection \<open>The backend and its options\<close>

record 'm Backend =
  Name :: string
  rpcURL :: string
  receiptsTarget :: string
  wsURL :: string
  authUsername :: string
  authPassword :: string
  be_headers :: "(string \<times> string) list"
  client_sem :: bool
  client_Timeout :: Duration
  maxRetries :: int
  maxResponseSize :: int
  maxRPS :: int
  maxWSConns :: int
  outOfServiceInterval :: Duration
  stripTrailingXFF :: bool
  forwardRequestHeaders :: "string list"
  proxydIP :: string
  skipIsSyncingCheck :: bool
  skipPeerCountCheck :: bool
  forcedCandidate :: bool
  safeBlockDriftThreshold :: u64
  finalizedBlockDriftThreshold :: u64
  maxDegradedLatencyThreshold :: Duration
  maxLatencyThreshold :: Duration
  maxErrorRateThreshold :: rat
  latencySlidingWindow :: "'m AvgSlidingWindow"
  networkRequestsSlidingWindow :: "'m AvgSlidingWindow"
  intermittentErrorsSlidingWindow :: "'m AvgSlidingWindow"
  weight :: int

type_synonym 'm BackendOpt = "'m Backend \<Rightarrow> 'm Backend"

definition WithBasicAuth :: "string \<Rightarrow> string \<Rightarrow> 'm BackendOpt" where
  "WithBasicAuth username password b = b\<lparr>authUsername := username, authPassword := password\<rparr>"

definition WithHeaders :: "(string \<times> string) list \<Rightarrow> 'm BackendOpt" where
  "WithHeaders hs b = b\<lparr>be_headers := hs\<rparr>"

definition WithTimeout :: "Duration \<Rightarrow> 'm BackendOpt" where
  "WithTimeout d b = b\<lparr>client_Timeout := d\<rparr>"

definition WithMaxRetries :: "int \<Rightarrow> 'm BackendOpt" where
  "WithMaxRetries n b = b\<lparr>maxRetries := n\<rparr>"

definition WithMaxResponseSize :: "int \<Rightarrow> 'm BackendOpt" where
  "WithMaxResponseSize n b = b\<lparr>maxResponseSize := n\<rparr>"

definition WithOutOfServiceDuration :: "Duration \<Rightarrow> 'm BackendOpt" where
  "WithOutOfServiceDuration d b = b\<lparr>outOfServiceInterval := d\<rparr>"

definition WithMaxRPS :: "int \<Rightarrow> 'm BackendOpt" where
  "WithMaxRPS n b = b\<lparr>maxRPS := n\<rparr>"

definition WithMaxWSConns :: "int \<Rightarrow> 'm BackendOpt" where
  "WithMaxWSConns n b = b\<lparr>maxWSConns := n\<rparr>"

definition WithStrippedTrailingXFF :: "'m BackendOpt" where
  "WithStrippedTrailingXFF b = b\<lparr>stripTrailingXFF := True\<rparr>"

definition WithProxydIP :: "string \<Rightarrow> 'm BackendOpt" where
  "WithProxydIP ip b = b\<lparr>proxydIP := ip\<rparr>"

definition WithSkipIsSyncingCheck :: "bool \<Rightarrow> 'm BackendOpt" where
  "WithSkipIsSyncingCheck s b = b\<lparr>skipIsSyncingCheck := s\<rparr>"

definition WithSafeBlockDriftThreshold :: "u64 \<Rightarrow> 'm BackendOpt" where
  "WithSafeBlockDriftThreshold n b = b\<lparr>safeBlockDriftThreshold := n\<rparr>"

definition WithFinalizedBlockDriftThreshold :: "u64 \<Rightarrow> 'm BackendOpt" where
  "WithFinalizedBlockDriftThreshold n b = b\<lparr>finalizedBlockDriftThreshold := n\<rparr>"

definition WithConsensusSkipPeerCountCheck :: "bool \<Rightarrow> 'm BackendOpt" where
  "WithConsensusSkipPeerCountCheck s b = b\<lparr>skipPeerCountCheck := s\<rparr>"

definition WithConsensusForcedCandidate :: "bool \<Rightarrow> 'm BackendOpt" where
  "WithConsensusForcedCandidate f b = b\<lparr>forcedCandidate := f\<rparr>"

definition WithWeight :: "int \<Rightarrow> 'm BackendOpt" where
  "WithWeight w b = b\<lparr>weight := w\<rparr>"

definition WithMaxDegradedLatencyThreshold :: "Duration \<Rightarrow> 'm BackendOpt" where
  "WithMaxDegradedLatencyThreshold d b = b\<lparr>maxDegradedLatencyThreshold := d\<rparr>"

definition WithMaxLatencyThreshold :: "Duration \<Rightarrow> 'm BackendOpt" where
  "WithMaxLatencyThreshold d b = b\<lparr>maxLatencyThreshold := d\<rparr>"

definition WithMaxErrorRateThreshold :: "rat \<Rightarrow> 'm BackendOpt" where
  "WithMaxErrorRateThreshold r b = b\<lparr>maxErrorRateThreshold := r\<rparr>"

definition WithConsensusReceiptTarget :: "string \<Rightarrow> 'm BackendOpt" where
  "WithConsensusReceiptTarget t b = b\<lparr>receiptsTarget := t\<rparr>"

definition WithIntermittentNetworkErrorSlidingWindow :: "'m AvgSlidingWindow \<Rightarrow> 'm BackendOpt" where
  "WithIntermittentNetworkErrorSlidingWindow sw b = b\<lparr>intermittentErrorsSlidingWindow := sw\<rparr>"

definition Override :: "'m BackendOpt list \<Rightarrow> 'm Backend \<Rightarrow> 'm Backend" where
  "Override opts b = fold (\<lambda>opt b. opt b) opts b"

definition math_MaxInt64 :: int where
  "math_MaxInt64 = 9223372036854775807"

definition NewBackend :: "'m lhm \<Rightarrow> string \<Rightarrow> string \<Rightarrow> string \<Rightarrow> bool \<Rightarrow> 'm BackendOpt list \<Rightarrow> 'm Backend" where
  "NewBackend L name rpcU wsU sem opts = Override opts
     \<lparr>Name = name, rpcURL = rpcU, receiptsTarget = [], wsURL = wsU, authUsername = [], authPassword = [],
      be_headers = [], client_sem = sem, client_Timeout = 5 * time_Second, maxRetries = 0,
      maxResponseSize = math_MaxInt64, maxRPS = 0, maxWSConns = 0, outOfServiceInterval = 0,
      stripTrailingXFF = False, forwardRequestHeaders = [], proxydIP = [],
      skipIsSyncingCheck = False, skipPeerCountCheck = False, forcedCandidate = False,
      safeBlockDriftThreshold = 0, finalizedBlockDriftThreshold = 0,
      maxDegradedLatencyThreshold = 5 * time_Second, maxLatencyThreshold = 10 * time_Second,
      maxErrorRateThreshold = 1 / 2,
      latencySlidingWindow = NewSlidingWindow L [], networkRequestsSlidingWindow = NewSlidingWindow L [],
      intermittentErrorsSlidingWindow = NewSlidingWindow L [], weight = 0\<rparr>"

subsection \<open>Health\<close>

definition ErrorRate :: "'m lhm \<Rightarrow> Time \<Rightarrow> 'm Backend \<Rightarrow> rat" where
  "ErrorRate L now b =
     (if Sum L now (networkRequestsSlidingWindow b) \<ge> 10
      then Sum L now (intermittentErrorsSlidingWindow b) / Sum L now (networkRequestsSlidingWindow b)
      else 0)"

text \<open>\<open>time.Duration(f)\<close> of a float truncates towards zero; the averages are not negative.\<close>

definition avgLatency :: "'m lhm \<Rightarrow> Time \<Rightarrow> 'm Backend \<Rightarrow> Duration" where
  "avgLatency L now b = \<lfloor>Avg L now (latencySlidingWindow b)\<rfloor>"

definition IsHealthy :: "'m lhm \<Rightarrow> Time \<Rightarrow> 'm Backend \<Rightarrow> bool" where
  "IsHealthy L now b =
     (if ErrorRate L now b \<ge> maxErrorRateThreshold b then False
      else if avgLatency L now b \<ge> maxLatencyThreshold b then False
      else True)"

definition IsDegraded :: "'m lhm \<Rightarrow> Time \<Rightarrow> 'm Backend \<Rightarrow> bool" where
  "IsDegraded L now b \<longleftrightarrow> avgLatency L now b \<ge> maxDegradedLatencyThreshold b"

definition ClearSlidingWindows :: "'m Backend \<Rightarrow> 'm Backend" where
  "ClearSlidingWindows b =
     b\<lparr>intermittentErrorsSlidingWindow := Clear (intermittentErrorsSlidingWindow b),
       networkRequestsSlidingWindow := Clear (networkRequestsSlidingWindow b)\<rparr>"

subsection \<open>Building the upstream request\<close>

definition ConsensusGetReceiptsMethod :: string where
  "ConsensusGetReceiptsMethod = ''consensus_getReceipts''"

definition conventional_targets :: "string list" where
  "conventional_targets = [''debug_getRawReceipts'', ''eth_getBlockReceipts'', ''parity_getBlockReceipts'']"

definition ReceiptsTargetAlchemyGetTransactionReceipts :: string where
  "ReceiptsTargetAlchemyGetTransactionReceipts = ''alchemy_getTransactionReceipts''"

text \<open>\<open>json.Unmarshal(rpcReq.Params, &reqParams)\<close> into \<open>[]rpc.BlockNumberOrHash\<close>.\<close>

definition unmarshal_bnhs :: "geth \<Rightarrow> json option \<Rightarrow> BlockNumberOrHash list option" where
  "unmarshal_bnhs G raw =
     (case unmarshal_slice raw of
        None \<Rightarrow> None
      | Some xs \<Rightarrow> if list_all (\<lambda>x. bnh_UnmarshalJSON G x \<noteq> None) xs
                  then Some (map (\<lambda>x. the (bnh_UnmarshalJSON G x)) xs) else None)"

definition BlockHashOrNumberParameter :: "geth \<Rightarrow> BlockNumberOrHash \<Rightarrow> json" where
  "BlockHashOrNumberParameter G b =
     (case BlockNumber b of
        Some n \<Rightarrow> JObj [(''blockHash'', JNull), (''blockNumber'', JStr (BlockNumber_String G n))]
      | None \<Rightarrow> JObj [(''blockHash'', case BlockHash b of None \<Rightarrow> JNull | Some h \<Rightarrow> JStr h), (''blockNumber'', JNull)])"

text \<open>
  The translation of one \<open>consensus_getReceipts\<close> request. The method is replaced before the
  parameters are looked at, so it stays replaced when an error is returned.
\<close>

definition translate_params :: "geth \<Rightarrow> RPCReq \<Rightarrow> (RPCReq \<times> err option) outcome" where
  "translate_params G req =
     (case unmarshal_bnhs G (Params req) of
        None \<Rightarrow> Return (req, Some (RpcE (ErrInvalidRequest ''invalid request'')))
      | Some reqParams \<Rightarrow>
          if Method req \<in> set conventional_targets then
            (case reqParams of
               [] \<Rightarrow> Panic ''index out of range''
             | b # _ \<Rightarrow>
                 (case BlockNumber b of
                    Some n \<Rightarrow> Return (req\<lparr>Params := Some (JArr [JStr (BlockNumber_String G n)])\<rparr>, None)
                  | None \<Rightarrow>
                      (case BlockHash b of
                         Some h \<Rightarrow> Return (req\<lparr>Params := Some (JArr [JStr h])\<rparr>, None)
                       | None \<Rightarrow> Panic ''nil pointer dereference'')))
          else if Method req = ReceiptsTargetAlchemyGetTransactionReceipts then
            (case reqParams of
               [] \<Rightarrow> Panic ''index out of range''
             | b # _ \<Rightarrow> Return (req\<lparr>Params := Some (JArr [BlockHashOrNumberParameter G b])\<rparr>, None))
          else Return (req, Some ErrConsensusGetReceiptsInvalidTarget))"

definition translate_request :: "geth \<Rightarrow> string \<Rightarrow> RPCReq \<Rightarrow> (RPCReq \<times> err option) outcome" where
  "translate_request G target req =
     (if Method req = ConsensusGetReceiptsMethod then translate_params G (req\<lparr>Method := target\<rparr>)
      else Return (req, None))"

text \<open>All requests in order, up to the first error; the ids of the translated ones.\<close>

fun translate_requests :: "geth \<Rightarrow> string \<Rightarrow> RPCReq list \<Rightarrow> (RPCReq list \<times> string list \<times> err option) outcome" where
  "translate_requests G target [] = Return ([], [], None)"
| "translate_requests G target (q # qs) =
     obind (translate_request G target q) (\<lambda>(q', e).
       let ids = (if Method q = ConsensusGetReceiptsMethod then [ID q] else []) in
       case e of
         Some err \<Rightarrow> Return (q' # qs, ids, Some err)
       | None \<Rightarrow> obind (translate_requests G target qs) (\<lambda>(qs', ids', e'). Return (q' # qs', ids @ ids', e')))"

definition prepare_requests :: "geth \<Rightarrow> string \<Rightarrow> RPCReq list \<Rightarrow> bool \<Rightarrow> (RPCReq list \<times> string list \<times> err option) outcome" where
  "prepare_requests G target reqs isBatch =
     (if isBatch then
        (if list_ex (\<lambda>q. Method q = ConsensusGetReceiptsMethod) reqs
         then Return (reqs, [], Some ErrConsensusGetReceiptsCantBeBatched) else Return (reqs, [], None))
      else translate_requests G target reqs)"

definition TrimSuffix_slash :: "string \<Rightarrow> string" where
  "TrimSuffix_slash s = (if s \<noteq> [] \<and> last s = CHR ''/'' then butlast s else s)"

definition buildBackendURL :: "string \<Rightarrow> RPCReq list \<Rightarrow> Ctx \<Rightarrow> string" where
  "buildBackendURL baseURL rpcReqs ctx =
     (if rpcReqs \<noteq> [] \<and> Method (hd rpcReqs) = ''eth_sendRawTransaction'' then
        (let u = (case ctx_Path ctx of
                    Some path \<Rightarrow> if path \<noteq> [] \<and> path \<noteq> ''/'' then TrimSuffix_slash baseURL @ path else baseURL
                  | None \<Rightarrow> baseURL)
         in case ctx_RawQuery ctx of
              Some q \<Rightarrow> if q \<noteq> [] then u @ ''?'' @ q else u
            | None \<Rightarrow> u)
      else baseURL)"

text \<open>\<open>http.Header\<close>: names are made canonical (a capital first letter of each part).\<close>

definition char_upper :: "char \<Rightarrow> char" where
  "char_upper c = (let n = of_char c :: nat in if 97 \<le> n \<and> n \<le> 122 then char_of (n - 32) else c)"

definition char_lower :: "char \<Rightarrow> char" where
  "char_lower c = (let n = of_char c :: nat in if 65 \<le> n \<and> n \<le> 90 then char_of (n + 32) else c)"

fun canonical :: "bool \<Rightarrow> string \<Rightarrow> string" where
  "canonical up [] = []"
| "canonical up (c # cs) = (if up then char_upper c else char_lower c) # canonical (c = CHR ''-'') cs"

definition CanonicalHeaderKey :: "string \<Rightarrow> string" where
  "CanonicalHeaderKey = canonical True"

definition header_values :: "http_header \<Rightarrow> string \<Rightarrow> string list" where
  "header_values h k = (case map_of h k of None \<Rightarrow> [] | Some vs \<Rightarrow> vs)"

definition Header_Add :: "string \<Rightarrow> string \<Rightarrow> http_header \<Rightarrow> http_header" where
  "Header_Add k v h = AList.update (CanonicalHeaderKey k) (header_values h (CanonicalHeaderKey k) @ [v]) h"

definition Header_Set :: "string \<Rightarrow> string \<Rightarrow> http_header \<Rightarrow> http_header" where
  "Header_Set k v h = AList.update (CanonicalHeaderKey k) [v] h"

text \<open>\<open>strings.TrimSpace\<close> (of ASCII white space).\<close>

definition is_space :: "char \<Rightarrow> bool" where
  "is_space c \<longleftrightarrow> c \<in> set [CHR 0x20, CHR 0x09, CHR 0x0A, CHR 0x0B, CHR 0x0C, CHR 0x0D]"

definition TrimSpace :: "string \<Rightarrow> string" where
  "TrimSpace s = rev (dropWhile is_space (rev (dropWhile is_space s)))"

definition stripXFF :: "string \<Rightarrow> string" where
  "stripXFF xff = TrimSpace (hd (split_on (CHR '','') xff))"

definition upstream_xff :: "'m Backend \<Rightarrow> Ctx \<Rightarrow> string" where
  "upstream_xff b ctx =
     (if stripTrailingXFF b then stripXFF (GetXForwardedFor ctx)
      else if proxydIP b \<noteq> [] then GetXForwardedFor ctx @ '', '' @ proxydIP b
      else GetXForwardedFor ctx)"

definition DefaultOpTxProxyAuthHeader :: string where
  "DefaultOpTxProxyAuthHeader = ''X-Optimism-Signature''"

text \<open>The credentials of basic authentication are kept as a pair, not encoded.\<close>

definition forwarded_headers :: "'m Backend \<Rightarrow> Ctx \<Rightarrow> http_header" where
  "forwarded_headers b ctx =
     fold (\<lambda>name h. fold (\<lambda>v h. Header_Add name v h) (header_values (GetHeadersToForward ctx) name) h)
       (forwardRequestHeaders b) []"

definition upstream_headers :: "'m Backend \<Rightarrow> Ctx \<Rightarrow> http_header" where
  "upstream_headers b ctx =
     (let h1 = forwarded_headers b ctx;
          h2 = (if authPassword b \<noteq> [] then AList.update ''Authorization'' [authUsername b @ '':'' @ authPassword b] h1 else h1);
          h3 = (if GetOpTxProxyAuthHeader ctx \<noteq> []
                then Header_Set DefaultOpTxProxyAuthHeader (GetOpTxProxyAuthHeader ctx) h2 else h2);
          h4 = Header_Set ''content-type'' ''application/json'' h3;
          h5 = Header_Set ''X-Forwarded-For'' (upstream_xff b ctx) h4
      in fold (\<lambda>(name, v) h. Header_Set name v h) (be_headers b) h5)"

definition upstream_request :: "'m Backend \<Rightarrow> Ctx \<Rightarrow> RPCReq list \<Rightarrow> http_request" where
  "upstream_request b ctx reqs =
     \<lparr>hq_url = buildBackendURL (rpcURL b) reqs ctx, hq_header = upstream_headers b ctx,
      hq_body = (if length reqs = 1 then Single (hd reqs) else Batch reqs)\<rparr>"

subsection \<open>Forwarding\<close>

text \<open>The HTTP client: with a semaphore a call waits for a slot first.\<close>

definition DoLimited :: "'e World \<Rightarrow> 'm Backend \<Rightarrow> 'e \<Rightarrow> http_request \<Rightarrow> 'e \<times> (err + http_response)" where
  "DoLimited W b e req =
     (if \<not> client_sem b then http_Do W e (Name b) req
      else case sem_Acquire W e of
             (e1, Some err) \<Rightarrow>
               if err_is err context_Canceled then (e1, Inl (RpcE ErrContextCanceled))
               else (e1, Inl (wrapErr (Some err) (Message ErrTooManyRequests)))
           | (e1, None) \<Rightarrow> (case http_Do W e1 (Name b) req of (e2, r) \<Rightarrow> (sem_Release W e2, r)))"

text \<open>\<open>io.ReadAll\<close> of a body through the limited reader.\<close>

definition ReadAll_limited :: "int \<Rightarrow> http_response \<Rightarrow> err + string" where
  "ReadAll_limited n r =
     (let len = int (length (body_bytes r));
          done = (case body_err r of None \<Rightarrow> Inr (body_bytes r) | Some e \<Rightarrow> Inl e)
      in if n \<le> 0 then Inl ErrLimitReaderOverLimit
         else if len < n \<or> len = n \<and> body_eager r then done
         else Inl ErrLimitReaderOverLimit)"

definition count_request :: "'m lhm \<Rightarrow> Time \<Rightarrow> 'm Backend \<Rightarrow> 'm Backend" where
  "count_request L now b = b\<lparr>networkRequestsSlidingWindow := Incr L now (networkRequestsSlidingWindow b)\<rparr>"

definition count_error :: "'m lhm \<Rightarrow> Time \<Rightarrow> 'm Backend \<Rightarrow> 'm Backend" where
  "count_error L now b = b\<lparr>intermittentErrorsSlidingWindow := Incr L now (intermittentErrorsSlidingWindow b)\<rparr>"

definition count_latency :: "'m lhm \<Rightarrow> Time \<Rightarrow> Duration \<Rightarrow> 'm Backend \<Rightarrow> 'm Backend" where
  "count_latency L now d b = b\<lparr>latencySlidingWindow := Add L now (of_int d) (latencySlidingWindow b)\<rparr>"

definition responseIsNotBatched :: "'e World \<Rightarrow> string \<Rightarrow> bool" where
  "responseIsNotBatched W resB \<longleftrightarrow> json_RPCRes W resB \<noteq> None"

text \<open>
  The responses in a body, or the error and whether it counts as a network error. A null element
  of a batch is a nil pointer (\<open>None\<close>).
\<close>

definition parse_responses :: "'e World \<Rightarrow> nat \<Rightarrow> string \<Rightarrow> (err \<times> bool) + RPCRes option list" where
  "parse_responses W n resB =
     (let parsed =
        (if n = 1 then
           (case json_RPCRes W resB of
              None \<Rightarrow> Inl (RpcE ErrBackendBadResponse, False)
            | Some r \<Rightarrow> Inr [Some r])
         else
           (case json_RPCRes_slice W resB of
              None \<Rightarrow> if responseIsNotBatched W resB then Inl (ErrBackendUnexpectedJSONRPC, True)
                      else Inl (RpcE ErrBackendBadResponse, True)
            | Some rs \<Rightarrow> Inr rs))
      in case parsed of
           Inl x \<Rightarrow> Inl x
         | Inr rs \<Rightarrow> if n \<noteq> length rs then Inl (ErrBackendUnexpectedJSONRPC, True) else Inr rs)"

text \<open>The status code goes into every error; a response without an error is dereferenced all the same.\<close>

fun set_status :: "int \<Rightarrow> RPCRes option list \<Rightarrow> RPCRes option list outcome" where
  "set_status code [] = Return []"
| "set_status code (None # rs) = Panic ''nil pointer dereference''"
| "set_status code (Some r # rs) =
     (case Error r of
        None \<Rightarrow> Panic ''nil pointer dereference''
      | Some e \<Rightarrow> obind (set_status code rs) (\<lambda>rs'. Return (Some (r\<lparr>Error := Some (e\<lparr>HTTPErrorCode := code\<rparr>)\<rparr>) # rs')))"

fun enrich_responses :: "string list \<Rightarrow> string \<Rightarrow> RPCRes option list \<Rightarrow> RPCRes list outcome" where
  "enrich_responses ids target [] = Return []"
| "enrich_responses ids target (None # rs) = Panic ''nil pointer dereference''"
| "enrich_responses ids target (Some r # rs) =
     obind (enrich_responses ids target rs) (\<lambda>rs'.
       Return ((if rs_ID r \<in> set ids then r\<lparr>Result := ReceiptsResult target (Result r)\<rparr> else r) # rs'))"

text \<open>
  Sorting by the position of the id in the requests: an unknown id has position 0, as in a Go
  map. \<open>sort.Slice\<close> promises a sorted permutation; the model takes the stable one.
\<close>

definition id_position :: "RPCReq list \<Rightarrow> string \<Rightarrow> nat" where
  "id_position reqs i = (let n = length (takeWhile (\<lambda>q. ID q \<noteq> i) reqs) in if n < length reqs then n else 0)"

definition sortBatchRPCResponse :: "RPCReq list \<Rightarrow> RPCRes list \<Rightarrow> RPCRes list outcome" where
  "sortBatchRPCResponse reqs res =
     (if \<not> distinct (map ID reqs) then Panic ''bug! detected requests with duplicate IDs''
      else Return (sort_key (\<lambda>r. id_position reqs (rs_ID r)) res))"

text \<open>The result of a call: the world, the backend, the requests as they are now, and the responses or an error.\<close>

type_synonym ('e, 'm) forward_result = "('e \<times> 'm Backend \<times> RPCReq list \<times> (err + RPCRes list)) outcome"

definition handle_response ::
  "'e World \<Rightarrow> 'm lhm \<Rightarrow> 'm Backend \<Rightarrow> 'e \<Rightarrow> Time \<Rightarrow> RPCReq list \<Rightarrow> string list \<Rightarrow> http_response \<Rightarrow> ('e, 'm) forward_result" where
  "handle_response W L b e start reqs ids httpRes =
     (let now = w_now W e in
      if StatusCode httpRes \<noteq> 200 \<and> StatusCode httpRes \<noteq> 400 then
        Return (e, count_error L now b, reqs, Inl (Errorf (''response code '' @ fmt_d (StatusCode httpRes))))
      else
        case ReadAll_limited (maxResponseSize b) httpRes of
          Inl err \<Rightarrow>
            if err_is err ErrLimitReaderOverLimit then Return (e, b, reqs, Inl (RpcE ErrBackendResponseTooLarge))
            else Return (e, count_error L now b, reqs, Inl (wrapErr (Some err) ''error reading response body''))
        | Inr resB \<Rightarrow>
            (case parse_responses W (length reqs) resB of
               Inl (err, cnt) \<Rightarrow> Return (e, if cnt then count_error L now b else b, reqs, Inl err)
             | Inr rs \<Rightarrow>
                 obind (if StatusCode httpRes \<noteq> 200 then set_status (StatusCode httpRes) rs else Return rs) (\<lambda>rs1.
                 obind (enrich_responses ids (receiptsTarget b) rs1) (\<lambda>rs2.
                 obind (sortBatchRPCResponse reqs rs2) (\<lambda>rs3.
                   Return (e, count_latency L now (now - start) b, reqs, Inr rs3))))))"

definition doForward ::
  "'e World \<Rightarrow> 'm lhm \<Rightarrow> geth \<Rightarrow> Ctx \<Rightarrow> 'e \<Rightarrow> 'm Backend \<Rightarrow> RPCReq list \<Rightarrow> bool \<Rightarrow> ('e, 'm) forward_result" where
  "doForward W L G ctx e b0 reqs0 isBatch =
     (let start = w_now W e;
          b = count_request L start b0
      in obind (prepare_requests G (receiptsTarget b) reqs0 isBatch) (\<lambda>(reqs, ids, perr).
         case perr of
           Some err \<Rightarrow> Return (e, b, reqs, Inl err)
         | None \<Rightarrow>
             if \<not> url_ok W (buildBackendURL (rpcURL b) reqs ctx) then
               Return (e, count_error L start b, reqs,
                 Inl (wrapErr (Some (Errorf ''parse url'')) ''error creating backend request''))
             else
               (case DoLimited W b e (upstream_request b ctx reqs) of
                  (e1, Inl err) \<Rightarrow>
                    (let b1 = (if \<not> (err_is err context_Canceled \<or> err_is err (RpcE ErrTooManyRequests))
                               then count_error L (w_now W e1) b else b)
                     in if err_is err (RpcE ErrContextCanceled) then Return (e1, b1, reqs, Inl err)
                        else Return (e1, b1, reqs, Inl (wrapErr (Some err) ''error in backend request'')))
                | (e1, Inr httpRes) \<Rightarrow> handle_response W L b e1 start reqs ids httpRes)))"

definition calcBackoff :: "'e World \<Rightarrow> 'e \<Rightarrow> nat \<Rightarrow> 'e \<times> Duration" where
  "calcBackoff W e i =
     (case w_Int63n W e 250 of
        (e1, jitter) \<Rightarrow> (e1, int (min (2 ^ i * 1000 + jitter) 3000) * time_Millisecond))"

definition sleepContext :: "'e World \<Rightarrow> nat \<Rightarrow> 'e \<Rightarrow> 'e" where
  "sleepContext W i e = (case calcBackoff W e i of (e1, d) \<Rightarrow> w_sleep W e1 d)"

text \<open>The errors that end the loop of attempts at once.\<close>

definition final_error :: "err \<Rightarrow> bool" where
  "final_error err \<longleftrightarrow> err \<in> {RpcE ErrBackendResponseTooLarge, ErrConsensusGetReceiptsCantBeBatched,
     ErrConsensusGetReceiptsInvalidTarget, ErrBackendUnexpectedJSONRPC, RpcE ErrContextCanceled}"

fun forward_loop ::
  "'e World \<Rightarrow> 'm lhm \<Rightarrow> geth \<Rightarrow> Ctx \<Rightarrow> bool \<Rightarrow> nat \<Rightarrow> nat \<Rightarrow> err option \<Rightarrow> 'e \<Rightarrow> 'm Backend \<Rightarrow> RPCReq list
    \<Rightarrow> ('e, 'm) forward_result" where
  "forward_loop W L G ctx isBatch 0 i lastError e b reqs =
     Return (e, b, reqs, Inl (wrapErr lastError ''permanent error forwarding request''))"
| "forward_loop W L G ctx isBatch (Suc n) i lastError e b reqs =
     (if reqs = [] then Panic ''index out of range''
      else obind (doForward W L G ctx e b reqs isBatch) (\<lambda>(e1, b1, reqs1, r).
        case r of
          Inr rs \<Rightarrow> Return (e1, b1, reqs1, Inr rs)
        | Inl err \<Rightarrow>
            if final_error err then Return (e1, b1, reqs1, Inl err)
            else
              let e2 = (if n > 0 then sleepContext W i e1 else e1)
              in forward_loop W L G ctx isBatch n (Suc i) (Some err) (sleepContext W i e2) b1 reqs1))"

definition Forward ::
  "'e World \<Rightarrow> 'm lhm \<Rightarrow> geth \<Rightarrow> Ctx \<Rightarrow> 'e \<Rightarrow> 'm Backend \<Rightarrow> RPCReq list \<Rightarrow> bool \<Rightarrow> ('e, 'm) forward_result" where
  "Forward W L G ctx e b reqs isBatch =
     forward_loop W L G ctx isBatch (nat (maxRetries b + 1)) 0 None e b reqs"

definition ForwardRPC ::
  "'e World \<Rightarrow> 'm lhm \<Rightarrow> geth \<Rightarrow> Ctx \<Rightarrow> 'e \<Rightarrow> 'm Backend \<Rightarrow> string \<Rightarrow> string \<Rightarrow> json list
    \<Rightarrow> ('e \<times> 'm Backend \<times> (err + RPCRes)) outcome" where
  "ForwardRPC W L G ctx e b i method params =
     (let rpcReq = \<lparr>JSONRPC = JSONRPCVersion, Method = method, Params = Some (if params = [] then JNull else JArr params), ID = i\<rparr>
      in obind (doForward W L G ctx e b [rpcReq] False) (\<lambda>(e1, b1, _, r).
        Return (e1, b1,
          case r of
            Inl err \<Rightarrow> Inl err
          | Inr rs \<Rightarrow>
              (case rs of
                 [x] \<Rightarrow> (case Error x of Some re \<Rightarrow> Inl (RpcE re) | None \<Rightarrow> Inr x)
               | _ \<Rightarrow> Inl (Errorf ''unexpected response len for non-batched request (len != 1)'')))))"

subsection \<open>Lemmas\<close>

lemma count_request_frame [simp]:
  "Name (count_request L now b) = Name b" "rpcURL (count_request L now b) = rpcURL b"
  "receiptsTarget (count_request L now b) = receiptsTarget b" "client_sem (count_request L now b) = client_sem b"
  "maxResponseSize (count_request L now b) = maxResponseSize b" "maxRetries (count_request L now b) = maxRetries b"
  by (simp_all add: count_request_def)

lemma translate_request_frame:
  "translate_request G target q = Return (q', e) \<Longrightarrow> ID q' = ID q \<and> JSONRPC q' = JSONRPC q"
  by (auto simp: translate_request_def translate_params_def split: if_splits option.splits list.splits)

lemma translate_requests_ids: "translate_requests G target qs = Return (qs', ids, e) \<Longrightarrow> map ID qs' = map ID qs"
proof (induction qs arbitrary: qs' ids e)
  case (Cons q qs)
  obtain q' e' where t: "translate_request G target q = Return (q', e')"
    using Cons.prems by (auto simp: go_outcome)
  show ?case
  proof (cases e')
    case None
    then obtain qs1 ids1 where "translate_requests G target qs = Return (qs1, ids1, e)" "qs' = q' # qs1"
      using Cons.prems t by (auto simp: go_outcome)
    with Cons.IH translate_request_frame [OF t] show ?thesis by simp
  next
    case (Some err)
    with Cons.prems t translate_request_frame [OF t] show ?thesis by auto
  qed
qed simp

lemma prepare_requests_ids: "prepare_requests G target qs isBatch = Return (qs', ids, e) \<Longrightarrow> map ID qs' = map ID qs"
  using translate_requests_ids [of G target qs qs' ids e] by (auto simp: prepare_requests_def split: if_splits)

lemma parse_responses_length: "parse_responses W n resB = Inr rs \<Longrightarrow> length rs = n"
  by (auto simp: parse_responses_def Let_def split: if_splits option.splits sum.splits)

lemma set_status_length: "set_status code rs = Return rs' \<Longrightarrow> length rs' = length rs"
  by (induction code rs arbitrary: rs' rule: set_status.induct) (auto simp: go_outcome split: option.splits)

lemma set_status_ids:
  "set_status code rs = Return rs' \<Longrightarrow> map (map_option rs_ID) rs' = map (map_option rs_ID) rs"
  by (induction code rs arbitrary: rs' rule: set_status.induct) (auto simp: go_outcome split: option.splits)

lemma enrich_responses_ids:
  "enrich_responses ids target rs = Return rs' \<Longrightarrow> map (Some \<circ> rs_ID) rs' = map (map_option rs_ID) rs"
  by (induction ids target rs arbitrary: rs' rule: enrich_responses.induct) (auto simp: go_outcome)

lemma id_position_nth: "distinct (map ID reqs) \<Longrightarrow> i < length reqs \<Longrightarrow> id_position reqs (ID (reqs ! i)) = i"
proof -
  assume d: "distinct (map ID reqs)" and i: "i < length reqs"
  have "takeWhile (\<lambda>q. ID q \<noteq> ID (reqs ! i)) reqs = take i reqs"
  proof (rule takeWhile_eq_take_P_nth)
    show "\<And>j. j < i \<Longrightarrow> j < length reqs \<Longrightarrow> ID (reqs ! j) \<noteq> ID (reqs ! i)"
      using d i by (metis distinct_conv_nth length_map nat_neq_iff nth_map)
  qed simp
  then show ?thesis using i by (simp add: id_position_def Let_def)
qed

text \<open>Any sorted permutation of responses with the ids of the requests has them in the order of the requests.\<close>

lemma sorted_responses_unique:
  assumes d: "distinct (map ID reqs)" and m: "mset (map rs_ID res) = mset (map ID reqs)"
    and s: "sorted (map (\<lambda>r. id_position reqs (rs_ID r)) res)"
  shows "map rs_ID res = map ID reqs"
proof -
  let ?p = "id_position reqs"
  have idx: "map ?p (map ID reqs) = [0..<length reqs]"
    by (rule nth_equalityI) (simp_all add: id_position_nth [OF d])
  have "mset (map ?p (map rs_ID res)) = mset (map ?p (map ID reqs))" using m by (metis mset_map)
  then have "sort (map ?p (map ID reqs)) = map ?p (map rs_ID res)"
    using s by (intro properties_for_sort) (simp_all add: comp_def)
  then have "map ?p (map rs_ID res) = map ?p (map ID reqs)" unfolding idx by simp
  moreover have "inj_on ?p (set (map ID reqs))"
    using idx d by (metis distinct_map distinct_upt)
  moreover have "set (map rs_ID res) = set (map ID reqs)" using m by (metis set_mset_mset)
  ultimately show ?thesis by (metis map_inj_on sup.idem)
qed

lemma handle_response_success:
  assumes "handle_response W L b e start reqs ids hr = Return (e', b', reqs', Inr rs)"
  shows "reqs' = reqs \<and> length rs = length reqs \<and> distinct (map ID reqs) \<and>
    sorted (map (\<lambda>r. id_position reqs (rs_ID r)) rs)"
proof -
  obtain resB where body: "ReadAll_limited (maxResponseSize b) hr = Inr resB"
    using assms by (auto simp: handle_response_def Let_def split: if_splits sum.splits prod.splits)
  obtain rs0 where p: "parse_responses W (length reqs) resB = Inr rs0"
    using assms body by (auto simp: handle_response_def Let_def split: if_splits sum.splits prod.splits)
  obtain rs1 rs2 where r: "(if StatusCode hr \<noteq> 200 then set_status (StatusCode hr) rs0 else Return rs0) = Return rs1"
      "enrich_responses ids (receiptsTarget b) rs1 = Return rs2" "sortBatchRPCResponse reqs rs2 = Return rs" "reqs' = reqs"
    using assms body p by (auto simp: handle_response_def Let_def go_outcome split: if_splits)
  have "length rs1 = length reqs"
    using r(1) parse_responses_length [OF p] set_status_length [of "StatusCode hr" rs0 rs1] by (auto split: if_splits)
  then have "length rs2 = length reqs"
    using arg_cong [OF enrich_responses_ids [OF r(2)], of length] by simp
  then show ?thesis using r(3,4) by (auto simp: sortBatchRPCResponse_def split: if_splits)
qed

lemma handle_response_reqs: "handle_response W L b e start reqs ids hr = Return (e', b', reqs', r) \<Longrightarrow> reqs' = reqs"
  by (auto simp: handle_response_def Let_def go_outcome split: if_splits sum.splits)

lemma doForward_ids:
  assumes "doForward W L G ctx e b reqs isBatch = Return (e', b', reqs', r)"
  shows "map ID reqs' = map ID reqs"
proof -
  obtain qs ids pe where p: "prepare_requests G (receiptsTarget (count_request L (w_now W e) b)) reqs isBatch = Return (qs, ids, pe)"
    using assms by (auto simp: doForward_def Let_def go_outcome)
  have "reqs' = qs"
    using assms p handle_response_reqs
    by (fastforce simp: doForward_def Let_def split: option.splits if_splits prod.splits sum.splits)
  then show ?thesis using prepare_requests_ids [OF p] by simp
qed

lemma doForward_success:
  assumes "doForward W L G ctx e b reqs isBatch = Return (e', b', reqs', Inr rs)"
  shows "length rs = length reqs \<and> distinct (map ID reqs) \<and> sorted (map (\<lambda>r. id_position reqs' (rs_ID r)) rs)"
proof -
  let ?b = "count_request L (w_now W e) b"
  obtain qs ids where p: "prepare_requests G (receiptsTarget ?b) reqs isBatch = Return (qs, ids, None)"
    using assms by (auto simp: doForward_def Let_def go_outcome split: option.splits)
  obtain e1 hr where h: "handle_response W L ?b e1 (w_now W e) qs ids hr = Return (e', b', reqs', Inr rs)"
    using assms p by (auto simp: doForward_def Let_def split: if_splits prod.splits sum.splits)
  note ids = prepare_requests_ids [OF p]
  have "length qs = length reqs" using arg_cong [OF ids, of length] by simp
  then show ?thesis using handle_response_success [OF h] ids by simp
qed

lemma forward_loop_success:
  "forward_loop W L G ctx isBatch n i le e b reqs = Return (e', b', reqs', Inr rs) \<Longrightarrow>
     map ID reqs' = map ID reqs \<and> length rs = length reqs \<and> distinct (map ID reqs) \<and>
     sorted (map (\<lambda>r. id_position reqs' (rs_ID r)) rs)"
proof (induction n arbitrary: i le e b reqs)
  case (Suc n)
  obtain e1 b1 reqs1 r where f: "doForward W L G ctx e b reqs isBatch = Return (e1, b1, reqs1, r)"
    using Suc.prems by (auto simp: go_outcome split: if_splits)
  note ids = doForward_ids [OF f]
  have len: "length reqs1 = length reqs" using arg_cong [OF ids, of length] by simp
  show ?case
  proof (cases r)
    case (Inl err)
    with Suc.prems f obtain i' le' e2 where "forward_loop W L G ctx isBatch n i' le' e2 b1 reqs1 = Return (e', b', reqs', Inr rs)"
      by (auto simp: Let_def split: if_splits)
    from Suc.IH [OF this] ids len show ?thesis by simp
  next
    case (Inr rs1)
    with Suc.prems f have "e1 = e'" "b1 = b'" "reqs1 = reqs'" "rs1 = rs" by (auto split: if_splits)
    with doForward_success [OF f [unfolded Inr]] ids show ?thesis by simp
  qed
qed simp

lemma id_position_cong: "map ID reqs' = map ID reqs \<Longrightarrow> id_position reqs' = id_position reqs"
proof
  fix i assume eq: "map ID reqs' = map ID reqs"
  have tw: "length (takeWhile (\<lambda>q. ID q \<noteq> i) qs) = length (takeWhile (\<lambda>x. x \<noteq> i) (map ID qs))" for qs
    by (simp add: takeWhile_map comp_def)
  show "id_position reqs' i = id_position reqs i"
    using eq map_eq_imp_length_eq [OF eq] by (simp add: id_position_def tw)
qed

subsection \<open>Properties\<close>

lemma Forward_responses:
  assumes "Forward W L G ctx e b reqs isBatch = Return (e', b', reqs', Inr rs)"
  shows "map ID reqs' = map ID reqs \<and> length rs = length reqs \<and> distinct (map ID reqs) \<and>
    (mset (map rs_ID rs) = mset (map ID reqs) \<longrightarrow> map rs_ID rs = map ID reqs)"
proof -
  have f: "map ID reqs' = map ID reqs \<and> length rs = length reqs \<and> distinct (map ID reqs) \<and>
     sorted (map (\<lambda>r. id_position reqs' (rs_ID r)) rs)"
    using forward_loop_success [OF assms [unfolded Forward_def]] .
  then have "sorted (map (\<lambda>r. id_position reqs (rs_ID r)) rs)" using id_position_cong by metis
  then show ?thesis using f sorted_responses_unique by blast
qed

text \<open>
  C15. Responses line up with requests. When forwarding to a backend succeeds, after any number of
  retries, there are as many responses as requests, the ids of the requests are what they were
  and pairwise distinct, and if the backend answered exactly the ids it was asked the responses
  are in the order of the requests, whatever order the backend sent them in.
\<close>

theorem forward_responses_match:
  assumes "Forward W L G ctx e b reqs isBatch = Return (e', b', reqs', Inr rs)"
  shows "map ID reqs' = map ID reqs \<and> length rs = length reqs \<and> distinct (map ID reqs) \<and>
    (mset (map rs_ID rs) = mset (map ID reqs) \<longrightarrow> map rs_ID rs = map ID reqs)"
  using assms by (rule Forward_responses)

text \<open>A world that follows a script: the replies of the backend and of the semaphore, and the bodies it can decode.\<close>

record script =
  sc_now :: Time
  sc_replies :: "(err + http_response) list"
  sc_sem :: "err option list"

definition script_world ::
  "(string \<Rightarrow> RPCRes option) \<Rightarrow> (string \<Rightarrow> RPCRes option list option) \<Rightarrow> script World" where
  "script_world single batch = \<lparr>
     w_now = sc_now, w_sleep = \<lambda>e d. e\<lparr>sc_now := sc_now e + d\<rparr>, w_Int63n = \<lambda>e n. (e, 0), w_order = \<lambda>e xs. (e, xs),
     sem_Acquire = \<lambda>e. (e\<lparr>sc_sem := tl (sc_sem e)\<rparr>, if sc_sem e = [] then None else hd (sc_sem e)),
     sem_Release = \<lambda>e. e,
     http_Do = \<lambda>e name req. (e\<lparr>sc_now := sc_now e + time_Millisecond, sc_replies := tl (sc_replies e)\<rparr>,
        if sc_replies e = [] then Inl (Errorf ''EOF'') else hd (sc_replies e)),
     url_ok = \<lambda>u. u \<noteq> [], json_RPCRes = single, json_RPCRes_slice = batch\<rparr>"

definition http_reply :: "int \<Rightarrow> string \<Rightarrow> http_response" where
  "http_reply code body = \<lparr>StatusCode = code, body_bytes = body, body_err = None, body_eager = True\<rparr>"

definition call :: "string \<Rightarrow> string \<Rightarrow> RPCReq" where
  "call i m = \<lparr>JSONRPC = ''2.0'', Method = m, Params = Some (JArr []), ID = i\<rparr>"

definition no_ctx :: Ctx where
  "no_ctx = \<lparr>ctx_Auth = None, ctx_ReqID = None, ctx_XForwardedFor = None, ctx_OpTxProxyAuth = None,
     ctx_HeadersToForward = None, ctx_Path = None, ctx_RawQuery = None\<rparr>"

definition test_backend :: "(Time \<times> bucket) list Backend" where
  "test_backend = NewBackend alist_lhm ''a'' ''http://a'' [] False []"

lemma test_backend_fields [simp]:
  "Name test_backend = ''a''" "rpcURL test_backend = ''http://a''" "receiptsTarget test_backend = []"
  "client_sem test_backend = False" "maxResponseSize test_backend = math_MaxInt64" "maxRetries test_backend = 0"
  by (simp_all add: test_backend_def NewBackend_def Override_def)

lemmas forward_eval = Forward_def doForward_def Let_def prepare_requests_def DoLimited_def script_world_def
  handle_response_def http_reply_def ReadAll_limited_def math_MaxInt64_def parse_responses_def
  sortBatchRPCResponse_def buildBackendURL_def call_def ConsensusGetReceiptsMethod_def

theorem forward_responses_match_witness:
  "\<exists>e' b'. Forward (script_world (\<lambda>_. None) (\<lambda>_. Some [Some (NewRPCRes ''2'' NilVal), Some (NewRPCRes ''1'' NilVal)])) alist_lhm geth_ref no_ctx
      \<lparr>sc_now = 0, sc_replies = [Inr (http_reply 200 ''body'')], sc_sem = []\<rparr> test_backend
      [call ''1'' ''eth_chainId'', call ''2'' ''eth_gasPrice''] True =
    Return (e', b', [call ''1'' ''eth_chainId'', call ''2'' ''eth_gasPrice''],
      Inr [NewRPCRes ''1'' NilVal, NewRPCRes ''2'' NilVal]) \<and>
    map rs_ID [NewRPCRes ''1'' NilVal, NewRPCRes ''2'' NilVal] = map ID [call ''1'' ''eth_chainId'', call ''2'' ''eth_gasPrice'']"
proof -
  let ?W = "script_world (\<lambda>_. None) (\<lambda>_. Some [Some (NewRPCRes ''2'' NilVal), Some (NewRPCRes ''1'' NilVal)])"
  let ?reqs = "[call ''1'' ''eth_chainId'', call ''2'' ''eth_gasPrice'']"
  obtain e' b' where f: "Forward ?W alist_lhm geth_ref no_ctx \<lparr>sc_now = 0, sc_replies = [Inr (http_reply 200 ''body'')], sc_sem = []\<rparr>
      test_backend ?reqs True = Return (e', b', ?reqs, Inr [NewRPCRes ''1'' NilVal, NewRPCRes ''2'' NilVal])"
    by (simp add: forward_eval id_position_def)
  moreover have "mset (map rs_ID [NewRPCRes ''1'' NilVal, NewRPCRes ''2'' NilVal]) = mset (map ID ?reqs)"
    by (simp add: call_def)
  ultimately show ?thesis using forward_responses_match [OF f] by blast
qed

lemma handle_response_accounting:
  assumes "handle_response W L b e start reqs ids hr = Return (e', b', reqs', r)"
  shows "networkRequestsSlidingWindow b' = networkRequestsSlidingWindow b \<and> e' = e \<and>
    (case r of
       Inr rs \<Rightarrow> intermittentErrorsSlidingWindow b' = intermittentErrorsSlidingWindow b \<and>
         latencySlidingWindow b' = Add L (w_now W e) (of_int (w_now W e - start)) (latencySlidingWindow b)
     | Inl err \<Rightarrow> latencySlidingWindow b' = latencySlidingWindow b \<and>
         intermittentErrorsSlidingWindow b' \<in> {intermittentErrorsSlidingWindow b,
           Incr L (w_now W e) (intermittentErrorsSlidingWindow b)} \<and>
         (err = RpcE ErrBackendResponseTooLarge \<longrightarrow> b' = b))"
  using assms
  by (auto simp: handle_response_def Let_def go_outcome count_error_def count_latency_def wrapErr_def parse_responses_def
      err_defs split: if_splits sum.splits option.splits)

lemma prepare_requests_error:
  "prepare_requests G target reqs isBatch = Return (reqs', ids, Some err) \<Longrightarrow> err \<noteq> RpcE ErrBackendResponseTooLarge"
proof -
  have p: "translate_params G q \<noteq> Return (q', Some (RpcE ErrBackendResponseTooLarge))" for G q q'
    by (auto simp: translate_params_def err_defs split: option.splits if_splits list.splits)
  have "translate_requests G target reqs = Return (reqs', ids, Some err) \<Longrightarrow> err \<noteq> RpcE ErrBackendResponseTooLarge" for reqs' ids
    by (induction G target reqs arbitrary: reqs' ids rule: translate_requests.induct)
      (auto simp: go_outcome Let_def translate_request_def p split: option.splits if_splits)
  then show "prepare_requests G target reqs isBatch = Return (reqs', ids, Some err) \<Longrightarrow> ?thesis"
    by (auto simp: prepare_requests_def err_defs split: if_splits)
qed

text \<open>
  Accounting of an attempt. Every attempt counts exactly one network request. An answer counts
  its latency and no error; a failure counts no latency and at most one error; an answer that is
  too large is not held against the backend.
\<close>

theorem attempt_accounting:
  assumes "doForward W L G ctx e b reqs isBatch = Return (e', b', reqs', r)"
  shows "networkRequestsSlidingWindow b' = Incr L (w_now W e) (networkRequestsSlidingWindow b) \<and>
    (case r of
       Inr rs \<Rightarrow> intermittentErrorsSlidingWindow b' = intermittentErrorsSlidingWindow b \<and>
         latencySlidingWindow b' = Add L (w_now W e') (of_int (w_now W e' - w_now W e)) (latencySlidingWindow b)
     | Inl err \<Rightarrow> latencySlidingWindow b' = latencySlidingWindow b \<and>
         intermittentErrorsSlidingWindow b' \<in> {intermittentErrorsSlidingWindow b,
           Incr L (w_now W e) (intermittentErrorsSlidingWindow b), Incr L (w_now W e') (intermittentErrorsSlidingWindow b)} \<and>
         (err = RpcE ErrBackendResponseTooLarge \<longrightarrow> intermittentErrorsSlidingWindow b' = intermittentErrorsSlidingWindow b))"
proof -
  let ?b = "count_request L (w_now W e) b"
  have w: "networkRequestsSlidingWindow ?b = Incr L (w_now W e) (networkRequestsSlidingWindow b)"
    "intermittentErrorsSlidingWindow ?b = intermittentErrorsSlidingWindow b"
    "latencySlidingWindow ?b = latencySlidingWindow b"
    by (simp_all add: count_request_def)
  obtain qs ids pe where p: "prepare_requests G (receiptsTarget b) reqs isBatch = Return (qs, ids, pe)"
    using assms by (auto simp: doForward_def Let_def go_outcome)
  show ?thesis
  proof (cases pe)
    case (Some err)
    then show ?thesis using assms p w prepare_requests_error by (auto simp: doForward_def Let_def)
  next
    case None
    obtain e1 d where d: "DoLimited W ?b e (upstream_request ?b ctx qs) = (e1, d)" by (metis surj_pair)
    show ?thesis
    proof (cases "url_ok W (buildBackendURL (rpcURL b) qs ctx)")
      case False
      then show ?thesis using assms p None w by (auto simp: doForward_def Let_def count_error_def wrapErr_def)
    next
      case True
      show ?thesis
      proof (cases d)
        case (Inl err)
        then show ?thesis using assms p None True d w
          by (auto simp: doForward_def Let_def count_error_def wrapErr_def err_defs split: if_splits)
      next
        case (Inr hr)
        then have h: "handle_response W L ?b e1 (w_now W e) qs ids hr = Return (e', b', reqs', r)"
          using assms p None True d by (simp add: doForward_def Let_def)
        show ?thesis using handle_response_accounting [OF h] w by (cases r) auto
      qed
    qed
  qed
qed

theorem attempt_accounting_witness:
  "\<exists>e' b' reqs'. doForward (script_world (\<lambda>_. None) (\<lambda>_. None)) alist_lhm geth_ref no_ctx
      \<lparr>sc_now = 0, sc_replies = [Inr (http_reply 503 [])], sc_sem = []\<rparr> test_backend [call ''1'' ''eth_chainId''] False =
    Return (e', b', reqs', Inl (Errorf ''response code 503'')) \<and>
    networkRequestsSlidingWindow b' = Incr alist_lhm 0 (networkRequestsSlidingWindow test_backend)"
proof -
  obtain e' b' reqs' where f: "doForward (script_world (\<lambda>_. None) (\<lambda>_. None)) alist_lhm geth_ref no_ctx
      \<lparr>sc_now = 0, sc_replies = [Inr (http_reply 503 [])], sc_sem = []\<rparr> test_backend [call ''1'' ''eth_chainId''] False =
    Return (e', b', reqs', Inl (Errorf ''response code 503''))"
    by (simp add: forward_eval translate_request_def fmt_d_def fmt_nat.simps dec_digit_def)
  from attempt_accounting [OF f] f show ?thesis by (simp add: script_world_def)
qed

text \<open>
  A full proxy is held against its backends. When a call cannot get a slot of the semaphore
  that limits concurrent requests, because the client went away or because waiting took too long,
  the backend was never contacted, and the attempt is still counted as an error of the backend.
  The exclusion of \<open>context.Canceled\<close> and \<open>ErrTooManyRequests\<close> never applies: the errors the
  client returns for these cases wrap neither.
\<close>

theorem semaphore_failures_counted:
  assumes "client_sem b" and acq: "sem_Acquire W e = (e1, Some err)"
    and ctx_err: "err = context_Canceled \<or> err = context_DeadlineExceeded"
    and url: "url_ok W (buildBackendURL (rpcURL b) [q] ctx)" and m: "Method q \<noteq> ConsensusGetReceiptsMethod"
  shows "\<exists>r. doForward W L G ctx e b [q] isBatch =
    Return (e1, count_error L (w_now W e1) (count_request L (w_now W e) b), [q], Inl r) \<and>
    \<not> err_is r (RpcE ErrTooManyRequests)"
  using assms
  by (auto simp: doForward_def Let_def prepare_requests_def translate_request_def DoLimited_def wrapErr_def
      context_Canceled_def context_DeadlineExceeded_def err_defs)

theorem semaphore_failures_counted_witness:
  "\<exists>r. doForward (script_world (\<lambda>_. None) (\<lambda>_. None)) alist_lhm geth_ref no_ctx
      \<lparr>sc_now = 5, sc_replies = [], sc_sem = [Some context_DeadlineExceeded]\<rparr> (test_backend\<lparr>client_sem := True\<rparr>)
      [call ''1'' ''eth_chainId''] False =
    Return (\<lparr>sc_now = 5, sc_replies = [], sc_sem = []\<rparr>,
      count_error alist_lhm 5 (count_request alist_lhm 5 (test_backend\<lparr>client_sem := True\<rparr>)),
      [call ''1'' ''eth_chainId''], Inl r) \<and> \<not> err_is r (RpcE ErrTooManyRequests)"
proof -
  let ?W = "script_world (\<lambda>_. None) (\<lambda>_. None)"
  let ?e = "\<lparr>sc_now = 5, sc_replies = [], sc_sem = [Some context_DeadlineExceeded]\<rparr>"
  have a: "sem_Acquire ?W ?e = (\<lparr>sc_now = 5, sc_replies = [], sc_sem = []\<rparr>, Some context_DeadlineExceeded)"
    by (simp add: script_world_def)
  from semaphore_failures_counted [OF _ a, of "test_backend\<lparr>client_sem := True\<rparr>" "call ''1'' ''eth_chainId''" no_ctx]
  show ?thesis by (simp add: script_world_def buildBackendURL_def call_def ConsensusGetReceiptsMethod_def)
qed

text \<open>
  A backend can crash the proxy. When a backend answers a single request with HTTP status 400
  and a JSON-RPC response that has no error member, forwarding dereferences the missing error:
  the call panics, in a goroutine of its own, where nothing recovers it.
\<close>

theorem bad_request_without_error_panics:
  assumes "\<not> client_sem b" and "0 \<le> maxRetries b" and "Method q \<noteq> ConsensusGetReceiptsMethod"
    and "url_ok W (buildBackendURL (rpcURL b) [q] ctx)"
    and reply: "http_Do W e (Name b) (upstream_request (count_request L (w_now W e) b) ctx [q]) = (e1, Inr hr)"
      "StatusCode hr = 400" "ReadAll_limited (maxResponseSize b) hr = Inr body"
    and res: "json_RPCRes W body = Some r" "Error r = None"
  shows "Forward W L G ctx e b [q] isBatch = Panic ''nil pointer dereference''"
proof -
  have "nat (maxRetries b + 1) = Suc (nat (maxRetries b))" using assms(2) by simp
  moreover have "doForward W L G ctx e b [q] isBatch = Panic ''nil pointer dereference''"
    using assms by (simp add: doForward_def Let_def prepare_requests_def translate_request_def DoLimited_def
        handle_response_def parse_responses_def)
  ultimately show ?thesis by (simp add: Forward_def)
qed

theorem bad_request_without_error_panics_witness:
  "Forward (script_world (\<lambda>_. Some (NewRPCRes ''1'' NilVal)) (\<lambda>_. None)) alist_lhm geth_ref no_ctx
      \<lparr>sc_now = 0, sc_replies = [Inr (http_reply 400 ''body'')], sc_sem = []\<rparr> test_backend [call ''1'' ''eth_chainId''] False =
    Panic ''nil pointer dereference''"
proof -
  let ?W = "script_world (\<lambda>_. Some (NewRPCRes ''1'' NilVal)) (\<lambda>_. None)"
  let ?e = "\<lparr>sc_now = 0, sc_replies = [Inr (http_reply 400 ''body'')], sc_sem = []\<rparr>"
  have r: "http_Do ?W ?e (Name test_backend) (upstream_request (count_request alist_lhm (w_now ?W ?e) test_backend) no_ctx [call ''1'' ''eth_chainId'']) =
      (\<lparr>sc_now = time_Millisecond, sc_replies = [], sc_sem = []\<rparr>, Inr (http_reply 400 ''body''))"
    by (simp add: script_world_def)
  show ?thesis
    by (rule bad_request_without_error_panics [OF _ _ _ _ r, where body = "''body''" and r = "NewRPCRes ''1'' NilVal"])
      (simp_all add: forward_eval NewRPCRes_def)
qed

text \<open>
  Translation of \<open>consensus_getReceipts\<close>. For a backend with a supported target the method
  becomes the target and the block parameter is handed over as a string, and the id is recorded
  so that the result is wrapped with the method that produced it. The request is changed in
  place: on a retry, or with the next backend, it is no longer recognised, so it keeps the first
  backend's method and parameters and its result is not wrapped.
\<close>

theorem receipts_translated_once:
  assumes "Method q = ConsensusGetReceiptsMethod" and "target \<in> set conventional_targets"
    and "unmarshal_bnhs G (Params q) = Some (b # bs)" and "BlockNumber b = Some n"
  shows "\<exists>q'. prepare_requests G target [q] False = Return ([q'], [ID q], None) \<and>
    Method q' = target \<and> ID q' = ID q \<and> Params q' = Some (JArr [JStr (BlockNumber_String G n)]) \<and>
    (\<forall>target'. prepare_requests G target' [q'] False = Return ([q'], [], None))"
  using assms
  by (auto simp: prepare_requests_def translate_request_def translate_params_def conventional_targets_def
      ConsensusGetReceiptsMethod_def)

theorem receipts_translated_once_witness:
  "\<exists>q'. prepare_requests geth_ref ''eth_getBlockReceipts''
      [(call ''7'' ''consensus_getReceipts'')\<lparr>Params := Some (JArr [JStr ''0x64''])\<rparr>] False =
    Return ([q'], [''7''], None) \<and> Method q' = ''eth_getBlockReceipts''"
proof -
  let ?q = "(call ''7'' ''consensus_getReceipts'')\<lparr>Params := Some (JArr [JStr ''0x64''])\<rparr>"
  have p: "unmarshal_bnhs geth_ref (Params ?q) = Some (BlockNumberOrHashWithNumber 100 # [])"
    by (simp add: unmarshal_bnhs_def geth_ref_def ref_string_def hex_decode_def hex_digit_val_def hex_alphabet_def)
  show ?thesis
    using receipts_translated_once [OF _ _ p, of "''eth_getBlockReceipts''" 100]
    by (auto simp: call_def ConsensusGetReceiptsMethod_def conventional_targets_def BlockNumberOrHashWithNumber_def)
qed

text \<open>
  A client can crash the proxy where \<open>consensus_getReceipts\<close> is allowed: sent with an empty
  list of parameters (or null) to a backend with a supported target, it indexes the empty list and
  panics before anything is sent.
\<close>

theorem receipts_without_params_panic:
  assumes "Method q = ConsensusGetReceiptsMethod" and "unmarshal_slice (Params q) = Some []"
    and "receiptsTarget b \<in> set (ReceiptsTargetAlchemyGetTransactionReceipts # conventional_targets)"
    and "0 \<le> maxRetries b"
  shows "Forward W L G ctx e b [q] False = Panic ''index out of range''"
proof -
  have "nat (maxRetries b + 1) = Suc (nat (maxRetries b))" using assms(4) by simp
  moreover have "doForward W L G ctx e b [q] False = Panic ''index out of range''"
    using assms(1-3) by (auto simp: doForward_def Let_def prepare_requests_def translate_request_def translate_params_def
        unmarshal_bnhs_def conventional_targets_def ReceiptsTargetAlchemyGetTransactionReceipts_def)
  ultimately show ?thesis by (simp add: Forward_def)
qed

theorem receipts_without_params_panic_witness:
  "Forward (script_world (\<lambda>_. None) (\<lambda>_. None)) alist_lhm geth_ref no_ctx \<lparr>sc_now = 0, sc_replies = [], sc_sem = []\<rparr>
     (test_backend\<lparr>receiptsTarget := ''eth_getBlockReceipts''\<rparr>) [call ''7'' ''consensus_getReceipts''] False =
   Panic ''index out of range''"
  by (rule receipts_without_params_panic)
    (simp_all add: call_def ConsensusGetReceiptsMethod_def conventional_targets_def)

subsection \<open>Health from the events of a backend\<close>

text \<open>
  The windows of a backend after a history of requests sent, errors and answers, and what the
  health check makes of them: an error rate over the last five minutes once ten requests were
  sent, and the mean latency of the answers.
\<close>

datatype event = Sent Time | Failed Time | Answered Time Duration

fun ev_time :: "event \<Rightarrow> Time" where
  "ev_time (Sent t) = t"
| "ev_time (Failed t) = t"
| "ev_time (Answered t d) = t"

fun apply_event :: "'m lhm \<Rightarrow> event \<Rightarrow> 'm Backend \<Rightarrow> 'm Backend" where
  "apply_event L (Sent t) b = count_request L t b"
| "apply_event L (Failed t) b = count_error L t b"
| "apply_event L (Answered t d) b = count_latency L t d b"

fun sent_points :: "event \<Rightarrow> (Time \<times> rat) list" where
  "sent_points (Sent t) = [(t, 1)]" | "sent_points _ = []"

fun failed_points :: "event \<Rightarrow> (Time \<times> rat) list" where
  "failed_points (Failed t) = [(t, 1)]" | "failed_points _ = []"

fun answered_points :: "event \<Rightarrow> (Time \<times> rat) list" where
  "answered_points (Answered t d) = [(t, of_int d)]" | "answered_points _ = []"

definition recent :: "Time \<Rightarrow> (Time \<times> rat) list \<Rightarrow> rat list" where
  "recent now pts = map snd (filter (\<lambda>(t, v). time_Round now time_Second - 5 * time_Minute < time_Round t time_Second) pts)"

definition error_rate_spec :: "Time \<Rightarrow> event list \<Rightarrow> rat" where
  "error_rate_spec now evs =
     (let n = length (recent now (concat (map sent_points evs)));
          m = length (recent now (concat (map failed_points evs)))
      in if 10 \<le> n then of_nat m / of_nat n else 0)"

definition mean_latency_spec :: "Time \<Rightarrow> event list \<Rightarrow> rat" where
  "mean_latency_spec now evs =
     (let ds = recent now (concat (map answered_points evs)) in if ds = [] then 0 else sum_list ds / of_nat (length ds))"

lemma apply_events_windows:
  "networkRequestsSlidingWindow (fold (apply_event L) evs b) =
     add_points L (concat (map sent_points evs)) (networkRequestsSlidingWindow b)"
  "intermittentErrorsSlidingWindow (fold (apply_event L) evs b) =
     add_points L (concat (map failed_points evs)) (intermittentErrorsSlidingWindow b)"
  "latencySlidingWindow (fold (apply_event L) evs b) =
     add_points L (concat (map answered_points evs)) (latencySlidingWindow b)"
proof (induction evs arbitrary: b)
  case (Cons ev evs)
  case 1 show ?case using Cons.IH by (cases ev) (simp_all add: add_points_def count_request_def count_error_def count_latency_def Incr_def)
  case 2 show ?case using Cons.IH by (cases ev) (simp_all add: add_points_def count_request_def count_error_def count_latency_def Incr_def)
  case 3 show ?case using Cons.IH by (cases ev) (simp_all add: add_points_def count_request_def count_error_def count_latency_def Incr_def)
qed (simp_all add: add_points_def)

lemma apply_events_frame:
  "maxErrorRateThreshold (fold (apply_event L) evs b) = maxErrorRateThreshold b"
  "maxLatencyThreshold (fold (apply_event L) evs b) = maxLatencyThreshold b"
proof (induction evs arbitrary: b)
  case (Cons ev evs)
  case 1 show ?case using Cons.IH by (cases ev) (simp_all add: count_request_def count_error_def count_latency_def)
  case 2 show ?case using Cons.IH by (cases ev) (simp_all add: count_request_def count_error_def count_latency_def)
qed simp_all

lemma event_points:
  assumes "\<And>ev. map fst (f ev) = [] \<or> map fst (f ev) = [ev_time ev]" and "sorted (map ev_time evs)"
  shows "sorted (map fst (concat (map f evs))) \<and> fst ` set (concat (map f evs)) \<subseteq> ev_time ` set evs \<and>
    length (concat (map f evs)) \<le> length evs"
  using assms(2)
proof (induction evs)
  case (Cons ev evs)
  then have ih: "sorted (map fst (concat (map f evs)))" "fst ` set (concat (map f evs)) \<subseteq> ev_time ` set evs"
    "length (concat (map f evs)) \<le> length evs" by simp_all
  consider "f ev = []" | v where "f ev = [(ev_time ev, v)]"
    using assms(1) [of ev] by (cases "f ev") auto
  then show ?case
  proof cases
    case 1
    then show ?thesis using ih by (simp del: set_concat) blast
  next
    case 2
    have "ev_time ev \<le> fst p" if "p \<in> set (concat (map f evs))" for p
    proof -
      have "fst p \<in> ev_time ` set evs" using ih that by blast
      then show ?thesis using Cons.prems by auto
    qed
    then show ?thesis using 2 ih by (simp del: set_concat) blast
  qed
qed simp

lemma default_window:
  assumes "linked_hash_map L" and s: "sorted (map fst pts)" and now: "\<forall>p\<in>set pts. fst p \<le> now" and len: "length pts < 2 ^ 64"
  shows "Sum L now (add_points L pts (NewSlidingWindow L [])) = sum_list (recent now pts)"
    and "Avg L now (add_points L pts (NewSlidingWindow L [])) =
      (if recent now pts = [] then 0 else sum_list (recent now pts) / of_nat (length (recent now pts)))"
proof -
  let ?sw = "NewSlidingWindow L []"
  have cfg: "lm_Keys L (buckets ?sw) = []" "sw_sum ?sw = 0" "sw_qty ?sw = 0" "0 < windowLength ?sw"
    using linked_hash_map.keys_new [OF assms(1)] by (simp_all add: NewSlidingWindow_def Let_def go_time)
  have wp: "map snd (window_points ?sw now pts) = recent now pts"
    by (simp add: window_points_def windowStart_def recent_def NewSlidingWindow_def Let_def)
  note rel = linked_hash_map.points_rel_new [OF assms(1) cfg(1-3)]
  note q = linked_hash_map.window_sum_count [OF assms(1) rel cfg(4) cfg(1) s now, unfolded wp]
  show "Sum L now (add_points L pts ?sw) = sum_list (recent now pts)" using q(1) .
  have l: "length (window_points ?sw now pts) = length (recent now pts)" using arg_cong [OF wp, of length] by simp
  have "length (recent now pts) \<le> length pts" by (simp add: recent_def)
  then have n: "length (recent now pts) < 2 ^ 64" using len by simp
  then have "unat (of_nat (length (recent now pts)) :: u64) = length (recent now pts)" by (rule unat_u64_of_nat)
  moreover have "(of_nat (length (recent now pts)) :: u64) = 0 \<longleftrightarrow> recent now pts = []"
    using n by (auto simp: word_of_nat_eq_0_iff dest: nat_dvd_not_less)
  ultimately show "Avg L now (add_points L pts ?sw) =
      (if recent now pts = [] then 0 else sum_list (recent now pts) / of_nat (length (recent now pts)))"
    using q l by (simp add: Avg_def Sum_def Count_def Let_def)
qed

lemma recent_ones: "\<forall>p\<in>set pts. snd p = 1 \<Longrightarrow> sum_list (recent now pts) = of_nat (length (recent now pts))"
  by (induction pts) (auto simp: recent_def)

text \<open>
  C31. The health of a backend is what its history says. For a history in time order, over windows
  that start empty, a backend is healthy exactly when its error rate, the share of the requests
  of the last five minutes that failed once there are ten of them, is below its threshold and the
  mean latency of the answers of the last five minutes is below its threshold.
\<close>

theorem health_from_history:
  assumes L: "linked_hash_map L" and "sorted (map ev_time evs)" and "\<forall>ev\<in>set evs. ev_time ev \<le> now"
    and "length evs < 2 ^ 64"
    and fresh: "networkRequestsSlidingWindow b = NewSlidingWindow L []"
      "intermittentErrorsSlidingWindow b = NewSlidingWindow L []" "latencySlidingWindow b = NewSlidingWindow L []"
  shows "ErrorRate L now (fold (apply_event L) evs b) = error_rate_spec now evs \<and>
    (IsHealthy L now (fold (apply_event L) evs b) \<longleftrightarrow>
       error_rate_spec now evs < maxErrorRateThreshold b \<and> \<lfloor>mean_latency_spec now evs\<rfloor> < maxLatencyThreshold b)"
proof -
  let ?b = "fold (apply_event L) evs b"
  have ev: "sorted (map fst (concat (map f evs)))" "\<forall>p\<in>set (concat (map f evs)). fst p \<le> now"
      "length (concat (map f evs)) < 2 ^ 64" if "\<And>ev. map fst (f ev) = [] \<or> map fst (f ev) = [ev_time ev]"
    for f :: "event \<Rightarrow> (Time \<times> rat) list"
  proof -
    note e = event_points [OF that assms(2)]
    show "sorted (map fst (concat (map f evs)))" using e by blast
    show "length (concat (map f evs)) < 2 ^ 64" using e assms(4) by linarith
    show "\<forall>p\<in>set (concat (map f evs)). fst p \<le> now"
    proof
      fix p assume "p \<in> set (concat (map f evs))"
      then have "fst p \<in> ev_time ` set evs" using e by blast
      then show "fst p \<le> now" using assms(3) by auto
    qed
  qed
  have sp: "map fst (sent_points x) = [] \<or> map fst (sent_points x) = [ev_time x]" for x by (cases x) simp_all
  have fp: "map fst (failed_points x) = [] \<or> map fst (failed_points x) = [ev_time x]" for x by (cases x) simp_all
  have ap: "map fst (answered_points x) = [] \<or> map fst (answered_points x) = [ev_time x]" for x by (cases x) simp_all
  have one: "\<forall>p\<in>set (sent_points x). snd p = 1" "\<forall>p\<in>set (failed_points x). snd p = 1" for x by (cases x; simp)+
  have n: "Sum L now (networkRequestsSlidingWindow ?b) = of_nat (length (recent now (concat (map sent_points evs))))"
    using default_window(1) [OF L ev [OF sp]] recent_ones [of "concat (map sent_points evs)" now] one fresh
    by (simp add: apply_events_windows)
  have m: "Sum L now (intermittentErrorsSlidingWindow ?b) = of_nat (length (recent now (concat (map failed_points evs))))"
    using default_window(1) [OF L ev [OF fp]] recent_ones [of "concat (map failed_points evs)" now] one fresh
    by (simp add: apply_events_windows)
  have rate: "ErrorRate L now ?b = error_rate_spec now evs"
    unfolding ErrorRate_def error_rate_spec_def n m Let_def by simp
  moreover have "Avg L now (latencySlidingWindow ?b) = mean_latency_spec now evs"
    using default_window(2) [OF L ev [OF ap]] fresh by (simp add: apply_events_windows mean_latency_spec_def Let_def)
  ultimately show ?thesis by (auto simp: IsHealthy_def avgLatency_def apply_events_frame not_le)
qed

theorem health_from_history_witness:
  "\<not> IsHealthy alist_lhm (9 * time_Minute)
      (fold (apply_event alist_lhm) (Failed 0 # replicate 10 (Sent (8 * time_Minute)) @ replicate 5 (Failed (8 * time_Minute))) test_backend) \<and>
   IsHealthy alist_lhm (9 * time_Minute)
      (fold (apply_event alist_lhm) (Failed 0 # replicate 10 (Sent (8 * time_Minute)) @ replicate 4 (Failed (8 * time_Minute))) test_backend)"
proof -
  have f: "networkRequestsSlidingWindow test_backend = NewSlidingWindow alist_lhm []"
    "intermittentErrorsSlidingWindow test_backend = NewSlidingWindow alist_lhm []"
    "latencySlidingWindow test_backend = NewSlidingWindow alist_lhm []"
    "maxErrorRateThreshold test_backend = 1 / 2" "maxLatencyThreshold test_backend = 10 * time_Second"
    by (simp_all add: test_backend_def NewBackend_def Override_def)
  have *: "IsHealthy alist_lhm (9 * time_Minute)
      (fold (apply_event alist_lhm) (Failed 0 # replicate 10 (Sent (8 * time_Minute)) @ replicate n (Failed (8 * time_Minute))) test_backend) \<longleftrightarrow>
    error_rate_spec (9 * time_Minute) (Failed 0 # replicate 10 (Sent (8 * time_Minute)) @ replicate n (Failed (8 * time_Minute))) < 1 / 2 \<and>
    \<lfloor>mean_latency_spec (9 * time_Minute) (Failed 0 # replicate 10 (Sent (8 * time_Minute)) @ replicate n (Failed (8 * time_Minute)))\<rfloor> < 10 * time_Second"
    if "n < 100" for n
    using health_from_history [OF alist.linked_hash_map_axioms _ _ _ f(1-3),
        of "Failed 0 # replicate 10 (Sent (8 * time_Minute)) @ replicate n (Failed (8 * time_Minute))" "9 * time_Minute"] that f(4,5)
    by (simp add: sorted_append time_Minute_def)
  have rep: "concat (map sent_points (replicate n (Sent t))) = replicate n (t, 1)"
    "concat (map sent_points (replicate n (Failed t))) = []" "concat (map failed_points (replicate n (Sent t))) = []"
    "concat (map failed_points (replicate n (Failed t))) = replicate n (t, 1)"
    "concat (map answered_points (replicate n (Sent t))) = []" "concat (map answered_points (replicate n (Failed t))) = []" for n t
    by (induction n) simp_all
  have rate: "error_rate_spec (9 * time_Minute) (Failed 0 # replicate 10 (Sent (8 * time_Minute)) @ replicate n (Failed (8 * time_Minute))) =
      of_nat n / 10"
    "mean_latency_spec (9 * time_Minute) (Failed 0 # replicate 10 (Sent (8 * time_Minute)) @ replicate n (Failed (8 * time_Minute))) = 0" for n
    by (simp_all add: error_rate_spec_def mean_latency_spec_def recent_def rep filter_replicate go_time del: map_replicate)
  show ?thesis using * [of 5] * [of 4] rate by (simp add: time_Second_def)
qed

subsection \<open>What a call leaves alone\<close>

text \<open>A call changes nothing of a backend but its sliding windows.\<close>

definition same_config :: "'m Backend \<Rightarrow> 'm Backend \<Rightarrow> bool" where
  "same_config b b' \<longleftrightarrow> b' = b\<lparr>latencySlidingWindow := latencySlidingWindow b',
     networkRequestsSlidingWindow := networkRequestsSlidingWindow b',
     intermittentErrorsSlidingWindow := intermittentErrorsSlidingWindow b'\<rparr>"

lemma same_config_refl [simp]: "same_config b b"
  by (simp add: same_config_def)

lemma same_config_trans: "same_config a b \<Longrightarrow> same_config b c \<Longrightarrow> same_config a c"
  unfolding same_config_def by (cases a; cases b; cases c) simp

lemma same_config_count [simp]:
  "same_config b (count_request L now b)" "same_config b (count_error L now b)" "same_config b (count_latency L now d b)"
  by (simp_all add: same_config_def count_request_def count_error_def count_latency_def)

lemma same_config_fields:
  assumes "same_config b b'"
  shows "Name b' = Name b" "rpcURL b' = rpcURL b" "forcedCandidate b' = forcedCandidate b" "weight b' = weight b"
    "skipPeerCountCheck b' = skipPeerCountCheck b" "maxRetries b' = maxRetries b" "client_sem b' = client_sem b"
    "maxResponseSize b' = maxResponseSize b" "receiptsTarget b' = receiptsTarget b"
  using assms unfolding same_config_def by (cases b; cases b'; simp)+

lemma handle_response_config:
  "handle_response W L b e start reqs ids hr = Return (e', b', reqs', r) \<Longrightarrow> same_config b b' \<and> e' = e"
  by (auto simp: handle_response_def Let_def go_outcome split: if_splits sum.splits)

lemma doForward_config:
  assumes "doForward W L G ctx e b reqs isBatch = Return (e', b', reqs', r)"
  shows "same_config b b'"
proof -
  let ?b = "count_request L (w_now W e) b"
  obtain qs ids pe where p: "prepare_requests G (receiptsTarget ?b) reqs isBatch = Return (qs, ids, pe)"
    using assms by (auto simp: doForward_def Let_def go_outcome)
  have "same_config ?b b'"
  proof (cases "DoLimited W ?b e (upstream_request ?b ctx qs)")
    case (Pair e1 x)
    then show ?thesis using assms p handle_response_config [of W L ?b e1 "w_now W e" qs ids _ e' b' reqs' r]
      by (cases x) (auto simp: doForward_def Let_def split: option.splits if_splits)
  qed
  then show ?thesis using same_config_trans same_config_count(1) by blast
qed

lemma forward_loop_config:
  "forward_loop W L G ctx isBatch n i lastError e b reqs = Return (e', b', reqs', r) \<Longrightarrow> same_config b b'"
proof (induction n arbitrary: i lastError e b reqs)
  case (Suc n)
  obtain e1 b1 reqs1 x where f: "doForward W L G ctx e b reqs isBatch = Return (e1, b1, reqs1, x)"
    using Suc.prems by (auto simp: go_outcome split: if_splits)
  have "same_config b1 b'"
    using Suc.prems f Suc.IH [of "Suc i"] by (cases x) (auto simp: Let_def split: if_splits)
  then show ?case using doForward_config [OF f] same_config_trans by blast
qed simp

lemma Forward_config: "Forward W L G ctx e b reqs isBatch = Return (e', b', reqs', r) \<Longrightarrow> same_config b b'"
  unfolding Forward_def by (rule forward_loop_config)

lemma ForwardRPC_config: "ForwardRPC W L G ctx e b i m ps = Return (e', b', r) \<Longrightarrow> same_config b b'"
  by (auto simp: ForwardRPC_def Let_def go_outcome dest: doForward_config)

text \<open>A world whose clock does not go back.\<close>

locale steady_world =
  fixes W :: "'e World"
  assumes sleep_later: "0 \<le> d \<Longrightarrow> w_now W e \<le> w_now W (w_sleep W e d)"
    and random_later: "w_now W e \<le> w_now W (fst (w_Int63n W e n))"
    and order_later: "w_now W e \<le> w_now W (fst (w_order W e xs))"
    and acquire_later: "w_now W e \<le> w_now W (fst (sem_Acquire W e))"
    and release_later: "w_now W e \<le> w_now W (sem_Release W e)"
    and http_later: "w_now W e \<le> w_now W (fst (http_Do W e name req))"
begin

lemma DoLimited_later: "DoLimited W b e req = (e', r) \<Longrightarrow> w_now W e \<le> w_now W e'"
proof -
  assume d: "DoLimited W b e req = (e', r)"
  obtain e1 a where a: "sem_Acquire W e = (e1, a)" by (metis surj_pair)
  obtain e2 h where h: "http_Do W e1 (Name b) req = (e2, h)" by (metis surj_pair)
  have "w_now W e \<le> w_now W e1" "w_now W e1 \<le> w_now W e2" "w_now W e2 \<le> w_now W (sem_Release W e2)"
    using acquire_later [of e] http_later [of e1 "Name b" req] release_later [of e2] a h by simp_all
  then show ?thesis using d a h http_later [of e "Name b" req]
    by (auto simp: DoLimited_def split: if_splits option.splits)
qed

lemma doForward_later:
  assumes "doForward W L G ctx e b reqs isBatch = Return (e', b', reqs', r)"
  shows "w_now W e \<le> w_now W e'"
proof -
  let ?b = "count_request L (w_now W e) b"
  obtain qs ids pe where p: "prepare_requests G (receiptsTarget ?b) reqs isBatch = Return (qs, ids, pe)"
    using assms by (auto simp: doForward_def Let_def go_outcome)
  show ?thesis
  proof (cases "DoLimited W ?b e (upstream_request ?b ctx qs)")
    case (Pair e1 x)
    then show ?thesis using assms p DoLimited_later [OF Pair] handle_response_config [of W L ?b e1 "w_now W e" qs ids _ e' b' reqs' r]
      by (cases x) (auto simp: doForward_def Let_def split: option.splits if_splits)
  qed
qed

lemma ForwardRPC_later: "ForwardRPC W L G ctx e b i m ps = Return (e', b', r) \<Longrightarrow> w_now W e \<le> w_now W e'"
  by (auto simp: ForwardRPC_def Let_def go_outcome dest: doForward_later)

end

interpretation script: steady_world "script_world single batch" for single batch
  by unfold_locales (simp_all add: script_world_def time_Millisecond_def)

end
