(* ===== verification/Consensus_Poller.thy ===== *)
theory Consensus_Poller
  imports Backend Consensus_Tracker
begin

section \<open>The consensus poller\<close>

text \<open>
  Models \<^verbatim>\<open>src/consensus_poller.go\<close> and the part of \<open>BackendGroup\<close> it looks at. A backend
  pointer is its name: the poller and the group hold names, and the backends are a store
  \<open>bes\<close> from names to records. The goroutines of the poller call \<open>UpdateBackend\<close> and
  \<open>UpdateBackendGroupConsensus\<close>, each a step on the world, the store and the poller.
\<close>

subsection \<open>Backend groups\<close>

datatype RoutingStrategy = ConsensusAwareRoutingStrategy | MulticallRoutingStrategy | FallbackRoutingStrategy

record BackendGroup =
  bg_Name :: string
  Backends :: "string list"
  WeightedRouting :: bool
  FallbackBackends :: "(string \<times> bool) list"
  routingStrategy :: RoutingStrategy
  multicallRPCErrorCheck :: bool

definition Fallbacks :: "BackendGroup \<Rightarrow> string list" where
  "Fallbacks bg = filter (\<lambda>a. map_of (FallbackBackends bg) a = Some True) (Backends bg)"

definition Primaries :: "BackendGroup \<Rightarrow> string list" where
  "Primaries bg = filter (\<lambda>a. map_of (FallbackBackends bg) a = Some False) (Backends bg)"

subsection \<open>The poller and its options\<close>

record backendState =
  latestBlockNumber :: u64
  latestBlockHash :: string
  safeBlockNumber :: u64
  finalizedBlockNumber :: u64
  peerCount :: u64
  inSync :: bool
  lastUpdate :: Time
  bannedUntil :: Time

definition new_backendState :: backendState where
  "new_backendState = \<lparr>latestBlockNumber = 0, latestBlockHash = [], safeBlockNumber = 0, finalizedBlockNumber = 0,
     peerCount = 0, inSync = False, lastUpdate = 0, bannedUntil = 0\<rparr>"

record ('e, 't) ConsensusPoller =
  listeners :: "('e \<Rightarrow> 'e) list"
  backendState_of :: "string \<Rightarrow> backendState"
  consensusGroup :: "string list"
  cp_tracker :: 't
  minPeerCount :: u64
  banPeriod :: Duration
  maxUpdateThreshold :: Duration
  maxBlockLag :: u64
  maxBlockRange :: u64
  interval :: Duration

type_synonym ('e, 't) ConsensusOpt = "('e, 't) ConsensusPoller \<Rightarrow> ('e, 't) ConsensusPoller"

definition AddListener :: "('e \<Rightarrow> 'e) \<Rightarrow> ('e, 't) ConsensusOpt" where
  "AddListener l cp = cp\<lparr>listeners := listeners cp @ [l]\<rparr>"

definition ClearListeners :: "('e, 't) ConsensusOpt" where
  "ClearListeners cp = cp\<lparr>listeners := []\<rparr>"

definition WithTracker :: "'t \<Rightarrow> ('e, 't) ConsensusOpt" where
  "WithTracker t cp = cp\<lparr>cp_tracker := t\<rparr>"

definition WithBanPeriod :: "Duration \<Rightarrow> ('e, 't) ConsensusOpt" where
  "WithBanPeriod d cp = cp\<lparr>banPeriod := d\<rparr>"

definition WithMaxUpdateThreshold :: "Duration \<Rightarrow> ('e, 't) ConsensusOpt" where
  "WithMaxUpdateThreshold d cp = cp\<lparr>maxUpdateThreshold := d\<rparr>"

definition WithMaxBlockLag :: "u64 \<Rightarrow> ('e, 't) ConsensusOpt" where
  "WithMaxBlockLag n cp = cp\<lparr>maxBlockLag := n\<rparr>"

definition WithMaxBlockRange :: "u64 \<Rightarrow> ('e, 't) ConsensusOpt" where
  "WithMaxBlockRange n cp = cp\<lparr>maxBlockRange := n\<rparr>"

definition WithMinPeerCount :: "u64 \<Rightarrow> ('e, 't) ConsensusOpt" where
  "WithMinPeerCount n cp = cp\<lparr>minPeerCount := n\<rparr>"

definition WithPollerInterval :: "Duration \<Rightarrow> ('e, 't) ConsensusOpt" where
  "WithPollerInterval d cp = cp\<lparr>interval := d\<rparr>"

definition Reset :: "BackendGroup \<Rightarrow> ('e, 't) ConsensusOpt" where
  "Reset bg cp = cp\<lparr>backendState_of := fold (\<lambda>be st. st(be := new_backendState)) (Backends bg) (backendState_of cp)\<rparr>"

definition NewConsensusPoller :: "BackendGroup \<Rightarrow> 't \<Rightarrow> ('e, 't) ConsensusOpt list \<Rightarrow> ('e, 't) ConsensusPoller" where
  "NewConsensusPoller bg t0 opts =
     Reset bg (fold (\<lambda>opt cp. opt cp) opts
       \<lparr>listeners = [], backendState_of = (\<lambda>_. new_backendState), consensusGroup = [], cp_tracker = t0,
        minPeerCount = 3, banPeriod = 5 * time_Minute, maxUpdateThreshold = 30 * time_Second, maxBlockLag = 8,
        maxBlockRange = 0, interval = time_Second\<rparr>)"

definition set_state :: "string \<Rightarrow> backendState \<Rightarrow> ('e, 't) ConsensusOpt" where
  "set_state be bs cp = cp\<lparr>backendState_of := (backendState_of cp)(be := bs)\<rparr>"

definition bs_IsBanned :: "Time \<Rightarrow> backendState \<Rightarrow> bool" where
  "bs_IsBanned now bs \<longleftrightarrow> now < bannedUntil bs"

definition cp_IsBanned :: "Time \<Rightarrow> string \<Rightarrow> ('e, 't) ConsensusPoller \<Rightarrow> bool" where
  "cp_IsBanned now be cp = bs_IsBanned now (backendState_of cp be)"

definition Ban :: "Time \<Rightarrow> string \<Rightarrow> 'm Backend \<Rightarrow> ('e, 't) ConsensusOpt" where
  "Ban now be b cp =
     (if forcedCandidate b then cp
      else set_state be ((backendState_of cp be)\<lparr>bannedUntil := now + banPeriod cp, latestBlockNumber := 0,
             safeBlockNumber := 0, finalizedBlockNumber := 0\<rparr>) cp)"

definition Unban :: "Time \<Rightarrow> string \<Rightarrow> ('e, 't) ConsensusOpt" where
  "Unban now be cp = set_state be ((backendState_of cp be)\<lparr>bannedUntil := now - 10 * time_Hour\<rparr>) cp"

definition setBackendState ::
  "Time \<Rightarrow> string \<Rightarrow> u64 \<Rightarrow> bool \<Rightarrow> u64 \<Rightarrow> string \<Rightarrow> u64 \<Rightarrow> u64 \<Rightarrow> ('e, 't) ConsensusOpt" where
  "setBackendState now be pc sync latest hash safe fin cp =
     set_state be ((backendState_of cp be)\<lparr>peerCount := pc, inSync := sync, latestBlockNumber := latest,
       latestBlockHash := hash, finalizedBlockNumber := fin, safeBlockNumber := safe, lastUpdate := now\<rparr>) cp"

subsection \<open>Asking a backend\<close>

type_synonym ('e, 'm, 'a) fetch_result = "('e \<times> 'm Backend \<times> (err + 'a)) outcome"

definition MustDecodeUint64 :: "geth \<Rightarrow> string \<Rightarrow> u64 outcome" where
  "MustDecodeUint64 G s = (case DecodeUint64 G s of Some n \<Rightarrow> Return n | None \<Rightarrow> Panic ''invalid hex string'')"

definition as_string :: "json \<Rightarrow> string outcome" where
  "as_string v = (case v of JStr s \<Rightarrow> Return s | _ \<Rightarrow> Panic ''interface conversion'')"

definition go_map_index :: "(string \<times> json) list \<Rightarrow> string \<Rightarrow> json" where
  "go_map_index m key = (case map_of m key of None \<Rightarrow> JNull | Some v \<Rightarrow> v)"

definition fetchBlock ::
  "'e World \<Rightarrow> 'm lhm \<Rightarrow> geth \<Rightarrow> Ctx \<Rightarrow> 'e \<Rightarrow> 'm Backend \<Rightarrow> string \<Rightarrow> ('e, 'm, u64 \<times> string) fetch_result" where
  "fetchBlock W L G ctx e b block =
     obind (ForwardRPC W L G ctx e b ''67'' ''eth_getBlockByNumber'' [JStr block, JBool False]) (\<lambda>(e1, b1, r).
       case r of
         Inl err \<Rightarrow> Return (e1, b1, Inl err)
       | Inr res \<Rightarrow>
           (case Result res of
              Val (JObj m) \<Rightarrow>
                obind (as_string (go_map_index m ''number'')) (\<lambda>s.
                obind (MustDecodeUint64 G s) (\<lambda>n.
                obind (as_string (go_map_index m ''hash'')) (\<lambda>h. Return (e1, b1, Inr (n, h)))))
            | _ \<Rightarrow> Return (e1, b1, Inl (Errorf (''unexpected response to eth_getBlockByNumber on backend '' @ Name b)))))"

definition getPeerCount ::
  "'e World \<Rightarrow> 'm lhm \<Rightarrow> geth \<Rightarrow> Ctx \<Rightarrow> 'e \<Rightarrow> 'm Backend \<Rightarrow> ('e, 'm, u64) fetch_result" where
  "getPeerCount W L G ctx e b =
     obind (ForwardRPC W L G ctx e b ''67'' ''net_peerCount'' []) (\<lambda>(e1, b1, r).
       case r of
         Inl err \<Rightarrow> Return (e1, b1, Inl err)
       | Inr res \<Rightarrow>
           (case Result res of
              Val (JStr s) \<Rightarrow> obind (MustDecodeUint64 G s) (\<lambda>n. Return (e1, b1, Inr n))
            | _ \<Rightarrow> Return (e1, b1, Inl (Errorf (''unexpected response to net_peerCount on backend '' @ Name b)))))"

definition ParseBool :: "string \<Rightarrow> bool option" where
  "ParseBool s =
     (if s \<in> set [''1'', ''t'', ''T'', ''TRUE'', ''true'', ''True''] then Some True
      else if s \<in> set [''0'', ''f'', ''F'', ''FALSE'', ''false'', ''False''] then Some False
      else None)"

definition isInSync ::
  "'e World \<Rightarrow> 'm lhm \<Rightarrow> geth \<Rightarrow> Ctx \<Rightarrow> 'e \<Rightarrow> 'm Backend \<Rightarrow> ('e, 'm, bool) fetch_result" where
  "isInSync W L G ctx e b =
     obind (ForwardRPC W L G ctx e b ''67'' ''eth_syncing'' []) (\<lambda>(e1, b1, r).
       case r of
         Inl err \<Rightarrow> Return (e1, b1, Inl err)
       | Inr res \<Rightarrow>
           (case Result res of
              Val (JBool syncing) \<Rightarrow> Return (e1, b1, Inr (\<not> syncing))
            | Val (JStr s) \<Rightarrow>
                (case ParseBool s of
                   None \<Rightarrow> Return (e1, b1, Inl (Errorf ''strconv.ParseBool: invalid syntax''))
                 | Some syncing \<Rightarrow> Return (e1, b1, Inr (\<not> syncing)))
            | _ \<Rightarrow> Return (e1, b1, Inr False)))"

subsection \<open>Updating one backend\<close>

text \<open>
  The questions to a backend, in order. An error, or a zero where none is expected, ends the
  update; a zero also counts as an error of the backend.
\<close>

definition or_stop ::
  "('e, 'm, 'a) fetch_result \<Rightarrow> ('e \<Rightarrow> 'm Backend \<Rightarrow> 'a \<Rightarrow> ('e \<times> 'm Backend \<times> 'b option) outcome)
    \<Rightarrow> ('e \<times> 'm Backend \<times> 'b option) outcome" where
  "or_stop m k = obind m (\<lambda>(e, b, r). case r of Inl err \<Rightarrow> Return (e, b, None) | Inr v \<Rightarrow> k e b v)"

definition stop_if_zero ::
  "'e World \<Rightarrow> 'm lhm \<Rightarrow> 'e \<Rightarrow> 'm Backend \<Rightarrow> u64 \<Rightarrow> ('e \<times> 'm Backend \<times> 'b option) outcome
    \<Rightarrow> ('e \<times> 'm Backend \<times> 'b option) outcome" where
  "stop_if_zero W L e b n k = (if n = 0 then Return (e, count_error L (w_now W e) b, None) else k)"

record poll_answer =
  pa_inSync :: bool
  pa_peerCount :: u64
  pa_latest :: u64
  pa_hash :: string
  pa_safe :: u64
  pa_finalized :: u64

definition poll_blocks ::
  "'e World \<Rightarrow> 'm lhm \<Rightarrow> geth \<Rightarrow> Ctx \<Rightarrow> bool \<Rightarrow> u64 \<Rightarrow> 'e \<Rightarrow> 'm Backend \<Rightarrow> ('e \<times> 'm Backend \<times> poll_answer option) outcome" where
  "poll_blocks W L G ctx sync pc e b =
     or_stop (fetchBlock W L G ctx e b ''latest'') (\<lambda>e b (latest, hash). stop_if_zero W L e b latest
     (or_stop (fetchBlock W L G ctx e b ''safe'') (\<lambda>e b (safe, _). stop_if_zero W L e b safe
     (or_stop (fetchBlock W L G ctx e b ''finalized'') (\<lambda>e b (fin, _). stop_if_zero W L e b fin
       (Return (e, b, Some \<lparr>pa_inSync = sync, pa_peerCount = pc, pa_latest = latest, pa_hash = hash,
          pa_safe = safe, pa_finalized = fin\<rparr>)))))))"

definition poll_backend ::
  "'e World \<Rightarrow> 'm lhm \<Rightarrow> geth \<Rightarrow> Ctx \<Rightarrow> 'e \<Rightarrow> 'm Backend \<Rightarrow> ('e \<times> 'm Backend \<times> poll_answer option) outcome" where
  "poll_backend W L G ctx e b =
     or_stop (isInSync W L G ctx e b) (\<lambda>e b sync.
       if skipPeerCountCheck b then poll_blocks W L G ctx sync 0 e b
       else or_stop (getPeerCount W L G ctx e b) (\<lambda>e b pc. stop_if_zero W L e b pc (poll_blocks W L G ctx sync pc e b)))"

definition checkExpectedBlockTags :: "u64 \<Rightarrow> u64 \<Rightarrow> u64 \<Rightarrow> u64 \<Rightarrow> u64 \<Rightarrow> u64 \<Rightarrow> u64 \<Rightarrow> bool" where
  "checkExpectedBlockTags safeDrift finDrift currentLatest oldSafe currentSafe oldFinalized currentFinalized =
     (let minSafe = (if oldSafe > safeDrift then oldSafe - safeDrift else oldSafe);
          minFinalized = (if oldFinalized > finDrift then oldFinalized - finDrift else oldFinalized)
      in currentFinalized \<ge> minFinalized \<and> currentSafe \<ge> minSafe \<and> currentFinalized \<le> currentSafe \<and>
         currentSafe \<le> currentLatest)"

type_synonym ('e, 'm, 't) poller_state = "'e \<times> (string \<Rightarrow> 'm Backend) \<times> ('e, 't) ConsensusPoller"

definition accept_poll :: "Time \<Rightarrow> string \<Rightarrow> 'm Backend \<Rightarrow> backendState \<Rightarrow> poll_answer \<Rightarrow> ('e, 't) ConsensusOpt" where
  "accept_poll now be b bs a cp =
     (let cp1 = setBackendState now be (pa_peerCount a) (pa_inSync a) (pa_latest a) (pa_hash a) (pa_safe a) (pa_finalized a) cp;
          expected = checkExpectedBlockTags (safeBlockDriftThreshold b) (finalizedBlockDriftThreshold b) (pa_latest a)
            (safeBlockNumber bs) (pa_safe a) (finalizedBlockNumber bs) (pa_finalized a)
      in if \<not> expected \<and> \<not> forcedCandidate b then Ban now be b cp1 else cp1)"

definition UpdateBackend ::
  "'e World \<Rightarrow> 'm lhm \<Rightarrow> geth \<Rightarrow> Ctx \<Rightarrow> string \<Rightarrow> ('e, 'm, 't) poller_state \<Rightarrow> ('e, 'm, 't) poller_state outcome" where
  "UpdateBackend W L G ctx be st =
     (case st of (e, bes, cp) \<Rightarrow>
      let bs = backendState_of cp be; b = bes be; now = w_now W e
      in if bs_IsBanned now bs then Return (e, bes, cp)
         else if \<not> IsHealthy L now b \<and> \<not> forcedCandidate b then Return (e, bes, Ban now be b cp)
         else obind (poll_backend W L G ctx e b) (\<lambda>(e1, b1, r).
           case r of
             None \<Rightarrow> Return (e1, bes(be := b1), cp)
           | Some a \<Rightarrow> Return (e1, bes(be := b1), accept_poll (w_now W e1) be b1 bs a cp)))"

subsection \<open>The candidates\<close>

definition eligible :: "'m lhm \<Rightarrow> Time \<Rightarrow> ('e, 't) ConsensusPoller \<Rightarrow> 'm Backend \<Rightarrow> backendState \<Rightarrow> bool" where
  "eligible L now cp b bs =
     (if forcedCandidate b then True
      else if bs_IsBanned now bs then False
      else if \<not> IsHealthy L now b then False
      else if \<not> skipPeerCountCheck b \<and> peerCount bs < minPeerCount cp then False
      else if \<not> skipIsSyncingCheck b \<and> \<not> inSync bs then False
      else if lastUpdate bs + maxUpdateThreshold cp < now then False
      else True)"

definition highest_latest :: "(string \<times> backendState) list \<Rightarrow> u64" where
  "highest_latest cs = fold (\<lambda>(be, bs) h. if latestBlockNumber bs > h then latestBlockNumber bs else h) cs 0"

definition FilterCandidates ::
  "'m lhm \<Rightarrow> Time \<Rightarrow> (string \<Rightarrow> 'm Backend) \<Rightarrow> ('e, 't) ConsensusPoller \<Rightarrow> string list \<Rightarrow> (string \<times> backendState) list" where
  "FilterCandidates L now bes cp names =
     (let candidates = map (\<lambda>be. (be, backendState_of cp be))
            (filter (\<lambda>be. eligible L now cp (bes be) (backendState_of cp be)) names);
          highest = highest_latest candidates
      in filter (\<lambda>(be, bs). \<not> (highest - latestBlockNumber bs > maxBlockLag cp)) candidates)"

definition getConsensusCandidates ::
  "'m lhm \<Rightarrow> Time \<Rightarrow> BackendGroup \<Rightarrow> (string \<Rightarrow> 'm Backend) \<Rightarrow> ('e, 't) ConsensusPoller \<Rightarrow> (string \<times> backendState) list" where
  "getConsensusCandidates L now bg bes cp =
     (let healthyPrimaries = FilterCandidates L now bes cp (Primaries bg)
      in if healthyPrimaries \<noteq> [] then healthyPrimaries else FilterCandidates L now bes cp (Fallbacks bg))"

subsection \<open>Updating the consensus of the group\<close>

record lowest_blocks =
  lowestLatestBlock :: u64
  lowestLatestBlockHash :: string
  lowestFinalizedBlock :: u64
  lowestSafeBlock :: u64

definition lowest_step :: "backendState \<Rightarrow> lowest_blocks \<Rightarrow> lowest_blocks" where
  "lowest_step bs l =
     (let l1 = (if lowestLatestBlock l = 0 \<or> latestBlockNumber bs < lowestLatestBlock l
                then l\<lparr>lowestLatestBlock := latestBlockNumber bs, lowestLatestBlockHash := latestBlockHash bs\<rparr> else l);
          l2 = (if lowestFinalizedBlock l1 = 0 \<or> finalizedBlockNumber bs < lowestFinalizedBlock l1
                then l1\<lparr>lowestFinalizedBlock := finalizedBlockNumber bs\<rparr> else l1)
      in if lowestSafeBlock l2 = 0 \<or> safeBlockNumber bs < lowestSafeBlock l2
         then l2\<lparr>lowestSafeBlock := safeBlockNumber bs\<rparr> else l2)"

definition lowest :: "backendState list \<Rightarrow> lowest_blocks" where
  "lowest bss = fold lowest_step bss
     \<lparr>lowestLatestBlock = 0, lowestLatestBlockHash = [], lowestFinalizedBlock = 0, lowestSafeBlock = 0\<rparr>"

text \<open>
  One round over the candidates on a proposed block: whether all that answered agreed, whether one of them
  broke the current consensus, and the hash of the block. \<open>fetch\<close> asks a candidate.
\<close>

type_synonym 's block_fetch = "'s \<Rightarrow> string \<Rightarrow> u64 \<Rightarrow> ('s \<times> (err + u64 \<times> string)) outcome"

fun agree_round ::
  "'s block_fetch \<Rightarrow> u64 \<Rightarrow> u64 \<Rightarrow> string list \<Rightarrow> string \<Rightarrow> bool \<Rightarrow> 's \<Rightarrow> ('s \<times> bool \<times> bool \<times> string) outcome" where
  "agree_round fetch cur p [] hash broken s = Return (s, True, broken, hash)"
| "agree_round fetch cur p (c # cs) hash broken s =
     obind (fetch s c p) (\<lambda>(s1, r).
       case r of
         Inl err \<Rightarrow> agree_round fetch cur p cs hash broken s1
       | Inr (n, h) \<Rightarrow>
           let hash1 = (if hash = [] then h else hash)
           in if n \<noteq> p \<or> h \<noteq> hash1 then Return (s1, False, if cur \<ge> n then True else broken, hash1)
              else agree_round fetch cur p cs hash1 broken s1)"

text \<open>
  The loop that walks back until a block is agreed on. It may run forever, so it is given fuel,
  and no fuel left is \<open>None\<close>; \<open>order\<close> is the order in which a round visits the candidates.
\<close>

fun walk_back ::
  "'s block_fetch \<Rightarrow> ('s \<Rightarrow> 's \<times> string list) \<Rightarrow> u64 \<Rightarrow> nat \<Rightarrow> u64 \<Rightarrow> string \<Rightarrow> bool \<Rightarrow> 's
    \<Rightarrow> ('s \<times> u64 \<times> string \<times> bool) outcome option" where
  "walk_back fetch order cur 0 p hash broken s = None"
| "walk_back fetch order cur (Suc n) p hash broken s =
     (case order s of (s0, cs) \<Rightarrow>
        (case agree_round fetch cur p cs hash broken s0 of
           Panic msg \<Rightarrow> Some (Panic msg)
         | Return (s1, allAgreed, broken1, hash1) \<Rightarrow>
             if allAgreed then Some (Return (s1, p, hash1, broken1))
             else walk_back fetch order cur n (p - 1) [] broken1 s1))"

definition poller_fetch :: "'e World \<Rightarrow> 'm lhm \<Rightarrow> geth \<Rightarrow> Ctx \<Rightarrow> ('e \<times> (string \<Rightarrow> 'm Backend)) block_fetch" where
  "poller_fetch W L G ctx s c p =
     obind (fetchBlock W L G ctx (fst s) (snd s c) (Uint64_String G p)) (\<lambda>(e1, b1, r).
       Return ((e1, (snd s)(c := b1)), r))"

definition poller_order :: "'e World \<Rightarrow> string list \<Rightarrow> 'e \<times> (string \<Rightarrow> 'm Backend) \<Rightarrow> ('e \<times> (string \<Rightarrow> 'm Backend)) \<times> string list" where
  "poller_order W names s = (case w_order W (fst s) names of (e1, names1) \<Rightarrow> ((e1, snd s), names1))"

definition UpdateBackendGroupConsensus ::
  "'e World \<Rightarrow> 'm lhm \<Rightarrow> geth \<Rightarrow> 't ConsensusTracker \<Rightarrow> Ctx \<Rightarrow> BackendGroup \<Rightarrow> nat \<Rightarrow> ('e, 'm, 't) poller_state
    \<Rightarrow> ('e, 'm, 't) poller_state outcome option" where
  "UpdateBackendGroupConsensus W L G T ctx bg fuel st =
     (case st of (e, bes, cp) \<Rightarrow>
      let cur = GetLatestBlockNumber T (cp_tracker cp);
          candidates = getConsensusCandidates L (w_now W e) bg bes cp;
          (e0, names) = w_order W e (map fst candidates);
          low = lowest (map (backendState_of cp) names);
          found = (if lowestLatestBlock low > 0
                   then walk_back (poller_fetch W L G ctx) (poller_order W (map fst candidates)) cur fuel
                          (lowestLatestBlock low) (lowestLatestBlockHash low) False (e0, bes)
                   else Some (Return ((e0, bes), lowestLatestBlock low, lowestLatestBlockHash low, False)))
      in case found of
           None \<Rightarrow> None
         | Some (Panic msg) \<Rightarrow> Some (Panic msg)
         | Some (Return ((e1, bes1), proposed, hash, broken)) \<Rightarrow>
             let e2 = (if broken then fold (\<lambda>l e. l e) (listeners cp) e1 else e1);
                 t1 = SetFinalizedBlockNumber T (lowestFinalizedBlock low)
                        (SetSafeBlockNumber T (lowestSafeBlock low) (SetLatestBlockNumber T proposed (cp_tracker cp)));
                 group = filter (\<lambda>be. be \<in> set (map fst candidates)) (Backends bg)
             in Some (Return (e2, bes1, cp\<lparr>cp_tracker := t1, consensusGroup := group\<rparr>)))"

subsection \<open>Lemmas on the candidates\<close>

lemma highest_latest_fold:
  "fold (\<lambda>(be, bs) h. if latestBlockNumber bs > h then latestBlockNumber bs else h) cs h0 \<ge> h0 \<and>
   (\<forall>(be, bs)\<in>set cs. latestBlockNumber bs \<le> fold (\<lambda>(be, bs) h. if latestBlockNumber bs > h then latestBlockNumber bs else h) cs h0) \<and>
   (fold (\<lambda>(be, bs) h. if latestBlockNumber bs > h then latestBlockNumber bs else h) cs h0 = h0 \<or>
    (\<exists>(be, bs)\<in>set cs. latestBlockNumber bs = fold (\<lambda>(be, bs) h. if latestBlockNumber bs > h then latestBlockNumber bs else h) cs h0))"
proof (induction cs arbitrary: h0)
  case (Cons c cs)
  obtain be bs where c: "c = (be, bs)" by (cases c)
  let ?h = "if latestBlockNumber bs > h0 then latestBlockNumber bs else h0"
  have "h0 \<le> ?h" "latestBlockNumber bs \<le> ?h" by (auto simp: not_less less_imp_le)
  then show ?case using Cons.IH [of ?h] by (auto simp: c intro: order_trans)
qed simp

lemma highest_latest_upper: "(be, bs) \<in> set cs \<Longrightarrow> latestBlockNumber bs \<le> highest_latest cs"
  using highest_latest_fold [of 0 cs] by (auto simp: highest_latest_def)

lemma highest_latest_attained: "cs \<noteq> [] \<Longrightarrow> \<exists>(be, bs)\<in>set cs. latestBlockNumber bs = highest_latest cs"
proof -
  assume "cs \<noteq> []"
  then obtain be bs where c: "(be, bs) \<in> set cs" by (cases cs) auto
  show ?thesis
  proof (cases "highest_latest cs = 0")
    case True
    with highest_latest_upper [OF c] have "latestBlockNumber bs = highest_latest cs" by simp
    with c show ?thesis by blast
  next
    case False
    then show ?thesis using highest_latest_fold [of 0 cs] by (simp add: highest_latest_def)
  qed
qed

lemma FilterCandidates_iff:
  "(be, bs) \<in> set (FilterCandidates L now bes cp names) \<longleftrightarrow>
     be \<in> set names \<and> bs = backendState_of cp be \<and> eligible L now cp (bes be) bs \<and>
     highest_latest (map (\<lambda>be. (be, backendState_of cp be))
       (filter (\<lambda>be. eligible L now cp (bes be) (backendState_of cp be)) names)) - latestBlockNumber bs \<le> maxBlockLag cp"
  by (auto simp: FilterCandidates_def Let_def not_less)

lemma FilterCandidates_lag:
  assumes "(c, cs) \<in> set (FilterCandidates L now bes cp names)" and "(d, ds) \<in> set (FilterCandidates L now bes cp names)"
  shows "unat (latestBlockNumber ds) \<le> unat (latestBlockNumber cs) + unat (maxBlockLag cp)"
proof -
  let ?all = "map (\<lambda>be. (be, backendState_of cp be)) (filter (\<lambda>be. eligible L now cp (bes be) (backendState_of cp be)) names)"
  have up: "latestBlockNumber cs \<le> highest_latest ?all" "latestBlockNumber ds \<le> highest_latest ?all"
    using assms by (auto simp: FilterCandidates_iff intro!: highest_latest_upper)
  have "unat (highest_latest ?all - latestBlockNumber cs) \<le> unat (maxBlockLag cp)"
    using assms(1) by (auto simp: FilterCandidates_iff word_le_nat_alt)
  then have "unat (highest_latest ?all) - unat (latestBlockNumber cs) \<le> unat (maxBlockLag cp)"
    using up(1) by (simp add: unat_sub_if_size word_le_nat_alt)
  then show ?thesis using up by (simp add: word_le_nat_alt)
qed

lemma FilterCandidates_nonempty:
  assumes "be \<in> set names" and "eligible L now cp (bes be) (backendState_of cp be)"
  shows "FilterCandidates L now bes cp names \<noteq> []"
proof -
  let ?all = "map (\<lambda>be. (be, backendState_of cp be)) (filter (\<lambda>be. eligible L now cp (bes be) (backendState_of cp be)) names)"
  have "?all \<noteq> []" using assms by (auto simp: filter_empty_conv)
  then obtain c cs where "(c, cs) \<in> set ?all" "latestBlockNumber cs = highest_latest ?all"
    using highest_latest_attained by blast
  then have "(c, cs) \<in> set (FilterCandidates L now bes cp names)" unfolding FilterCandidates_iff by auto
  then show ?thesis by auto
qed

subsection \<open>Lemmas on the lowest blocks\<close>

definition min_step :: "u64 \<Rightarrow> u64 \<Rightarrow> u64" where
  "min_step x m = (if m = 0 \<or> x < m then x else m)"

lemma lowest_components:
  "lowestLatestBlock (fold lowest_step bss l) = fold (\<lambda>bs. min_step (latestBlockNumber bs)) bss (lowestLatestBlock l)"
  "lowestSafeBlock (fold lowest_step bss l) = fold (\<lambda>bs. min_step (safeBlockNumber bs)) bss (lowestSafeBlock l)"
  "lowestFinalizedBlock (fold lowest_step bss l) = fold (\<lambda>bs. min_step (finalizedBlockNumber bs)) bss (lowestFinalizedBlock l)"
proof (induction bss arbitrary: l)
  case (Cons bs bss)
  case 1 show ?case using Cons.IH by (simp add: lowest_step_def min_step_def Let_def)
  case 2 show ?case using Cons.IH by (simp add: lowest_step_def min_step_def Let_def)
  case 3 show ?case using Cons.IH by (simp add: lowest_step_def min_step_def Let_def)
qed simp_all

lemma fold_min_step:
  assumes "\<forall>x\<in>set xs. f x \<noteq> 0" and "m \<noteq> 0"
  shows "fold (\<lambda>x. min_step (f x)) xs m = Min (insert m (f ` set xs))"
  using assms
proof (induction xs arbitrary: m)
  case (Cons x xs)
  have "min_step (f x) m = min m (f x)" using Cons.prems by (auto simp: min_step_def min_def)
  moreover have "min m (f x) \<noteq> 0" using Cons.prems by (simp add: min_def)
  ultimately have "fold (\<lambda>x. min_step (f x)) (x # xs) m = Min (insert (min m (f x)) (f ` set xs))" using Cons by simp
  also have "\<dots> = Min (insert m (f ` set (x # xs)))"
    by (cases "xs = []") (simp_all add: min.assoc)
  finally show ?case .
qed simp

lemma fold_min_step_0:
  assumes "\<forall>x\<in>set xs. f x \<noteq> 0" and "xs \<noteq> []"
  shows "fold (\<lambda>x. min_step (f x)) xs 0 = Min (f ` set xs)"
proof (cases xs)
  case (Cons x ys)
  then show ?thesis using assms fold_min_step [of ys f "f x"] by (simp add: min_step_def)
qed (use assms in simp)

lemma lowest_is_Min:
  assumes "bss \<noteq> []"
  shows "\<forall>bs\<in>set bss. latestBlockNumber bs \<noteq> 0 \<Longrightarrow> lowestLatestBlock (lowest bss) = Min (latestBlockNumber ` set bss)"
    and "\<forall>bs\<in>set bss. safeBlockNumber bs \<noteq> 0 \<Longrightarrow> lowestSafeBlock (lowest bss) = Min (safeBlockNumber ` set bss)"
    and "\<forall>bs\<in>set bss. finalizedBlockNumber bs \<noteq> 0 \<Longrightarrow> lowestFinalizedBlock (lowest bss) = Min (finalizedBlockNumber ` set bss)"
  using fold_min_step_0 [OF _ assms] by (simp_all add: lowest_def lowest_components)

lemma Min_image_mono:
  assumes "finite A" "A \<noteq> {}" "\<forall>x\<in>A. f x \<le> (g x :: u64)"
  shows "Min (f ` A) \<le> Min (g ` A)"
proof -
  have "Min (g ` A) \<in> g ` A" using assms by (intro Min_in) auto
  then obtain x where x: "x \<in> A" "Min (g ` A) = g x" by blast
  then have "Min (f ` A) \<le> f x" using assms(1) by simp
  also have "\<dots> \<le> Min (g ` A)" using x assms(3) by simp
  finally show ?thesis .
qed

subsection \<open>Lemmas on the walk back\<close>

text \<open>
  Backends that answer with the blocks of fixed chains: \<open>H c n\<close> is the hash of block \<open>n\<close> on the
  chain of \<open>c\<close>, and \<open>I\<close> is what has to hold of the world and the store for them to answer.
  A round then agrees exactly when the chains do.
\<close>

definition answers_from :: "('s \<Rightarrow> bool) \<Rightarrow> 's block_fetch \<Rightarrow> string set \<Rightarrow> (string \<Rightarrow> u64 \<Rightarrow> string) \<Rightarrow> bool" where
  "answers_from I fetch C H \<longleftrightarrow>
     (\<forall>c\<in>C. \<forall>n. H c n \<noteq> [] \<and> (\<forall>s. I s \<longrightarrow> (\<exists>s'. I s' \<and> fetch s c n = Return (s', Inr (n, H c n)))))"

definition visits :: "('s \<Rightarrow> bool) \<Rightarrow> ('s \<Rightarrow> 's \<times> string list) \<Rightarrow> string set \<Rightarrow> bool" where
  "visits I order C \<longleftrightarrow> (\<forall>s. set (snd (order s)) = C \<and> (I s \<longrightarrow> I (fst (order s))))"

definition agreed :: "string set \<Rightarrow> (string \<Rightarrow> u64 \<Rightarrow> string) \<Rightarrow> u64 \<Rightarrow> bool" where
  "agreed C H n \<longleftrightarrow> (\<forall>c\<in>C. \<forall>d\<in>C. H c n = H d n)"

lemma answers_fromD:
  "answers_from I fetch C H \<Longrightarrow> c \<in> C \<Longrightarrow> I s \<Longrightarrow> \<exists>s'. I s' \<and> fetch s c n = Return (s', Inr (n, H c n))"
  unfolding answers_from_def by blast

lemma agree_round_known:
  assumes "answers_from I fetch (set cs) H" and "hash \<noteq> []" and "I s"
  shows "\<exists>s1 h1. I s1 \<and> agree_round fetch cur p cs hash broken s =
    Return (s1, \<forall>c\<in>set cs. H c p = hash, broken \<or> p \<le> cur \<and> (\<exists>c\<in>set cs. H c p \<noteq> hash), h1)"
  using assms(1,3)
proof (induction cs arbitrary: s)
  case (Cons c cs)
  obtain s1 where f: "I s1" "fetch s c p = Return (s1, Inr (p, H c p))"
    using answers_fromD [OF Cons.prems(1) _ Cons.prems(2), of c p] by auto
  have "answers_from I fetch (set cs) H" using Cons.prems(1) by (simp add: answers_from_def)
  then show ?case using Cons.IH [of s1] f assms(2) by auto
qed simp

lemma agree_round_unknown:
  assumes "answers_from I fetch (set cs) H" and "I s"
  shows "\<exists>s1 h1. I s1 \<and> agree_round fetch cur p cs [] broken s =
    Return (s1, agreed (set cs) H p, broken \<or> p \<le> cur \<and> \<not> agreed (set cs) H p, h1)"
proof (cases cs)
  case (Cons c cs')
  obtain s1 where f: "I s1" "fetch s c p = Return (s1, Inr (p, H c p))"
    using answers_fromD [OF assms(1) _ assms(2), of c p] Cons by auto
  have h: "answers_from I fetch (set cs') H" "H c p \<noteq> []" using assms(1) Cons by (simp_all add: answers_from_def)
  from agree_round_known [OF h f(1), of cur p broken]
  have "\<exists>s2 h1. I s2 \<and> agree_round fetch cur p cs' (H c p) broken s1 =
    Return (s2, \<forall>d\<in>set cs'. H d p = H c p, broken \<or> p \<le> cur \<and> (\<exists>d\<in>set cs'. H d p \<noteq> H c p), h1)" .
  moreover have "agreed (set cs) H p \<longleftrightarrow> (\<forall>d\<in>set cs'. H d p = H c p)" using Cons by (auto simp: agreed_def)
  ultimately show ?thesis using Cons f by auto
qed (simp add: agreed_def assms(2))

lemma u64_pred:
  fixes a p :: u64
  assumes "a < p"
  shows "unat (p - 1) = unat p - 1" "a \<le> p - 1" "p - 1 < p" "n < p \<Longrightarrow> n \<le> p - 1"
  using assms by (auto simp: unat_sub_if_size word_le_nat_alt word_less_nat_alt)

text \<open>
  The walk after the first round stops at the highest agreed block not above \<open>p\<close>, and it breaks the
  consensus \<open>cur\<close> exactly when it gets below it.
\<close>

lemma broken_below:
  fixes p q cur :: u64
  assumes "a < p" "q \<le> p - 1"
  shows "(p \<le> cur \<or> q < p - 1 \<and> q < cur) \<longleftrightarrow> q < p \<and> q < cur"
proof -
  have "unat q \<le> unat p - 1" "unat a < unat p" using assms u64_pred(1) [OF assms(1)] by (simp_all add: word_le_nat_alt word_less_nat_alt)
  then show ?thesis using u64_pred(1) [OF assms(1)] by (auto simp: word_le_nat_alt word_less_nat_alt)
qed

lemma walk_back_agreed:
  assumes "answers_from I fetch C H" and "visits I order C"
    and "agreed C H a" "a \<le> p" and "unat p - unat a < fuel" and "I s"
  shows "\<exists>s' q h. walk_back fetch order cur fuel p [] broken s = Some (Return (s', q, h, broken \<or> q < p \<and> q < cur)) \<and>
    I s' \<and> q \<le> p \<and> agreed C H q \<and> (\<forall>n. q < n \<and> n \<le> p \<longrightarrow> \<not> agreed C H n)"
  using assms(4-6)
proof (induction fuel arbitrary: p broken s)
  case (Suc fuel)
  obtain s0 cs where o: "order s = (s0, cs)" by (cases "order s")
  then have cs: "set cs = C" "I s0" using assms(2) Suc.prems(3) unfolding visits_def by (metis fst_conv snd_conv)+
  then obtain s1 h1 where r: "I s1" "agree_round fetch cur p cs [] broken s0 =
      Return (s1, agreed C H p, broken \<or> p \<le> cur \<and> \<not> agreed C H p, h1)"
    using agree_round_unknown [of I fetch cs H s0 cur p broken] assms(1) by auto
  show ?case
  proof (cases "agreed C H p")
    case True
    then show ?thesis using o r by auto
  next
    case False
    then have "a < p" using assms(3) Suc.prems(1) by (metis order_le_less)
    note p = u64_pred [OF this]
    have "unat (p - 1) - unat a < fuel" using Suc.prems(2) \<open>a < p\<close> p(1) by (auto simp: word_less_nat_alt)
    from Suc.IH [OF p(2) this r(1), of "broken \<or> p \<le> cur"] obtain s' q h where
      w: "walk_back fetch order cur fuel (p - 1) [] (broken \<or> p \<le> cur) s1 =
        Some (Return (s', q, h, (broken \<or> p \<le> cur) \<or> q < p - 1 \<and> q < cur))" "I s'" "q \<le> p - 1"
        "agreed C H q" "\<forall>n. q < n \<and> n \<le> p - 1 \<longrightarrow> \<not> agreed C H n" by blast
    have "q < p" using w(3) p(3) by simp
    moreover have "((broken \<or> p \<le> cur) \<or> q < p - 1 \<and> q < cur) \<longleftrightarrow> broken \<or> q < p \<and> q < cur"
      using broken_below [OF \<open>a < p\<close> w(3), of cur] by blast
    moreover have "\<forall>n. q < n \<and> n \<le> p \<longrightarrow> \<not> agreed C H n" using w(5) False p(4) by (metis order_le_less)
    ultimately show ?thesis using o r False w(1,2,4) by auto
  qed
qed simp

lemma walk_back_start:
  assumes "answers_from I fetch C H" and "visits I order C" and "hash \<noteq> []"
    and a: "agreed C H a" "a < p" and fuel: "unat p - unat a < fuel" and "I s"
  shows "\<exists>s' q h. walk_back fetch order cur fuel p hash False s = Some (Return (s', q, h, q < p \<and> q < cur)) \<and>
    I s' \<and> q \<le> p \<and> agreed C H q \<and> (\<forall>n. q < n \<and> n < p \<longrightarrow> \<not> agreed C H n) \<and>
    (q = p \<longleftrightarrow> (\<forall>c\<in>C. H c p = hash))"
proof -
  obtain f where f: "fuel = Suc f" using fuel by (cases fuel) auto
  obtain s0 cs where o: "order s = (s0, cs)" by (cases "order s")
  then have cs: "set cs = C" "I s0" using assms(2,7) unfolding visits_def by (metis fst_conv snd_conv)+
  then obtain s1 h1 where r: "I s1" "agree_round fetch cur p cs hash False s0 =
      Return (s1, \<forall>c\<in>C. H c p = hash, p \<le> cur \<and> (\<exists>c\<in>C. H c p \<noteq> hash), h1)"
    using agree_round_known [of I fetch cs H hash s0 cur p False] assms(1,3) by auto
  show ?thesis
  proof (cases "\<forall>c\<in>C. H c p = hash")
    case True
    then have "agreed C H p" by (simp add: agreed_def)
    then show ?thesis using True f o r by (auto dest: less_asym)
  next
    case False
    note p = u64_pred [OF a(2)]
    have "unat (p - 1) - unat a < f" using fuel f a(2) p(1) by (auto simp: word_less_nat_alt)
    from walk_back_agreed [OF assms(1,2) a(1) p(2) this r(1), of cur "p \<le> cur"] obtain s' q h where
      w: "walk_back fetch order cur f (p - 1) [] (p \<le> cur) s1 = Some (Return (s', q, h, p \<le> cur \<or> q < p - 1 \<and> q < cur))"
        "I s'" "q \<le> p - 1" "agreed C H q" "\<forall>n. q < n \<and> n \<le> p - 1 \<longrightarrow> \<not> agreed C H n" by blast
    have "q < p" using w(3) p(3) by simp
    moreover have "(p \<le> cur \<or> q < p - 1 \<and> q < cur) \<longleftrightarrow> q < p \<and> q < cur"
      by (rule broken_below [OF a(2) w(3)])
    moreover have "\<forall>n. q < n \<and> n < p \<longrightarrow> \<not> agreed C H n" using w(5) p(4) by blast
    ultimately show ?thesis using f o r False w(1,2,4) by auto
  qed
qed

text \<open>Backends that disagree on every block: the walk does not end.\<close>

lemma walk_back_disagree:
  assumes "answers_from I fetch C H" and "visits I order C" and "\<forall>n. \<not> agreed C H n" and "I s"
  shows "walk_back fetch order cur fuel p hash broken s = None"
  using assms(4)
proof (induction fuel arbitrary: p hash broken s)
  case (Suc fuel)
  obtain s0 cs where o: "order s = (s0, cs)" by (cases "order s")
  then have cs: "set cs = C" "I s0" using assms(2) Suc.prems unfolding visits_def by (metis fst_conv snd_conv)+
  have "\<exists>s1 br h1. I s1 \<and> agree_round fetch cur p cs hash broken s0 = Return (s1, False, br, h1)"
  proof (cases "hash = []")
    case True
    then show ?thesis using agree_round_unknown [of I fetch cs H s0 cur p broken] assms cs by auto
  next
    case False
    have "\<not> (\<forall>c\<in>C. H c p = hash)" using assms(3) by (metis agreed_def)
    then show ?thesis using agree_round_known [of I fetch cs H hash s0 cur p broken] assms(1) cs False by auto
  qed
  then show ?case using o Suc.IH by auto
qed simp

text \<open>Backends that cannot be asked: the round counts as agreement.\<close>

lemma agree_round_unreachable:
  assumes "\<forall>c\<in>set cs. \<forall>s n. I s \<longrightarrow> (\<exists>s' err. I s' \<and> fetch s c n = Return (s', Inl err))" and "I s"
  shows "\<exists>s1. I s1 \<and> agree_round fetch cur p cs hash broken s = Return (s1, True, broken, hash)"
  using assms
proof (induction cs arbitrary: s)
  case (Cons c cs)
  have "\<forall>s n. I s \<longrightarrow> (\<exists>s' err. I s' \<and> fetch s c n = Return (s', Inl err))" using Cons.prems(1) by simp
  then obtain s' err where "I s'" "fetch s c p = Return (s', Inl err)" using Cons.prems(2) by blast
  then show ?case using Cons.IH [of s'] Cons.prems(1) by auto
qed simp

definition fair_order :: "'e World \<Rightarrow> ('e \<times> 'b \<Rightarrow> bool) \<Rightarrow> bool" where
  "fair_order W I \<longleftrightarrow> (\<forall>e xs bes. set (snd (w_order W e xs)) = set xs \<and> (I (e, bes) \<longrightarrow> I (fst (w_order W e xs), bes)))"

lemma poller_order_visits: "fair_order W I \<Longrightarrow> visits I (poller_order W names) (set names)"
  by (auto simp: visits_def fair_order_def poller_order_def split_beta)

text \<open>A candidate's numbers are in order and it has a hash.\<close>

definition good_state :: "backendState \<Rightarrow> bool" where
  "good_state bs \<longleftrightarrow> 0 < finalizedBlockNumber bs \<and> finalizedBlockNumber bs \<le> safeBlockNumber bs \<and>
     safeBlockNumber bs \<le> latestBlockNumber bs \<and> latestBlockHash bs \<noteq> []"

lemma good_state_pos: "good_state bs \<Longrightarrow> latestBlockNumber bs \<noteq> 0 \<and> safeBlockNumber bs \<noteq> 0 \<and> finalizedBlockNumber bs \<noteq> 0"
  unfolding good_state_def by (metis order_less_le_trans order_less_irrefl)

lemma lowest_step_latest:
  "lowestLatestBlock (lowest_step bs l) =
     (if lowestLatestBlock l = 0 \<or> latestBlockNumber bs < lowestLatestBlock l then latestBlockNumber bs else lowestLatestBlock l)"
  "lowestLatestBlockHash (lowest_step bs l) =
     (if lowestLatestBlock l = 0 \<or> latestBlockNumber bs < lowestLatestBlock l then latestBlockHash bs else lowestLatestBlockHash l)"
  by (simp_all add: lowest_step_def Let_def)

definition hash_known :: "backendState set \<Rightarrow> lowest_blocks \<Rightarrow> bool" where
  "hash_known S l \<longleftrightarrow> lowestLatestBlock l = 0 \<or>
     (\<exists>bs\<in>S. lowestLatestBlockHash l = latestBlockHash bs \<and> latestBlockNumber bs = lowestLatestBlock l)"

lemma hash_known_step: "hash_known S l \<Longrightarrow> bs \<in> S \<Longrightarrow> hash_known S (lowest_step bs l)"
  unfolding hash_known_def lowest_step_latest by auto

lemma hash_known_fold: "hash_known S l \<Longrightarrow> set bss \<subseteq> S \<Longrightarrow> hash_known S (fold lowest_step bss l)"
  by (induction bss arbitrary: l) (simp_all add: hash_known_step)

lemma lowest_hash:
  assumes "bss \<noteq> []" and "\<forall>bs\<in>set bss. latestBlockNumber bs \<noteq> 0"
  shows "\<exists>bs\<in>set bss. lowestLatestBlockHash (lowest bss) = latestBlockHash bs \<and> latestBlockNumber bs = lowestLatestBlock (lowest bss)"
proof -
  have "hash_known (set bss) (lowest bss)" unfolding lowest_def by (rule hash_known_fold) (simp_all add: hash_known_def)
  moreover have "lowestLatestBlock (lowest bss) \<in> latestBlockNumber ` set bss"
    unfolding lowest_is_Min(1) [OF assms] by (rule Min_in) (use assms in auto)
  ultimately show ?thesis using assms(2) by (auto simp: hash_known_def)
qed

subsection \<open>Lemmas on the update of the group\<close>

definition candidate_set :: "'m lhm \<Rightarrow> Time \<Rightarrow> BackendGroup \<Rightarrow> (string \<Rightarrow> 'm Backend) \<Rightarrow> ('e, 't) ConsensusPoller \<Rightarrow> string set" where
  "candidate_set L now bg bes cp = fst ` set (getConsensusCandidates L now bg bes cp)"

definition lowest_of :: "(backendState \<Rightarrow> u64) \<Rightarrow> ('e, 't) ConsensusPoller \<Rightarrow> string set \<Rightarrow> u64" where
  "lowest_of f cp C = Min ((\<lambda>c. f (backendState_of cp c)) ` C)"

lemma lowest_of_mono:
  "finite C \<Longrightarrow> C \<noteq> {} \<Longrightarrow> \<forall>c\<in>C. f (backendState_of cp c) \<le> g (backendState_of cp c) \<Longrightarrow> lowest_of f cp C \<le> lowest_of g cp C"
  unfolding lowest_of_def by (rule Min_image_mono)

lemma lowest_of_candidates:
  assumes names: "set names = C" and ne: "C \<noteq> {}" and good: "\<forall>c\<in>C. good_state (backendState_of cp c)"
  defines "low \<equiv> lowest (map (backendState_of cp) names)"
  shows "lowestLatestBlock low = lowest_of latestBlockNumber cp C" "lowestSafeBlock low = lowest_of safeBlockNumber cp C"
    "lowestFinalizedBlock low = lowest_of finalizedBlockNumber cp C"
    "\<exists>c\<in>C. lowestLatestBlockHash low = latestBlockHash (backendState_of cp c) \<and>
       latestBlockNumber (backendState_of cp c) = lowestLatestBlock low"
    "0 < lowestLatestBlock low" "lowestLatestBlockHash low \<noteq> []"
proof -
  let ?bss = "map (backendState_of cp) names"
  have ne': "?bss \<noteq> []" using names ne by auto
  have pos: "\<forall>bs\<in>set ?bss. latestBlockNumber bs \<noteq> 0" "\<forall>bs\<in>set ?bss. safeBlockNumber bs \<noteq> 0"
      "\<forall>bs\<in>set ?bss. finalizedBlockNumber bs \<noteq> 0"
    using good names good_state_pos by (metis (no_types, lifting) imageE list.set_map)+
  show "lowestLatestBlock low = lowest_of latestBlockNumber cp C" "lowestSafeBlock low = lowest_of safeBlockNumber cp C"
    "lowestFinalizedBlock low = lowest_of finalizedBlockNumber cp C"
    using lowest_is_Min [OF ne'] pos names by (simp_all add: low_def lowest_of_def image_image)
  obtain c where c: "c \<in> C" "lowestLatestBlockHash low = latestBlockHash (backendState_of cp c)"
      "latestBlockNumber (backendState_of cp c) = lowestLatestBlock low"
    using lowest_hash [OF ne' pos(1)] names by (auto simp: low_def)
  then show "\<exists>c\<in>C. lowestLatestBlockHash low = latestBlockHash (backendState_of cp c) \<and>
       latestBlockNumber (backendState_of cp c) = lowestLatestBlock low" by blast
  have "good_state (backendState_of cp c)" using c(1) good by blast
  then show "0 < lowestLatestBlock low" "lowestLatestBlockHash low \<noteq> []"
    using c(2,3) good_state_pos [of "backendState_of cp c"] by (simp_all add: good_state_def word_neq_0_conv)
qed

text \<open>The update in terms of the result of the walk.\<close>

lemma UpdateBackendGroupConsensus_walk:
  assumes "w_order W e (map fst (getConsensusCandidates L (w_now W e) bg bes cp)) = (e0, names)"
    and "low = lowest (map (backendState_of cp) names)" and "0 < lowestLatestBlock low"
  shows "UpdateBackendGroupConsensus W L G T ctx bg fuel (e, bes, cp) =
    (case walk_back (poller_fetch W L G ctx) (poller_order W (map fst (getConsensusCandidates L (w_now W e) bg bes cp)))
        (GetLatestBlockNumber T (cp_tracker cp)) fuel (lowestLatestBlock low) (lowestLatestBlockHash low) False (e0, bes) of
       None \<Rightarrow> None
     | Some (Panic msg) \<Rightarrow> Some (Panic msg)
     | Some (Return ((e1, bes1), proposed, hash, broken)) \<Rightarrow>
         Some (Return (if broken then fold (\<lambda>l e. l e) (listeners cp) e1 else e1, bes1,
           cp\<lparr>cp_tracker := SetFinalizedBlockNumber T (lowestFinalizedBlock low)
                (SetSafeBlockNumber T (lowestSafeBlock low) (SetLatestBlockNumber T proposed (cp_tracker cp))),
              consensusGroup := filter (\<lambda>be. be \<in> candidate_set L (w_now W e) bg bes cp) (Backends bg)\<rparr>)))"
  using assms by (simp add: UpdateBackendGroupConsensus_def Let_def candidate_set_def split: option.split outcome.split prod.split)

lemma candidate_names: "set (map fst (getConsensusCandidates L now bg bes cp)) = candidate_set L now bg bes cp"
  by (simp add: candidate_set_def)

lemma candidates_ordered:
  assumes "fair_order W I" and "I (e, bes)"
  obtains e0 names where "w_order W e (map fst (getConsensusCandidates L (w_now W e) bg bes cp)) = (e0, names)"
    "set names = candidate_set L (w_now W e) bg bes cp" "I (e0, bes)"
  using assms unfolding fair_order_def candidate_names [symmetric] by (metis prod.collapse)

lemma good_state_order: "good_state bs \<Longrightarrow> finalizedBlockNumber bs \<le> safeBlockNumber bs \<and> safeBlockNumber bs \<le> latestBlockNumber bs"
  by (simp add: good_state_def)

text \<open>
  A world for examples: backends that answer every question for a numbered block with a block
  whose hash is one character, \<open>f c n\<close> for backend \<open>c\<close> and block \<open>n\<close>.
\<close>

definition chain_reply :: "(string \<Rightarrow> u64 \<Rightarrow> char) \<Rightarrow> string \<Rightarrow> http_request \<Rightarrow> err + http_response" where
  "chain_reply f name req =
     (case hq_body req of
        Single r \<Rightarrow>
          (case Params r of
             Some (JArr (JStr b # _)) \<Rightarrow>
               (case hex_decode b of
                  Some n \<Rightarrow> Inr (http_reply 200 (f name n # b))
                | None \<Rightarrow> Inl (Errorf ''unknown block''))
           | _ \<Rightarrow> Inl (Errorf ''unknown call''))
      | Batch _ \<Rightarrow> Inl (Errorf ''unknown call''))"

definition chain_world :: "(string \<Rightarrow> u64 \<Rightarrow> char) \<Rightarrow> unit World" where
  "chain_world f =
     \<lparr>w_now = \<lambda>_. 0, w_sleep = \<lambda>e _. e, w_Int63n = \<lambda>e _. (e, 0), w_order = \<lambda>e xs. (e, xs), sem_Acquire = \<lambda>e. (e, None),
      sem_Release = \<lambda>e. e, http_Do = \<lambda>e name req. (e, chain_reply f name req), url_ok = \<lambda>u. u \<noteq> [],
      json_RPCRes = \<lambda>body. case body of [] \<Rightarrow> None
        | h # n \<Rightarrow> Some (NewRPCRes ''67'' (Val (JObj [(''number'', JStr n), (''hash'', JStr [h])]))),
      json_RPCRes_slice = \<lambda>_. None\<rparr>"

definition reachable :: "unit \<times> (string \<Rightarrow> 'm Backend) \<Rightarrow> bool" where
  "reachable s \<longleftrightarrow> (\<forall>c. Name (snd s c) = c \<and> rpcURL (snd s c) = ''http://'' \<and> \<not> client_sem (snd s c) \<and>
     maxResponseSize (snd s c) = math_MaxInt64)"

lemma hex_encode_length: "length (hex_encode n) \<le> 18"
proof -
  have "length (hex_digits (unat n)) \<le> 16" using unat_u64_less [of n] by (intro hex_digits_length) simp_all
  then show ?thesis by (simp add: hex_encode_def)
qed

lemma chain_world_fetch:
  assumes "reachable s"
  shows "\<exists>s'. reachable s' \<and> poller_fetch (chain_world f) L geth_ref no_ctx s c n = Return (s', Inr (n, [f c n]))"
proof -
  have s: "Name (snd s c) = c" "rpcURL (snd s c) = ''http://''" "\<not> client_sem (snd s c)"
    "maxResponseSize (snd s c) = math_MaxInt64" using assms by (simp_all add: reachable_def)
  have len: "1 + int (length (hex_encode n)) < math_MaxInt64"
    using hex_encode_length [of n] by (simp add: math_MaxInt64_def)
  let ?b = "count_latency L 0 0 (count_request L 0 (snd s c))"
  have f: "doForward (chain_world f) L geth_ref no_ctx (fst s) (snd s c)
      [\<lparr>JSONRPC = ''2.0'', Method = ''eth_getBlockByNumber'', Params = Some (JArr [JStr (hex_encode n), JBool False]), ID = ''67''\<rparr>] False =
      Return (fst s, ?b, [\<lparr>JSONRPC = ''2.0'', Method = ''eth_getBlockByNumber'', Params = Some (JArr [JStr (hex_encode n), JBool False]), ID = ''67''\<rparr>],
        Inr [NewRPCRes ''67'' (Val (JObj [(''number'', JStr (hex_encode n)), (''hash'', JStr [f c n])]))])"
    using s len by (simp add: doForward_def Let_def prepare_requests_def translate_request_def ConsensusGetReceiptsMethod_def
        DoLimited_def chain_world_def chain_reply_def upstream_request_def buildBackendURL_def hex_decode_encode
        handle_response_def http_reply_def ReadAll_limited_def parse_responses_def sortBatchRPCResponse_def)
  have "reachable (fst s, (snd s)(c := ?b))" using assms by (simp add: reachable_def count_latency_def count_request_def)
  moreover have "poller_fetch (chain_world f) L geth_ref no_ctx s c n = Return ((fst s, (snd s)(c := ?b)), Inr (n, [f c n]))"
    using f by (simp add: poller_fetch_def fetchBlock_def ForwardRPC_def Let_def JSONRPCVersion_def NewRPCRes_def
        geth_ref_def go_map_index_def as_string_def MustDecodeUint64_def hex_decode_encode)
  ultimately show ?thesis by blast
qed

lemma chain_world_answers: "answers_from reachable (poller_fetch (chain_world f) L geth_ref no_ctx) C (\<lambda>c n. [f c n])"
  using chain_world_fetch unfolding answers_from_def by blast

lemma chain_world_order: "fair_order (chain_world f) reachable"
  by (simp add: fair_order_def chain_world_def reachable_def)


subsection \<open>The polling goroutines\<close>

text \<open>
  The goroutines that \<open>Init\<close> starts, one for every primary, one for every fallback and one for the group, as steps: a call
  of \<open>UpdateBackend\<close> or \<open>UpdateBackendGroupConsensus\<close> that returns is one step. Only the goroutine of a backend
  writes its state. In between, the rest of the program lets time pass, sends requests to the backends and publishes the
  tracker.
\<close>

inductive poller_step ::
  "'e World \<Rightarrow> 'm lhm \<Rightarrow> geth \<Rightarrow> 't ConsensusTracker \<Rightarrow> Ctx \<Rightarrow> BackendGroup \<Rightarrow> ('e, 'm, 't) poller_state
    \<Rightarrow> ('e, 'm, 't) poller_state \<Rightarrow> bool"
  for W L G T ctx bg where
  primary: "be \<in> set (Primaries bg) \<Longrightarrow> UpdateBackend W L G ctx be st = Return st' \<Longrightarrow> poller_step W L G T ctx bg st st'"
| fallback: "be \<in> set (Fallbacks bg) \<Longrightarrow> FilterCandidates L (w_now W (fst st)) (fst (snd st)) (snd (snd st)) (Primaries bg) = [] \<Longrightarrow>
    UpdateBackend W L G ctx be st = Return st' \<Longrightarrow> poller_step W L G T ctx bg st st'"
| consensus: "UpdateBackendGroupConsensus W L G T ctx bg fuel st = Some (Return st') \<Longrightarrow> poller_step W L G T ctx bg st st'"
| outside: "w_now W e \<le> w_now W e' \<Longrightarrow> \<forall>c. same_config (bes c) (bes' c) \<Longrightarrow>
    poller_step W L G T ctx bg (e, bes, cp) (e', bes', cp\<lparr>cp_tracker := t\<rparr>)"

text \<open>
  What holds of the numbers of every backend: they are the numbers of one poll, in order unless the backend is forced, or
  they are zero and the backend was never polled or is banned since its last poll.
\<close>

definition polled :: "bool \<Rightarrow> backendState \<Rightarrow> bool" where
  "polled forced bs \<longleftrightarrow> latestBlockNumber bs \<noteq> 0 \<and> safeBlockNumber bs \<noteq> 0 \<and> finalizedBlockNumber bs \<noteq> 0 \<and>
     (forced \<or> finalizedBlockNumber bs \<le> safeBlockNumber bs \<and> safeBlockNumber bs \<le> latestBlockNumber bs)"

definition state_inv :: "bool \<Rightarrow> Duration \<Rightarrow> Time \<Rightarrow> backendState \<Rightarrow> bool" where
  "state_inv forced B now bs \<longleftrightarrow> lastUpdate bs \<le> now \<and>
     (polled forced bs \<or> lastUpdate bs = 0 \<or> lastUpdate bs + B \<le> bannedUntil bs)"

definition poller_inv :: "'e World \<Rightarrow> BackendGroup \<Rightarrow> ('e, 'm, 't) poller_state \<Rightarrow> bool" where
  "poller_inv W bg st \<longleftrightarrow> (case st of (e, bes, cp) \<Rightarrow>
     (\<forall>c\<in>set (Backends bg). state_inv (forcedCandidate (bes c)) (banPeriod cp) (w_now W e) (backendState_of cp c)))"

definition later :: "'e World \<Rightarrow> 'e \<times> 'm Backend \<Rightarrow> 'e \<times> 'm Backend \<Rightarrow> bool" where
  "later W x y \<longleftrightarrow> w_now W (fst x) \<le> w_now W (fst y) \<and> same_config (snd x) (snd y)"

lemma later_refl [simp]: "later W x x" by (simp add: later_def)

lemma later_trans: "later W x y \<Longrightarrow> later W y z \<Longrightarrow> later W x z"
  unfolding later_def using same_config_trans order_trans by blast

lemma or_stop_cases:
  assumes "or_stop m k = Return (e', b', r)"
  obtains err where "m = Return (e', b', Inl err)" "r = None"
  | e b v where "m = Return (e, b, Inr v)" "k e b v = Return (e', b', r)"
proof (cases m)
  case (Return x)
  then obtain e b v where m: "m = Return (e, b, v)" by (cases x) auto
  then show ?thesis using assms that by (cases v) (auto simp: or_stop_def)
qed (use assms in \<open>simp add: or_stop_def\<close>)

lemma stop_if_zero_cases:
  assumes "stop_if_zero W L e b n k = Return (e', b', r)"
  obtains "n = 0" "e' = e" "same_config b b'" "r = None" | "n \<noteq> 0" "k = Return (e', b', r)"
  using assms by (auto simp: stop_if_zero_def split: if_splits)

context steady_world
begin

lemma rpc_later:
  assumes "obind (ForwardRPC W L G ctx e b i m ps) (\<lambda>(e1, b1, x). f e1 b1 x) = Return (e', b', r)"
    and "\<And>e1 b1 x. f e1 b1 x = Return (e', b', r) \<Longrightarrow> e' = e1 \<and> b' = b1"
  shows "later W (e, b) (e', b')"
proof -
  obtain e1 b1 x where f: "ForwardRPC W L G ctx e b i m ps = Return (e1, b1, x)" "f e1 b1 x = Return (e', b', r)"
    using assms(1) by (cases "ForwardRPC W L G ctx e b i m ps") auto
  then show ?thesis using assms(2) [OF f(2)] ForwardRPC_later [OF f(1)] ForwardRPC_config [OF f(1)] by (simp add: later_def)
qed

lemma fetchBlock_later: "fetchBlock W L G ctx e b block = Return (e', b', r) \<Longrightarrow> later W (e, b) (e', b')"
  unfolding fetchBlock_def by (erule rpc_later) (auto simp: go_outcome split: sum.splits any.splits json.splits)

lemma getPeerCount_later: "getPeerCount W L G ctx e b = Return (e', b', r) \<Longrightarrow> later W (e, b) (e', b')"
  unfolding getPeerCount_def by (erule rpc_later) (auto simp: go_outcome split: sum.splits any.splits json.splits)

lemma isInSync_later: "isInSync W L G ctx e b = Return (e', b', r) \<Longrightarrow> later W (e, b) (e', b')"
  unfolding isInSync_def by (erule rpc_later) (auto simp: go_outcome split: sum.splits any.splits json.splits option.splits)

lemma fetch_nonzero:
  assumes "or_stop (fetchBlock W L G ctx e b block) (\<lambda>e b (n, h). stop_if_zero W L e b n (k e b n h)) = Return (e', b', r)"
  obtains "later W (e, b) (e', b')" "r = None"
  | e1 b1 n h where "later W (e, b) (e1, b1)" "n \<noteq> 0" "k e1 b1 n h = Return (e', b', r)"
  using assms
proof (cases rule: or_stop_cases)
  case (1 err)
  then show ?thesis using that(1) fetchBlock_later by blast
next
  case (2 e1 b1 v)
  obtain n h where v: "v = (n, h)" by (cases v)
  have l: "later W (e, b) (e1, b1)" using fetchBlock_later [OF 2(1)] .
  from 2(2) have "stop_if_zero W L e1 b1 n (k e1 b1 n h) = Return (e', b', r)" by (simp add: v)
  then show ?thesis
  proof (cases rule: stop_if_zero_cases)
    case 1
    then have "later W (e1, b1) (e', b')" by (simp add: later_def)
    from later_trans [OF l this] show ?thesis using that(1) 1(4) by blast
  next
    case 2
    then show ?thesis using that(2) [OF l] by blast
  qed
qed

lemma poll_blocks_later:
  assumes "poll_blocks W L G ctx sync pc e b = Return (e', b', r)"
  shows "later W (e, b) (e', b') \<and> (\<forall>a. r = Some a \<longrightarrow> pa_latest a \<noteq> 0 \<and> pa_safe a \<noteq> 0 \<and> pa_finalized a \<noteq> 0)"
  using assms unfolding poll_blocks_def
proof (rule fetch_nonzero)
  fix e1 b1 latest hash
  assume l1: "later W (e, b) (e1, b1)" "latest \<noteq> 0" and
    "or_stop (fetchBlock W L G ctx e1 b1 ''safe'') (\<lambda>e b (safe, _). stop_if_zero W L e b safe
     (or_stop (fetchBlock W L G ctx e b ''finalized'') (\<lambda>e b (fin, _). stop_if_zero W L e b fin
       (Return (e, b, Some \<lparr>pa_inSync = sync, pa_peerCount = pc, pa_latest = latest, pa_hash = hash,
          pa_safe = safe, pa_finalized = fin\<rparr>))))) = Return (e', b', r)"
  from this(3) show ?thesis
  proof (rule fetch_nonzero)
    fix e2 b2 safe h
    assume l2: "later W (e1, b1) (e2, b2)" "safe \<noteq> 0" and
      "or_stop (fetchBlock W L G ctx e2 b2 ''finalized'') (\<lambda>e b (fin, _). stop_if_zero W L e b fin
       (Return (e, b, Some \<lparr>pa_inSync = sync, pa_peerCount = pc, pa_latest = latest, pa_hash = hash,
          pa_safe = safe, pa_finalized = fin\<rparr>))) = Return (e', b', r)"
    from this(3) show ?thesis
      by (rule fetch_nonzero) (use l1 l2 in \<open>auto intro: later_trans\<close>)
  qed (use l1 in \<open>auto intro: later_trans\<close>)
qed auto

lemma poll_backend_later:
  assumes "poll_backend W L G ctx e b = Return (e', b', r)"
  shows "later W (e, b) (e', b') \<and> (\<forall>a. r = Some a \<longrightarrow> pa_latest a \<noteq> 0 \<and> pa_safe a \<noteq> 0 \<and> pa_finalized a \<noteq> 0)"
  using assms unfolding poll_backend_def
proof (cases rule: or_stop_cases)
  case (1 err)
  then show ?thesis using isInSync_later by blast
next
  case (2 e1 b1 sync)
  note l1 = isInSync_later [OF 2(1)]
  show ?thesis
  proof (cases "skipPeerCountCheck b1")
    case True
    then show ?thesis using 2(2) poll_blocks_later later_trans [OF l1] by fastforce
  next
    case False
    then have "or_stop (getPeerCount W L G ctx e1 b1) (\<lambda>e b pc. stop_if_zero W L e b pc (poll_blocks W L G ctx sync pc e b)) =
        Return (e', b', r)" using 2(2) by simp
    then show ?thesis
    proof (cases rule: or_stop_cases)
      case (1 err)
      then show ?thesis using getPeerCount_later later_trans [OF l1] by blast
    next
      case (2 e2 b2 pc)
      note l2 = later_trans [OF l1 getPeerCount_later [OF 2(1)]]
      from 2(2) show ?thesis
      proof (cases rule: stop_if_zero_cases)
        case 1
        then have "later W (e2, b2) (e', b')" by (simp add: later_def)
        then show ?thesis using later_trans [OF l2] 1 by simp
      next
        case 2
        then show ?thesis using poll_blocks_later [OF 2(2)] later_trans [OF l2] by blast
      qed
    qed
  qed
qed

lemma state_inv_later: "state_inv f B now bs \<Longrightarrow> now \<le> now' \<Longrightarrow> state_inv f B now' bs"
  by (simp add: state_inv_def)

lemma state_inv_Ban:
  "state_inv f B now bs \<Longrightarrow>
    state_inv f B now (bs\<lparr>bannedUntil := now + B, latestBlockNumber := 0, safeBlockNumber := 0, finalizedBlockNumber := 0\<rparr>)"
  by (simp add: state_inv_def)

lemma poller_inv_update:
  assumes "poller_inv W bg (e, bes, cp)" and "w_now W e \<le> w_now W e'" and "\<forall>c. same_config (bes c) (bes' c)"
    and "banPeriod cp' = banPeriod cp" and "\<forall>c. c \<noteq> be \<longrightarrow> backendState_of cp' c = backendState_of cp c"
    and "state_inv (forcedCandidate (bes be)) (banPeriod cp) (w_now W e') (backendState_of cp' be)"
  shows "poller_inv W bg (e', bes', cp')"
proof -
  have fc: "forcedCandidate (bes' c) = forcedCandidate (bes c)" for c using assms(3) same_config_fields(3) by blast
  have "state_inv (forcedCandidate (bes' c)) (banPeriod cp') (w_now W e') (backendState_of cp' c)" if "c \<in> set (Backends bg)" for c
  proof (cases "c = be")
    case True
    then show ?thesis using assms(4,6) by (simp add: fc)
  next
    case False
    then show ?thesis using assms that state_inv_later by (auto simp: poller_inv_def fc)
  qed
  then show ?thesis by (simp add: poller_inv_def)
qed

lemma accept_poll_frame:
  "banPeriod (accept_poll now be b bs a cp) = banPeriod cp" "maxUpdateThreshold (accept_poll now be b bs a cp) = maxUpdateThreshold cp"
  "listeners (accept_poll now be b bs a cp) = listeners cp"
  "c \<noteq> be \<Longrightarrow> backendState_of (accept_poll now be b bs a cp) c = backendState_of cp c"
  by (simp_all add: accept_poll_def Let_def Ban_def setBackendState_def set_state_def)

lemma accept_poll_inv:
  assumes "pa_latest a \<noteq> 0 \<and> pa_safe a \<noteq> 0 \<and> pa_finalized a \<noteq> 0" and "f = forcedCandidate b"
  shows "state_inv f (banPeriod cp) now (backendState_of (accept_poll now be b bs a cp) be)"
  using assms by (auto simp: accept_poll_def Let_def Ban_def setBackendState_def set_state_def state_inv_def polled_def
      checkExpectedBlockTags_def)

lemma UpdateBackend_inv:
  assumes inv: "poller_inv W bg (e, bes, cp)" and be: "be \<in> set (Backends bg)"
    and up: "UpdateBackend W L G ctx be (e, bes, cp) = Return (e', bes', cp')"
  shows "poller_inv W bg (e', bes', cp') \<and> w_now W e \<le> w_now W e' \<and> (\<forall>c. same_config (bes c) (bes' c)) \<and>
    banPeriod cp' = banPeriod cp \<and> maxUpdateThreshold cp' = maxUpdateThreshold cp \<and> listeners cp' = listeners cp"
proof -
  let ?bs = "backendState_of cp be" and ?f = "forcedCandidate (bes be)" and ?now = "w_now W e"
  have old: "state_inv ?f (banPeriod cp) ?now ?bs" using inv be by (simp add: poller_inv_def)
  consider (banned) "e' = e" "bes' = bes" "cp' = cp"
    | (unhealthy) "e' = e" "bes' = bes" "cp' = Ban ?now be (bes be) cp" "\<not> ?f"
    | (stopped) b1 where "poll_backend W L G ctx e (bes be) = Return (e', b1, None)" "bes' = bes(be := b1)" "cp' = cp"
    | (polled) b1 a where "poll_backend W L G ctx e (bes be) = Return (e', b1, Some a)" "bes' = bes(be := b1)"
        "cp' = accept_poll (w_now W e') be b1 ?bs a cp"
  proof (cases "bs_IsBanned ?now ?bs \<or> \<not> IsHealthy L ?now (bes be) \<and> \<not> ?f")
    case True
    then show ?thesis using up that(1,2) by (auto simp: UpdateBackend_def Let_def split: if_splits)
  next
    case False
    then obtain e1 b1 r where r: "poll_backend W L G ctx e (bes be) = Return (e1, b1, r)"
      using up by (auto simp: UpdateBackend_def Let_def go_outcome)
    show ?thesis using up False r that(3,4) by (cases r) (auto simp: UpdateBackend_def Let_def)
  qed
  then show ?thesis
  proof cases
    case banned
    then show ?thesis using inv by simp
  next
    case unhealthy
    then have "poller_inv W bg (e', bes', cp')"
      using old by (intro poller_inv_update [OF inv, where be = be]) (simp_all add: Ban_def set_state_def state_inv_Ban)
    then show ?thesis using unhealthy by (simp add: Ban_def set_state_def)
  next
    case stopped
    then have l: "?now \<le> w_now W e'" "\<forall>c. same_config (bes c) (bes' c)" using poll_backend_later [OF stopped(1)] by (simp_all add: later_def)
    then show ?thesis using stopped(3) poller_inv_update [OF inv l, of cp be] state_inv_later [OF old] by simp
  next
    case polled
    then have l: "?now \<le> w_now W e'" "same_config (bes be) b1" "\<forall>c. same_config (bes c) (bes' c)"
      using poll_backend_later [OF polled(1)] by (simp_all add: later_def)
    have "state_inv ?f (banPeriod cp) (w_now W e') (backendState_of cp' be)"
      using accept_poll_inv [of a ?f b1 cp "w_now W e'" be ?bs] poll_backend_later [OF polled(1)] polled(3)
        same_config_fields(3) [OF l(2)] by simp
    then show ?thesis using poller_inv_update [OF inv l(1,3), of cp' be] l accept_poll_frame polled(3) by metis
  qed
qed

lemma agree_round_keeps:
  assumes "\<forall>s c n s' r. P s \<and> fetch s c n = Return (s', r) \<longrightarrow> P s'" and "P s"
    and "agree_round fetch cur p cs hash broken s = Return (s1, x)"
  shows "P s1"
  using assms(2,3)
proof (induction cs arbitrary: s hash)
  case (Cons c cs)
  obtain s' r where f: "fetch s c p = Return (s', r)" using Cons.prems(2) by (cases "fetch s c p") auto
  have "P s'" using assms(1) Cons.prems(1) f by blast
  then show ?case using Cons.IH Cons.prems(2) f by (cases r) (auto simp: Let_def split: if_splits prod.splits)
qed simp

lemma walk_back_keeps:
  assumes "\<forall>s c n s' r. P s \<and> fetch s c n = Return (s', r) \<longrightarrow> P s'" and "\<forall>s. P s \<longrightarrow> P (fst (order s))"
    and "P s" and "walk_back fetch order cur n p hash broken s = Some (Return (s1, x))"
  shows "P s1"
  using assms(3,4)
proof (induction n arbitrary: s p hash broken)
  case (Suc n)
  obtain s0 cs where o: "order s = (s0, cs)" by (cases "order s")
  then have "P s0" using assms(2) Suc.prems(1) by (metis fst_conv)
  show ?case
  proof (cases "agree_round fetch cur p cs hash broken s0")
    case (Return y)
    obtain s2 ag br h where y: "y = (s2, ag, br, h)" by (metis prod_cases4)
    have "P s2" using agree_round_keeps [OF assms(1) \<open>P s0\<close>] Return y by blast
    then show ?thesis using Suc.IH Suc.prems(2) o Return y by (cases ag) auto
  qed (use Suc.prems(2) o in simp)
qed simp

lemma fold_listeners_later:
  "\<forall>l\<in>set ls. \<forall>e. w_now W e \<le> w_now W (l e) \<Longrightarrow> w_now W e \<le> w_now W (fold (\<lambda>l e. l e) ls e)"
  by (induction ls arbitrary: e) (auto intro: order_trans)

lemma poller_fetch_later:
  "poller_fetch W L G ctx s c n = Return (s', r) \<Longrightarrow> w_now W (fst s) \<le> w_now W (fst s') \<and> (\<forall>d. same_config (snd s d) (snd s' d))"
proof -
  assume f: "poller_fetch W L G ctx s c n = Return (s', r)"
  then obtain e1 b1 x where "fetchBlock W L G ctx (fst s) (snd s c) (Uint64_String G n) = Return (e1, b1, x)"
    "s' = (e1, (snd s)(c := b1))"
    by (cases "fetchBlock W L G ctx (fst s) (snd s c) (Uint64_String G n)") (auto simp: poller_fetch_def)
  then show ?thesis using fetchBlock_later by (fastforce simp: later_def)
qed

lemma UpdateBackendGroupConsensus_frame:
  assumes "UpdateBackendGroupConsensus W L G T ctx bg fuel (e, bes, cp) = Some (Return (e', bes', cp'))"
    and "\<forall>l\<in>set (listeners cp). \<forall>e. w_now W e \<le> w_now W (l e)"
  shows "w_now W e \<le> w_now W e' \<and> (\<forall>c. same_config (bes c) (bes' c)) \<and> (\<exists>t g. cp' = cp\<lparr>cp_tracker := t, consensusGroup := g\<rparr>)"
proof -
  let ?cs = "getConsensusCandidates L (w_now W e) bg bes cp"
  let ?P = "\<lambda>s. w_now W e \<le> w_now W (fst s) \<and> (\<forall>d. same_config (bes d) (snd s d))"
  obtain e0 names where o: "w_order W e (map fst ?cs) = (e0, names)" by (metis surj_pair)
  have P0: "?P (e0, bes)" using order_later [of e "map fst ?cs"] o by simp
  define low where "low = lowest (map (backendState_of cp) names)"
  let ?t = "\<lambda>q. SetFinalizedBlockNumber T (lowestFinalizedBlock low)
      (SetSafeBlockNumber T (lowestSafeBlock low) (SetLatestBlockNumber T q (cp_tracker cp)))"
  have fetch: "\<forall>s c n s' r. ?P s \<and> poller_fetch W L G ctx s c n = Return (s', r) \<longrightarrow> ?P s'"
    using poller_fetch_later same_config_trans order_trans by blast
  have order: "\<forall>s. ?P s \<longrightarrow> ?P (fst (poller_order W (map fst ?cs) s))"
    using order_later [of _ "map fst ?cs"] order_trans by (fastforce simp: poller_order_def split: prod.split)
  obtain e1 bes1 br t where r: "?P (e1, bes1)" "e' = (if br then fold (\<lambda>l e. l e) (listeners cp) e1 else e1)" "bes' = bes1"
    "cp' = cp\<lparr>cp_tracker := t, consensusGroup := filter (\<lambda>be. be \<in> candidate_set L (w_now W e) bg bes cp) (Backends bg)\<rparr>"
  proof (cases "0 < lowestLatestBlock low")
    case True
    let ?w = "walk_back (poller_fetch W L G ctx) (poller_order W (map fst ?cs)) (GetLatestBlockNumber T (cp_tracker cp)) fuel
        (lowestLatestBlock low) (lowestLatestBlockHash low) False (e0, bes)"
    have w: "\<And>s1 x. ?w = Some (Return (s1, x)) \<Longrightarrow> ?P s1" by (rule walk_back_keeps [where P = ?P, OF fetch order P0])
    note u = assms(1) [unfolded UpdateBackendGroupConsensus_walk [OF o low_def True]]
    then obtain z where z: "?w = Some (Return z)" by (cases ?w; cases "the ?w") simp_all
    obtain e1 bes1 q h br where "z = ((e1, bes1), q, h, br)" by (metis surj_pair)
    then have "e' = (if br then fold (\<lambda>l e. l e) (listeners cp) e1 else e1)" "bes' = bes1"
      "cp' = cp\<lparr>cp_tracker := ?t q, consensusGroup := filter (\<lambda>be. be \<in> candidate_set L (w_now W e) bg bes cp) (Backends bg)\<rparr>"
      "?P (e1, bes1)" using u z w [of "(e1, bes1)" "(q, h, br)"] by simp_all
    then show ?thesis by (rule that [rotated])
  next
    case False
    then have "e' = (if False then fold (\<lambda>l e. l e) (listeners cp) e0 else e0)" "bes' = bes"
      "cp' = cp\<lparr>cp_tracker := ?t (lowestLatestBlock low),
         consensusGroup := filter (\<lambda>be. be \<in> candidate_set L (w_now W e) bg bes cp) (Backends bg)\<rparr>"
      using assms(1) by (simp_all add: UpdateBackendGroupConsensus_def Let_def o low_def [symmetric] candidate_set_def) auto
    then show ?thesis by (rule that [OF P0])
  qed
  then show ?thesis using fold_listeners_later [OF assms(2), of e1] by (auto intro: order_trans)
qed

lemma poller_inv_later:
  assumes "poller_inv W bg (e, bes, cp)" and "w_now W e \<le> w_now W e'" and "\<forall>c. same_config (bes c) (bes' c)"
  shows "poller_inv W bg (e', bes', cp)"
proof -
  have "forcedCandidate (bes' c) = forcedCandidate (bes c)" for c using assms(3) same_config_fields(3) by blast
  then show ?thesis using assms state_inv_later by (fastforce simp: poller_inv_def)
qed

lemma poller_step_inv:
  assumes step: "poller_step W L G T ctx bg (e, bes, cp) (e', bes', cp')" and inv: "poller_inv W bg (e, bes, cp)"
    and ls: "\<forall>l\<in>set (listeners cp). \<forall>e. w_now W e \<le> w_now W (l e)"
  shows "poller_inv W bg (e', bes', cp') \<and> w_now W e \<le> w_now W e' \<and> banPeriod cp' = banPeriod cp \<and>
    maxUpdateThreshold cp' = maxUpdateThreshold cp \<and> listeners cp' = listeners cp"
  using step
proof cases
  case (primary be)
  then show ?thesis using UpdateBackend_inv [OF inv, of be] by (auto simp: Primaries_def)
next
  case (fallback be)
  then show ?thesis using UpdateBackend_inv [OF inv, of be] by (auto simp: Fallbacks_def)
next
  case (consensus fuel)
  note f = UpdateBackendGroupConsensus_frame [OF consensus ls]
  then obtain t g where cp': "cp' = cp\<lparr>cp_tracker := t, consensusGroup := g\<rparr>" by blast
  have "poller_inv W bg (e', bes', cp')"
    using poller_inv_later [OF inv] f by (simp add: cp' poller_inv_def)
  then show ?thesis using f cp' by simp
next
  case (outside t)
  then have "poller_inv W bg (e', bes', cp')"
    using poller_inv_later [OF inv] by (simp add: poller_inv_def)
  then show ?thesis using outside by simp
qed

lemma poller_steps_inv:
  assumes "(poller_step W L G T ctx bg)\<^sup>*\<^sup>* (e0, bes0, cp0) (e, bes, cp)" and "poller_inv W bg (e0, bes0, cp0)"
    and "\<forall>l\<in>set (listeners cp0). \<forall>e. w_now W e \<le> w_now W (l e)"
  shows "poller_inv W bg (e, bes, cp) \<and> w_now W e0 \<le> w_now W e \<and> banPeriod cp = banPeriod cp0 \<and>
    maxUpdateThreshold cp = maxUpdateThreshold cp0 \<and> listeners cp = listeners cp0"
  using assms(1)
proof (induction "(e, bes, cp)" arbitrary: e bes cp rule: rtranclp_induct)
  case (step y)
  obtain e1 bes1 cp1 where y: "y = (e1, bes1, cp1)" by (metis prod_cases3)
  note IH = step.hyps(3) [OF y]
  then have "\<forall>l\<in>set (listeners cp1). \<forall>e. w_now W e \<le> w_now W (l e)" using assms(3) by simp
  from poller_step_inv [OF step.hyps(2) [unfolded y] _ this] IH show ?case by (auto intro: order_trans)
qed (use assms(2) in simp)

lemma inv_candidate:
  assumes "poller_inv W bg (e, bes, cp)" and "(c, bs) \<in> set (getConsensusCandidates L (w_now W e) bg bes cp)"
    and "maxUpdateThreshold cp < banPeriod cp" "maxUpdateThreshold cp < w_now W e" and "\<not> forcedCandidate (bes c)"
  shows "0 < finalizedBlockNumber bs \<and> finalizedBlockNumber bs \<le> safeBlockNumber bs \<and> safeBlockNumber bs \<le> latestBlockNumber bs"
proof -
  have c: "c \<in> set (Backends bg)" "bs = backendState_of cp c" "eligible L (w_now W e) cp (bes c) bs"
    using assms(2) by (auto simp: getConsensusCandidates_def Let_def FilterCandidates_iff Primaries_def Fallbacks_def split: if_splits)
  then have "state_inv False (banPeriod cp) (w_now W e) bs" using assms(1,5) by (auto simp: poller_inv_def)
  moreover have "bannedUntil bs \<le> w_now W e" "w_now W e \<le> lastUpdate bs + maxUpdateThreshold cp"
    using c(3) assms(5) by (auto simp: eligible_def bs_IsBanned_def split: if_splits)
  ultimately have "polled False bs" using assms(3,4) by (auto simp: state_inv_def)
  then show ?thesis by (simp add: polled_def word_neq_0_conv)
qed

end

interpretation chain: steady_world "chain_world f" for f
  by unfold_locales (simp_all add: chain_world_def)

lemma fold_new_state: "fold (\<lambda>be st. st(be := x)) bs f c = (if c \<in> set bs then x else f c)"
  by (induction bs arbitrary: f) auto

lemma Reset_state: "c \<in> set (Backends bg) \<Longrightarrow> backendState_of (Reset bg cp) c = new_backendState"
  by (simp add: Reset_def fold_new_state)

lemma NewConsensusPoller_inv:
  assumes "0 \<le> w_now W e"
  shows "poller_inv W bg (e, bes, NewConsensusPoller bg t opts)"
proof -
  have "state_inv f B (w_now W e) new_backendState" for f B using assms by (simp add: state_inv_def new_backendState_def)
  then show ?thesis by (simp add: poller_inv_def NewConsensusPoller_def Reset_state)
qed

subsection \<open>Properties\<close>

lemma group_update_common:
  assumes T: "consensus_tracker T pending view publish" and ord: "fair_order W I"
    and C: "C = candidate_set L (w_now W e) bg bes cp" "C \<noteq> {}"
    and m: "m = lowest_of latestBlockNumber cp C" and fuel: "unat m < fuel"
    and good: "\<forall>c\<in>C. good_state (backendState_of cp c)"
    and ans: "answers_from I (poller_fetch W L G ctx) C H" "I (e, bes)" and common: "agreed C H 0"
  shows "\<exists>e1 bes1 cp' q.
    UpdateBackendGroupConsensus W L G T ctx bg fuel (e, bes, cp) =
      Some (Return (if q < m \<and> q < GetLatestBlockNumber T (cp_tracker cp) then fold (\<lambda>l e. l e) (listeners cp) e1 else e1,
        bes1, cp')) \<and> I (e1, bes1) \<and>
    consensusGroup cp' = filter (\<lambda>c. c \<in> C) (Backends bg) \<and>
    pending (cp_tracker cp') = \<lparr>Latest = q, Safe = lowest_of safeBlockNumber cp C,
      Finalized = lowest_of finalizedBlockNumber cp C\<rparr> \<and>
    q \<le> m \<and> agreed C H q \<and> (\<forall>n. q < n \<and> n < m \<longrightarrow> \<not> agreed C H n) \<and>
    (q < m \<and> (\<forall>c\<in>C. latestBlockHash (backendState_of cp c) = H c (latestBlockNumber (backendState_of cp c)))
      \<longrightarrow> \<not> agreed C H m) \<and>
    lowest_of finalizedBlockNumber cp C \<le> lowest_of safeBlockNumber cp C \<and> lowest_of safeBlockNumber cp C \<le> m"
proof -
  obtain e0 names where o: "w_order W e (map fst (getConsensusCandidates L (w_now W e) bg bes cp)) = (e0, names)"
    "set names = C" "I (e0, bes)" by (rule candidates_ordered [OF ord ans(2), where L = L and bg = bg and cp = cp]) (simp add: C(1))
  define low where "low = lowest (map (backendState_of cp) names)"
  note low = lowest_of_candidates [OF o(2) C(2) good, folded low_def]
  then obtain c where c: "c \<in> C" "lowestLatestBlockHash low = latestBlockHash (backendState_of cp c)"
    "latestBlockNumber (backendState_of cp c) = m" using m by auto
  have vis: "visits I (poller_order W (map fst (getConsensusCandidates L (w_now W e) bg bes cp))) C"
    using poller_order_visits [OF ord] C(1) candidate_names by metis
  have pos: "0 < m" using low(1,5) m by simp
  have enough: "unat m - unat (0 :: u64) < fuel" using fuel by simp
  from walk_back_start [OF ans(1) vis low(6) common pos enough o(3), of "GetLatestBlockNumber T (cp_tracker cp)"]
  obtain e1 bes1 q h where w: "walk_back (poller_fetch W L G ctx) (poller_order W (map fst (getConsensusCandidates L (w_now W e) bg bes cp)))
      (GetLatestBlockNumber T (cp_tracker cp)) fuel m (lowestLatestBlockHash low) False (e0, bes) =
      Some (Return ((e1, bes1), q, h, q < m \<and> q < GetLatestBlockNumber T (cp_tracker cp)))"
    "I (e1, bes1)" "q \<le> m" "agreed C H q" "\<forall>n. q < n \<and> n < m \<longrightarrow> \<not> agreed C H n"
    "q = m \<longleftrightarrow> (\<forall>c\<in>C. H c m = lowestLatestBlockHash low)" by (metis surj_pair)
  have fin: "finite C" using o(2) by auto
  have "q < m \<and> (\<forall>c\<in>C. latestBlockHash (backendState_of cp c) = H c (latestBlockNumber (backendState_of cp c)))
      \<longrightarrow> \<not> agreed C H m" using w(6) c by (metis agreed_def order_less_irrefl)
  moreover have "lowest_of finalizedBlockNumber cp C \<le> lowest_of safeBlockNumber cp C" "lowest_of safeBlockNumber cp C \<le> m"
    unfolding m using good_state_order good by (auto intro!: lowest_of_mono [OF fin C(2)])
  moreover define cp' where "cp' = cp\<lparr>cp_tracker := SetFinalizedBlockNumber T (lowestFinalizedBlock low)
      (SetSafeBlockNumber T (lowestSafeBlock low) (SetLatestBlockNumber T q (cp_tracker cp))),
    consensusGroup := filter (\<lambda>be. be \<in> C) (Backends bg)\<rparr>"
  moreover have "UpdateBackendGroupConsensus W L G T ctx bg fuel (e, bes, cp) =
      Some (Return (if q < m \<and> q < GetLatestBlockNumber T (cp_tracker cp) then fold (\<lambda>l e. l e) (listeners cp) e1 else e1,
        bes1, cp'))"
    using w(1) by (simp add: UpdateBackendGroupConsensus_walk [OF o(1) low_def low(5)] low(1) m cp'_def C(1) [symmetric])
  moreover have "pending (cp_tracker cp') = \<lparr>Latest = q, Safe = lowest_of safeBlockNumber cp C,
      Finalized = lowest_of finalizedBlockNumber cp C\<rparr>"
    by (simp add: cp'_def consensus_tracker.set_all_pending [OF T] low(2,3))
  moreover have "consensusGroup cp' = filter (\<lambda>c. c \<in> C) (Backends bg)" by (simp add: cp'_def)
  ultimately show ?thesis using w(2-5) by blast
qed

text \<open>
  C3. The consensus is the highest common block. When the candidates answer with the blocks of
  their chains, share the first block, and have numbers in order and a hash, an update of the
  group returns. The consensus group is then the candidates in the order of the group, and the
  tracker is told the lowest safe block, the lowest finalized block and a latest block \<open>q\<close> that
  is not above the lowest latest block \<open>m\<close>, on which all candidates have the same hash, with no
  such block between \<open>q\<close> and \<open>m\<close>; \<open>m\<close> itself is passed over only if the hash changed since it was polled or is not common.
  The listeners are run exactly when the walk went below the current consensus. A walk takes at most
  \<open>unat m + 1\<close> rounds.
\<close>

theorem consensus_highest_common_block:
  assumes T: "consensus_tracker T pending view publish" and ord: "fair_order W I"
    and C: "C = candidate_set L (w_now W e) bg bes cp" "C \<noteq> {}"
    and m: "m = lowest_of latestBlockNumber cp C" and fuel: "unat m < fuel"
    and good: "\<forall>c\<in>C. good_state (backendState_of cp c)"
    and ans: "answers_from I (poller_fetch W L G ctx) C H" "I (e, bes)" and common: "agreed C H 0"
  shows "\<exists>e1 bes1 cp' q.
    UpdateBackendGroupConsensus W L G T ctx bg fuel (e, bes, cp) =
      Some (Return (if q < m \<and> q < GetLatestBlockNumber T (cp_tracker cp) then fold (\<lambda>l e. l e) (listeners cp) e1 else e1,
        bes1, cp')) \<and> I (e1, bes1) \<and>
    consensusGroup cp' = filter (\<lambda>c. c \<in> C) (Backends bg) \<and>
    pending (cp_tracker cp') = \<lparr>Latest = q, Safe = lowest_of safeBlockNumber cp C,
      Finalized = lowest_of finalizedBlockNumber cp C\<rparr> \<and>
    q \<le> m \<and> agreed C H q \<and> (\<forall>n. q < n \<and> n < m \<longrightarrow> \<not> agreed C H n) \<and>
    (q < m \<and> (\<forall>c\<in>C. latestBlockHash (backendState_of cp c) = H c (latestBlockNumber (backendState_of cp c)))
      \<longrightarrow> \<not> agreed C H m) \<and>
    lowest_of finalizedBlockNumber cp C \<le> lowest_of safeBlockNumber cp C \<and> lowest_of safeBlockNumber cp C \<le> m"
  using assms by (rule group_update_common)

definition example_backend :: "string \<Rightarrow> (Time \<times> bucket) list Backend" where
  "example_backend c = NewBackend alist_lhm c ''http://'' [] False []"

definition example_group :: BackendGroup where
  "example_group = \<lparr>bg_Name = ''main'', Backends = [''a'', ''b''], WeightedRouting = False,
     FallbackBackends = [(''a'', False), (''b'', False)], routingStrategy = ConsensusAwareRoutingStrategy,
     multicallRPCErrorCheck = False\<rparr>"

definition example_state :: "u64 \<Rightarrow> string \<Rightarrow> backendState" where
  "example_state n h = \<lparr>latestBlockNumber = n, latestBlockHash = h, safeBlockNumber = 3, finalizedBlockNumber = 2,
     peerCount = 5, inSync = True, lastUpdate = 0, bannedUntil = 0\<rparr>"

definition example_poller :: "(unit, ConsensusTrackerState) ConsensusPoller" where
  "example_poller = set_state ''b'' (example_state 6 ''y'') (set_state ''a'' (example_state 7 ''x'')
     (NewConsensusPoller example_group NewInMemoryConsensusTracker []))"

definition forked_chain :: "string \<Rightarrow> u64 \<Rightarrow> char" where
  "forked_chain c n = (if n \<le> 4 then CHR ''h'' else if c = ''a'' then CHR ''x'' else CHR ''y'')"

lemma example_healthy: "IsHealthy alist_lhm 0 (example_backend c)"
  by (simp add: IsHealthy_def ErrorRate_def avgLatency_def example_backend_def NewBackend_def Override_def
     NewSlidingWindow_def Sum_def Avg_def Let_def advance_def alist_lhm_def time_Second_def time_Minute_def time_Millisecond_def)

lemma example_filter:
  "FilterCandidates alist_lhm 0 example_backend example_poller [''a'', ''b''] =
     [(''a'', example_state 7 ''x''), (''b'', example_state 6 ''y'')]"
proof -
  have "\<not> forcedCandidate (example_backend c)" "\<not> skipPeerCountCheck (example_backend c)" "\<not> skipIsSyncingCheck (example_backend c)" for c
    by (simp_all add: example_backend_def NewBackend_def Override_def)
  then have el: "eligible alist_lhm 0 example_poller (example_backend c) (example_state n h)" for c n h
    by (simp add: eligible_def example_healthy example_state_def bs_IsBanned_def example_poller_def set_state_def
        NewConsensusPoller_def Reset_def time_Second_def time_Millisecond_def)
  have st: "backendState_of example_poller ''a'' = example_state 7 ''x''" "backendState_of example_poller ''b'' = example_state 6 ''y''"
    "maxBlockLag example_poller = 8"
    by (simp_all add: example_poller_def set_state_def NewConsensusPoller_def Reset_def)
  show ?thesis
    by (simp add: FilterCandidates_def Let_def st el highest_latest_def)
      (simp add: example_state_def)
qed

lemma example_candidates:
  "getConsensusCandidates alist_lhm 0 example_group example_backend example_poller =
     [(''a'', example_state 7 ''x''), (''b'', example_state 6 ''y'')]"
  by (simp add: getConsensusCandidates_def Let_def Primaries_def) (simp add: example_group_def example_filter)

lemma example_poller_states:
  "candidate_set alist_lhm 0 example_group example_backend example_poller = {''a'', ''b''}"
  "lowest_of latestBlockNumber example_poller {''a'', ''b''} = 6" "lowest_of safeBlockNumber example_poller {''a'', ''b''} = 3"
  "lowest_of finalizedBlockNumber example_poller {''a'', ''b''} = 2"
  "\<forall>c\<in>{''a'', ''b''}. good_state (backendState_of example_poller c)"
  "reachable ((), example_backend)"
  by (simp_all add: candidate_set_def example_candidates lowest_of_def good_state_def reachable_def)
    (simp_all add: example_poller_def set_state_def example_state_def example_backend_def NewBackend_def Override_def)

theorem consensus_highest_common_block_witness:
  "\<exists>e bes cp'. UpdateBackendGroupConsensus (chain_world forked_chain) alist_lhm geth_ref memory_tracker no_ctx example_group 7
      ((), example_backend, example_poller) = Some (Return (e, bes, cp')) \<and>
    consensusGroup cp' = [''a'', ''b''] \<and> cp_tracker cp' = \<lparr>Latest = 4, Safe = 3, Finalized = 2\<rparr>"
proof -
  let ?H = "\<lambda>c n. [forked_chain c n]"
  have ag: "agreed {''a'', ''b''} ?H n \<longleftrightarrow> n \<le> 4" for n by (auto simp: agreed_def forked_chain_def)
  have now: "w_now (chain_world forked_chain) () = 0" by (simp add: chain_world_def)
  obtain e bes cp' q where r: "UpdateBackendGroupConsensus (chain_world forked_chain) alist_lhm geth_ref memory_tracker no_ctx
        example_group 7 ((), example_backend, example_poller) = Some (Return (e, bes, cp'))"
      "consensusGroup cp' = filter (\<lambda>c. c \<in> {''a'', ''b''}) (Backends example_group)"
      "cp_tracker cp' = \<lparr>Latest = q, Safe = 3, Finalized = 2\<rparr>"
      "agreed {''a'', ''b''} ?H q" "\<forall>n. q < n \<and> n < 6 \<longrightarrow> \<not> agreed {''a'', ''b''} ?H n"
    using consensus_highest_common_block [OF memory.consensus_tracker_axioms chain_world_order [of forked_chain], of "{''a'', ''b''}"
        alist_lhm "()" example_group example_backend example_poller 6 7 geth_ref no_ctx ?H]
      chain_world_answers [of forked_chain alist_lhm "{''a'', ''b''}"]
    by (simp add: now example_poller_states ag) blast
  have "q < 4 \<Longrightarrow> False" using r(5) [rule_format, of 4] ag by simp
  then have "q = 4" using r(4) ag by (metis order_le_less)
  with r show ?thesis by (auto simp: example_group_def)
qed



text \<open>
  Candidates that cannot be asked agree. When every question for a block fails, the first round counts
  as agreement: the tracker is told the lowest latest block although no candidate confirmed its hash.
\<close>

theorem unreachable_candidates_agree:
  assumes T: "consensus_tracker T pending view publish" and ord: "fair_order W I"
    and C: "C = candidate_set L (w_now W e) bg bes cp" "C \<noteq> {}"
    and good: "\<forall>c\<in>C. good_state (backendState_of cp c)"
    and fail: "\<forall>c\<in>C. \<forall>s n. I s \<longrightarrow> (\<exists>s' err. I s' \<and> poller_fetch W L G ctx s c n = Return (s', Inl err))" and "I (e, bes)"
  shows "\<exists>e1 bes1 cp'. UpdateBackendGroupConsensus W L G T ctx bg (Suc n) (e, bes, cp) = Some (Return (e1, bes1, cp')) \<and>
    consensusGroup cp' = filter (\<lambda>c. c \<in> C) (Backends bg) \<and>
    pending (cp_tracker cp') = \<lparr>Latest = lowest_of latestBlockNumber cp C, Safe = lowest_of safeBlockNumber cp C,
      Finalized = lowest_of finalizedBlockNumber cp C\<rparr>"
proof -
  let ?order = "poller_order W (map fst (getConsensusCandidates L (w_now W e) bg bes cp))"
  obtain e0 names where o: "w_order W e (map fst (getConsensusCandidates L (w_now W e) bg bes cp)) = (e0, names)"
    "set names = C" "I (e0, bes)"
    by (rule candidates_ordered [OF ord \<open>I (e, bes)\<close>, where L = L and bg = bg and cp = cp]) (simp add: C(1))
  note low = lowest_of_candidates [OF o(2) C(2) good]
  have "set (snd (?order (e0, bes))) = C" "I (fst (?order (e0, bes)))"
    using poller_order_visits [OF ord] o(3) C(1) candidate_names unfolding visits_def by metis+
  then obtain s0 cs where cs: "?order (e0, bes) = (s0, cs)" "set cs = C" "I s0" by (metis prod.collapse)
  have "\<forall>c\<in>set cs. \<forall>s n. I s \<longrightarrow> (\<exists>s' err. I s' \<and> poller_fetch W L G ctx s c n = Return (s', Inl err))"
    using fail cs(2) by simp
  from agree_round_unreachable [where cur = "GetLatestBlockNumber T (cp_tracker cp)" and p = "lowestLatestBlock (lowest (map (backendState_of cp) names))"
      and hash = "lowestLatestBlockHash (lowest (map (backendState_of cp) names))" and broken = False, OF this cs(3)]
  obtain e1 bes1 where "agree_round (poller_fetch W L G ctx) (GetLatestBlockNumber T (cp_tracker cp))
      (lowestLatestBlock (lowest (map (backendState_of cp) names))) cs
      (lowestLatestBlockHash (lowest (map (backendState_of cp) names))) False s0 =
      Return ((e1, bes1), True, False, lowestLatestBlockHash (lowest (map (backendState_of cp) names)))" by (metis surj_pair)
  then show ?thesis
    using cs(1) by (simp add: UpdateBackendGroupConsensus_walk [OF o(1) refl low(5)] C(1) [symmetric] low(1-3)
        consensus_tracker.set_all_pending [OF T])
qed

definition down_world :: "unit World" where
  "down_world = (chain_world (\<lambda>_ _. CHR ''h''))\<lparr>http_Do := \<lambda>e _ _. (e, Inl (Errorf ''connection refused''))\<rparr>"

lemma down_world_fetch:
  "reachable s \<Longrightarrow> \<exists>s' err. reachable s' \<and> poller_fetch down_world L geth_ref no_ctx s c n = Return (s', Inl err)"
  by (simp add: poller_fetch_def fetchBlock_def ForwardRPC_def doForward_def Let_def prepare_requests_def translate_request_def
      ConsensusGetReceiptsMethod_def DoLimited_def down_world_def chain_world_def buildBackendURL_def reachable_def err_defs wrapErr_def)
    (auto simp: count_error_def count_request_def)

theorem unreachable_candidates_agree_witness:
  "\<exists>e1 bes1 cp'. UpdateBackendGroupConsensus down_world alist_lhm geth_ref memory_tracker no_ctx example_group 1
      ((), example_backend, example_poller) = Some (Return (e1, bes1, cp')) \<and>
    consensusGroup cp' = filter (\<lambda>c. c \<in> {''a'', ''b''}) (Backends example_group) \<and>
    cp_tracker cp' = \<lparr>Latest = 6, Safe = 3, Finalized = 2\<rparr>"
proof -
  have w: "fair_order down_world reachable" "w_now down_world () = 0"
    by (simp_all add: fair_order_def down_world_def chain_world_def reachable_def)
  have f: "\<forall>c\<in>{''a'', ''b''}. \<forall>s n. reachable s \<longrightarrow> (\<exists>s' err. reachable s' \<and>
      poller_fetch down_world alist_lhm geth_ref no_ctx s c n = Return (s', Inl err))" using down_world_fetch by blast
  show ?thesis
    using unreachable_candidates_agree [OF memory.consensus_tracker_axioms w(1) _ _ example_poller_states(5) f example_poller_states(6),
        of example_group 0] by (simp add: w(2) example_poller_states)
qed

text \<open>The conditions the comment on \<open>FilterCandidates\<close> lists, other than the lag.\<close>

definition serving :: "'m lhm \<Rightarrow> Time \<Rightarrow> ('e, 't) ConsensusPoller \<Rightarrow> (string \<Rightarrow> 'm Backend) \<Rightarrow> string \<Rightarrow> bool" where
  "serving L now cp bes be \<longleftrightarrow> forcedCandidate (bes be) \<or>
    \<not> now < bannedUntil (backendState_of cp be) \<and> IsHealthy L now (bes be) \<and>
    (skipPeerCountCheck (bes be) \<or> minPeerCount cp \<le> peerCount (backendState_of cp be)) \<and>
    (skipIsSyncingCheck (bes be) \<or> inSync (backendState_of cp be)) \<and>
    now \<le> lastUpdate (backendState_of cp be) + maxUpdateThreshold cp"

lemma eligible_serving: "eligible L now cp (bes be) (backendState_of cp be) \<longleftrightarrow> serving L now cp bes be"
  by (auto simp: eligible_def serving_def bs_IsBanned_def)

lemma lag_iff:
  fixes L :: "'m lhm" and cp :: "('e, 't) ConsensusPoller"
  defines "all \<equiv> \<lambda>now bes names. map (\<lambda>be. (be, backendState_of cp be)) (filter (serving L now cp bes) names)"
  assumes be: "be \<in> set names" "serving L now cp bes be"
  shows "highest_latest (all now bes names) - latestBlockNumber (backendState_of cp be) \<le> maxBlockLag cp \<longleftrightarrow>
    (\<forall>d\<in>set names. serving L now cp bes d \<longrightarrow>
      unat (latestBlockNumber (backendState_of cp d)) \<le> unat (latestBlockNumber (backendState_of cp be)) + unat (maxBlockLag cp))"
    (is "?l \<longleftrightarrow> ?r")
proof -
  let ?h = "highest_latest (all now bes names)"
  have "all now bes names \<noteq> []" using be by (auto simp: all_def filter_empty_conv)
  then obtain d ds where d: "(d, ds) \<in> set (all now bes names)" "latestBlockNumber ds = ?h"
    using highest_latest_attained by blast
  have up: "unat (latestBlockNumber (backendState_of cp x)) \<le> unat ?h" if "x \<in> set names" "serving L now cp bes x" for x
  proof -
    have "(x, backendState_of cp x) \<in> set (all now bes names)" using that by (auto simp: all_def)
    then show ?thesis using highest_latest_upper by (metis word_le_nat_alt)
  qed
  have "?l \<longleftrightarrow> unat ?h \<le> unat (latestBlockNumber (backendState_of cp be)) + unat (maxBlockLag cp)"
    using up [OF be] by (auto simp: word_le_nat_alt unat_sub_if_size)
  also have "\<dots> \<longleftrightarrow> ?r"
  proof
    assume ?r
    then show "unat ?h \<le> unat (latestBlockNumber (backendState_of cp be)) + unat (maxBlockLag cp)"
      using d by (auto simp: all_def)
  qed (use up in \<open>auto intro: order_trans\<close>)
  finally show ?thesis .
qed

text \<open>
  C20. The candidates. A backend of the given list is one exactly when it is forced, or is not banned, healthy, with enough peers,
  in sync and updated recently, and its latest block is not more than \<open>maxBlockLag\<close> below the highest one of these; there is a candidate whenever some backend meets the conditions.
\<close>

theorem filter_candidates_spec:
  "((be, bs) \<in> set (FilterCandidates L now bes cp names) \<longleftrightarrow>
      be \<in> set names \<and> bs = backendState_of cp be \<and> serving L now cp bes be \<and>
      (\<forall>d\<in>set names. serving L now cp bes d \<longrightarrow>
         unat (latestBlockNumber (backendState_of cp d)) \<le> unat (latestBlockNumber bs) + unat (maxBlockLag cp))) \<and>
    (FilterCandidates L now bes cp names = [] \<longleftrightarrow> (\<forall>d\<in>set names. \<not> serving L now cp bes d))"
proof
  show "(be, bs) \<in> set (FilterCandidates L now bes cp names) \<longleftrightarrow>
      be \<in> set names \<and> bs = backendState_of cp be \<and> serving L now cp bes be \<and>
      (\<forall>d\<in>set names. serving L now cp bes d \<longrightarrow>
         unat (latestBlockNumber (backendState_of cp d)) \<le> unat (latestBlockNumber bs) + unat (maxBlockLag cp))"
  proof (cases "be \<in> set names \<and> bs = backendState_of cp be \<and> serving L now cp bes be")
    case True
    with lag_iff [of be names L now cp bes] show ?thesis unfolding FilterCandidates_iff by (simp add: eligible_serving)
  qed (use eligible_serving FilterCandidates_iff in metis)
  have "FilterCandidates L now bes cp names \<noteq> []" if "d \<in> set names" "serving L now cp bes d" for d
    using FilterCandidates_nonempty [OF that(1)] that(2) by (simp add: eligible_serving)
  moreover have "\<exists>d\<in>set names. serving L now cp bes d" if ne: "FilterCandidates L now bes cp names \<noteq> []"
  proof -
    obtain d ds where "(d, ds) \<in> set (FilterCandidates L now bes cp names)" using ne by (metis list.set_sel(1) surj_pair)
    then show ?thesis unfolding FilterCandidates_iff by (auto simp: eligible_serving)
  qed
  ultimately show "FilterCandidates L now bes cp names = [] \<longleftrightarrow> (\<forall>d\<in>set names. \<not> serving L now cp bes d)" by blast
qed

theorem filter_candidates_spec_witness:
  "(''a'', backendState_of example_poller ''a'') \<in> set (FilterCandidates alist_lhm 0 example_backend example_poller [''a'', ''b'']) \<and>
   unat (latestBlockNumber (backendState_of example_poller ''b'')) \<le>
     unat (latestBlockNumber (backendState_of example_poller ''a'')) + unat (maxBlockLag example_poller)"
proof -
  have in_a: "(''a'', backendState_of example_poller ''a'') \<in> set (FilterCandidates alist_lhm 0 example_backend example_poller [''a'', ''b''])"
    by (simp add: example_filter) (simp add: example_poller_def set_state_def)
  moreover have "serving alist_lhm 0 example_poller example_backend ''b''"
    by (simp add: serving_def example_healthy)
      (simp add: example_poller_def set_state_def example_state_def NewConsensusPoller_def Reset_def time_Second_def)
  ultimately show ?thesis
    using filter_candidates_spec [of "''a''" "backendState_of example_poller ''a''" alist_lhm 0 example_backend example_poller "[''a'', ''b'']"]
    by simp
qed


text \<open>
  What the check of the block tags allows: the tags are in order, and safe and finalized went back by at most the
  threshold, where a threshold that is not below the old number counts as none at all.
\<close>

theorem expected_block_tags_spec:
  "checkExpectedBlockTags safeDrift finDrift latest oldSafe safe oldFin fin \<longleftrightarrow>
     unat fin \<le> unat safe \<and> unat safe \<le> unat latest \<and>
     unat oldFin \<le> unat fin + (if finDrift < oldFin then unat finDrift else 0) \<and>
     unat oldSafe \<le> unat safe + (if safeDrift < oldSafe then unat safeDrift else 0)"
  by (auto simp: checkExpectedBlockTags_def Let_def word_le_nat_alt word_less_nat_alt unat_sub_if_size)

text \<open>
  A backend that answers a block without a number, with a number or hash that is not a string, or with a
  number that is no quantity stops the program: the poller panics on it, and its goroutines do not recover.
\<close>

theorem malformed_block_panics:
  assumes "ForwardRPC W L G ctx e b ''67'' ''eth_getBlockByNumber'' [JStr block, JBool False] = Return (e1, b1, Inr res)"
    and "Result res = Val (JObj m)"
    and "(\<forall>s. map_of m ''number'' \<noteq> Some (JStr s)) \<or> (\<forall>s. map_of m ''hash'' \<noteq> Some (JStr s)) \<or>
      (\<exists>s. map_of m ''number'' = Some (JStr s) \<and> DecodeUint64 G s = None)"
  shows "\<exists>msg. fetchBlock W L G ctx e b block = Panic msg"
proof -
  have s: "\<exists>msg. as_string (go_map_index m k) = Panic msg" if "\<forall>s. map_of m k \<noteq> Some (JStr s)" for k
    using that by (auto simp: as_string_def go_map_index_def split: option.splits json.splits)
  show ?thesis
  proof (cases "as_string (go_map_index m ''number'')")
    case (Return n)
    then have n: "map_of m ''number'' = Some (JStr n)"
      by (auto simp: as_string_def go_map_index_def split: option.splits json.splits)
    show ?thesis
    proof (cases "DecodeUint64 G n")
      case (Some k)
      then obtain msg where "as_string (go_map_index m ''hash'') = Panic msg" using assms(3) n s by auto
      then show ?thesis using assms(1,2) Return Some by (simp add: fetchBlock_def MustDecodeUint64_def)
    qed (use assms(1,2) Return in \<open>simp add: fetchBlock_def MustDecodeUint64_def\<close>)
  qed (use assms(1,2) in \<open>simp add: fetchBlock_def\<close>)
qed

theorem malformed_block_panics_witness:
  "\<exists>msg. fetchBlock (script_world (\<lambda>_. Some (NewRPCRes ''67'' (Val (JObj [(''hash'', JStr ''0x1'')])))) (\<lambda>_. None)) alist_lhm geth_ref no_ctx
     \<lparr>sc_now = 0, sc_replies = [Inr (http_reply 200 ''body'')], sc_sem = []\<rparr> test_backend ''latest'' = Panic msg"
proof -
  let ?res = "NewRPCRes ''67'' (Val (JObj [(''hash'', JStr ''0x1'')]))"
  obtain e1 b1 where "ForwardRPC (script_world (\<lambda>_. Some ?res) (\<lambda>_. None)) alist_lhm geth_ref no_ctx
      \<lparr>sc_now = 0, sc_replies = [Inr (http_reply 200 ''body'')], sc_sem = []\<rparr> test_backend ''67'' ''eth_getBlockByNumber''
      [JStr ''latest'', JBool False] = Return (e1, b1, Inr ?res)"
    by (simp add: ForwardRPC_def forward_eval translate_request_def NewRPCRes_def)
  then show ?thesis by (rule malformed_block_panics [where m = "[(''hash'', JStr ''0x1'')]"]) (simp_all add: NewRPCRes_def)
qed



text \<open>A world where one backend answers the five questions of a poll.\<close>

definition poll_world :: "unit World" where
  "poll_world = (chain_world (\<lambda>_ _. CHR ''h''))\<lparr>w_now := \<lambda>_. 100 * time_Second,
     http_Do := \<lambda>e name req. (e, case hq_body req of
       Single r \<Rightarrow> (case Params r of Some (JArr (JStr b # _)) \<Rightarrow> Inr (http_reply 200 b) | _ \<Rightarrow> Inr (http_reply 200 (Method r)))
     | Batch _ \<Rightarrow> Inl (Errorf ''unknown call'')),
     json_RPCRes := \<lambda>body. Some (NewRPCRes ''67'' (
       if body = ''eth_syncing'' then Val (JBool False)
       else if body = ''net_peerCount'' then Val (JStr ''0x5'')
       else Val (JObj [(''number'', JStr (if body = ''latest'' then ''0x7'' else if body = ''safe'' then ''0x3'' else ''0x2'')),
         (''hash'', JStr ''0xh'')])))\<rparr>"

definition one_group :: BackendGroup where
  "one_group = \<lparr>bg_Name = ''main'', Backends = [''a''], WeightedRouting = False, FallbackBackends = [(''a'', False)],
     routingStrategy = ConsensusAwareRoutingStrategy, multicallRPCErrorCheck = False\<rparr>"

definition tick :: "(Time \<times> bucket) list Backend \<Rightarrow> (Time \<times> bucket) list Backend" where
  "tick b = count_latency alist_lhm (100 * time_Second) 0 (count_request alist_lhm (100 * time_Second) b)"

lemma tick_healthy: "IsHealthy alist_lhm (100 * time_Second) (tick (tick (tick (tick (tick (example_backend c))))))"
proof -
  let ?t = "100 * time_Second" and ?w = "NewSlidingWindow alist_lhm []"
  let ?b = "tick (tick (tick (tick (tick (example_backend c)))))"
  let ?a = "Add alist_lhm ?t 0" and ?i = "Incr alist_lhm ?t"
  have w: "latencySlidingWindow ?b = ?a (?a (?a (?a (?a ?w))))" "networkRequestsSlidingWindow ?b = ?i (?i (?i (?i (?i ?w))))"
    "maxErrorRateThreshold ?b = 1 / 2" "maxLatencyThreshold ?b = 10 * time_Second"
    by (simp_all add: tick_def count_latency_def count_request_def example_backend_def NewBackend_def Override_def)
  have "Avg alist_lhm ?t (?a (?a (?a (?a (?a ?w))))) = 0" by code_simp
  moreover have "Sum alist_lhm ?t (?i (?i (?i (?i (?i ?w))))) = 5" by code_simp
  ultimately show ?thesis by (simp add: IsHealthy_def ErrorRate_def avgLatency_def w time_Second_def)
qed

lemma poll_world_rpc:
  assumes "Name b = ''a''" "rpcURL b = ''http://''" "\<not> client_sem b" "maxResponseSize b = math_MaxInt64"
    and "m = ''eth_syncing'' \<and> ps = [] \<and> v = Val (JBool False) \<or> m = ''net_peerCount'' \<and> ps = [] \<and> v = Val (JStr ''0x5'') \<or>
      m = ''eth_getBlockByNumber'' \<and> (\<exists>t n. ps = [JStr t, JBool False] \<and> (t = ''latest'' \<and> n = ''0x7'' \<or> t = ''safe'' \<and> n = ''0x3'' \<or> t = ''finalized'' \<and> n = ''0x2'') \<and>
        v = Val (JObj [(''number'', JStr n), (''hash'', JStr ''0xh'')]))"
  shows "ForwardRPC poll_world alist_lhm geth_ref no_ctx () b ''67'' m ps = Return ((), tick b, Inr (NewRPCRes ''67'' v))"
  using assms by (elim disjE conjE exE)
    (simp_all add: ForwardRPC_def JSONRPCVersion_def doForward_def Let_def prepare_requests_def translate_request_def
      ConsensusGetReceiptsMethod_def DoLimited_def poll_world_def chain_world_def upstream_request_def buildBackendURL_def
      handle_response_def http_reply_def ReadAll_limited_def math_MaxInt64_def parse_responses_def sortBatchRPCResponse_def
      NewRPCRes_def tick_def)

lemma tick_fields [simp]:
  "Name (tick b) = Name b" "rpcURL (tick b) = rpcURL b" "client_sem (tick b) = client_sem b"
  "maxResponseSize (tick b) = maxResponseSize b" "skipPeerCountCheck (tick b) = skipPeerCountCheck b"
  "skipIsSyncingCheck (tick b) = skipIsSyncingCheck b" "forcedCandidate (tick b) = forcedCandidate b"
  "safeBlockDriftThreshold (tick b) = safeBlockDriftThreshold b" "finalizedBlockDriftThreshold (tick b) = finalizedBlockDriftThreshold b"
  by (simp_all add: tick_def count_latency_def count_request_def)

lemma example_backend_fields [simp]:
  "Name (example_backend c) = c" "rpcURL (example_backend c) = ''http://''" "client_sem (example_backend c) = False"
  "maxResponseSize (example_backend c) = math_MaxInt64" "skipPeerCountCheck (example_backend c) = False"
  "skipIsSyncingCheck (example_backend c) = False" "forcedCandidate (example_backend c) = False"
  "safeBlockDriftThreshold (example_backend c) = 0" "finalizedBlockDriftThreshold (example_backend c) = 0"
  by (simp_all add: example_backend_def NewBackend_def Override_def)

definition one_poller :: "(unit, ConsensusTrackerState) ConsensusPoller" where
  "one_poller = NewConsensusPoller one_group NewInMemoryConsensusTracker []"

definition polled_state :: backendState where
  "polled_state = \<lparr>latestBlockNumber = 7, latestBlockHash = ''0xh'', safeBlockNumber = 3, finalizedBlockNumber = 2,
     peerCount = 5, inSync = True, lastUpdate = 100 * time_Second, bannedUntil = 0\<rparr>"

lemma poll_world_update:
  "UpdateBackend poll_world alist_lhm geth_ref no_ctx ''a'' ((), example_backend, one_poller) =
     Return ((), example_backend(''a'' := tick (tick (tick (tick (tick (example_backend ''a'')))))),
       set_state ''a'' polled_state one_poller)"
proof -
  let ?b = "example_backend ''a''"
  have st: "backendState_of one_poller ''a'' = new_backendState"
    by (simp add: one_poller_def NewConsensusPoller_def Reset_state one_group_def)
  have now: "w_now poll_world () = 100 * time_Second" by (simp add: poll_world_def)
  have h: "IsHealthy alist_lhm (100 * time_Second) ?b" 
    by (simp add: IsHealthy_def ErrorRate_def avgLatency_def example_backend_def NewBackend_def Override_def
     NewSlidingWindow_def Sum_def Avg_def Let_def advance_def alist_lhm_def time_Second_def)
  have hex: "hex_decode ''0x5'' = Some 5" "hex_decode ''0x7'' = Some 7" "hex_decode ''0x3'' = Some 3" "hex_decode ''0x2'' = Some 2"
    using hex_decode_encode [of 5] hex_decode_encode [of 7] hex_decode_encode [of 3] hex_decode_encode [of 2]
    by (simp_all add: hex_encode_def hex_digits.simps hex_alphabet_def)
  have dec: "DecodeUint64 geth_ref = hex_decode" by (simp add: geth_ref_def)
  define up where "up b \<longleftrightarrow> Name b = ''a'' \<and> rpcURL b = ''http://'' \<and> \<not> client_sem b \<and> maxResponseSize b = math_MaxInt64"
    for b :: "(Time \<times> bucket) list Backend"
  have up: "up ?b" "up (tick b) = up b" for b by (simp_all add: up_def)
  have rpc: "up b \<Longrightarrow> ForwardRPC poll_world alist_lhm geth_ref no_ctx () b ''67'' ''eth_syncing'' [] =
      Return ((), tick b, Inr (NewRPCRes ''67'' (Val (JBool False))))"
    "up b \<Longrightarrow> ForwardRPC poll_world alist_lhm geth_ref no_ctx () b ''67'' ''net_peerCount'' [] =
      Return ((), tick b, Inr (NewRPCRes ''67'' (Val (JStr ''0x5''))))" for b
    by (rule poll_world_rpc; simp add: up_def)+
  have blk: "up b \<Longrightarrow> fetchBlock poll_world alist_lhm geth_ref no_ctx () b ''latest'' = Return ((), tick b, Inr (7, ''0xh''))"
    "up b \<Longrightarrow> fetchBlock poll_world alist_lhm geth_ref no_ctx () b ''safe'' = Return ((), tick b, Inr (3, ''0xh''))"
    "up b \<Longrightarrow> fetchBlock poll_world alist_lhm geth_ref no_ctx () b ''finalized'' = Return ((), tick b, Inr (2, ''0xh''))" for b
    using poll_world_rpc [of b "''eth_getBlockByNumber''" "[JStr ''latest'', JBool False]" "Val (JObj [(''number'', JStr ''0x7''), (''hash'', JStr ''0xh'')])"]
      poll_world_rpc [of b "''eth_getBlockByNumber''" "[JStr ''safe'', JBool False]" "Val (JObj [(''number'', JStr ''0x3''), (''hash'', JStr ''0xh'')])"]
      poll_world_rpc [of b "''eth_getBlockByNumber''" "[JStr ''finalized'', JBool False]" "Val (JObj [(''number'', JStr ''0x2''), (''hash'', JStr ''0xh'')])"]
    by (simp_all add: up_def fetchBlock_def NewRPCRes_def go_map_index_def as_string_def MustDecodeUint64_def dec hex)
  have "poll_backend poll_world alist_lhm geth_ref no_ctx () ?b = Return ((), tick (tick (tick (tick (tick ?b)))),
      Some \<lparr>pa_inSync = True, pa_peerCount = 5, pa_latest = 7, pa_hash = ''0xh'', pa_safe = 3, pa_finalized = 2\<rparr>)"
    by (simp add: poll_backend_def poll_blocks_def or_stop_def stop_if_zero_def isInSync_def getPeerCount_def
        rpc blk up NewRPCRes_def MustDecodeUint64_def dec hex)
  then show ?thesis
    by (simp add: UpdateBackend_def Let_def now st h bs_IsBanned_def new_backendState_def accept_poll_def checkExpectedBlockTags_def
        setBackendState_def set_state_def polled_state_def h [unfolded time_Second_def, simplified] time_Second_def)
qed


end
