(* ===== verification/Backend_Group.thy ===== *)
theory Backend_Group
  imports Consensus_Poller Rewriter
begin

section \<open>Backend groups\<close>

text \<open>
  Models the methods of \<open>BackendGroup\<close> in \<^verbatim>\<open>src/backend.go\<close>: the order in which the backends are
  tried, the rewriting of requests to the consensus, the loop over the backends, the responses the proxy
  answers itself, and the multicall strategy. Backends are names into the store \<open>bes\<close>, as in the
  poller; the poller of the group is an optional argument \<open>con\<close>, read but not changed by a request.
  Go mutates the requests in place, so every operation returns them as they are afterwards.
\<close>

subsection \<open>The order of the backends\<close>

text \<open>
  The two shuffles: \<open>Shuffle\<close> of a freshly seeded generator, and the weighted shuffle of a third-party
  package, which gets the weight of every position. All that is used of them is that they permute.
\<close>

record 'e Shuffler =
  sh_Shuffle :: "'e \<Rightarrow> string list \<Rightarrow> 'e \<times> string list"
  sh_ShuffleInplace :: "'e \<Rightarrow> string list \<Rightarrow> (nat \<Rightarrow> rat) \<Rightarrow> 'e \<times> string list"

definition weightedShuffle :: "'e Shuffler \<Rightarrow> (string \<Rightarrow> 'm Backend) \<Rightarrow> 'e \<Rightarrow> string list \<Rightarrow> 'e \<times> string list" where
  "weightedShuffle S bes e backends = sh_ShuffleInplace S e backends (\<lambda>i. of_int (weight (bes (backends ! i))))"

definition GetConsensusGroup :: "('e, 't) ConsensusPoller \<Rightarrow> string list" where
  "GetConsensusGroup cp = consensusGroup cp"

definition loadBalancedConsensusGroup ::
  "'e World \<Rightarrow> 'e Shuffler \<Rightarrow> 'm lhm \<Rightarrow> BackendGroup \<Rightarrow> (string \<Rightarrow> 'm Backend) \<Rightarrow> ('e, 't) ConsensusPoller \<Rightarrow> 'e
    \<Rightarrow> 'e \<times> string list" where
  "loadBalancedConsensusGroup W S L bg bes cp e =
     (let now = w_now W e;
          cg = filter (\<lambda>be. IsHealthy L now (bes be)) (GetConsensusGroup cp);
          backendsDegraded = filter (\<lambda>be. IsDegraded L now (bes be)) cg;
          backendsHealthy = filter (\<lambda>be. \<not> IsDegraded L now (bes be)) cg;
          (e1, healthy1) = sh_Shuffle S e backendsHealthy;
          (e2, degraded1) = sh_Shuffle S e1 backendsDegraded;
          (e3, healthy2) = (if WeightedRouting bg then weightedShuffle S bes e2 healthy1 else (e2, healthy1))
      in (e3, healthy2 @ degraded1))"

definition orderedBackendsForRequest ::
  "'e World \<Rightarrow> 'e Shuffler \<Rightarrow> 'm lhm \<Rightarrow> BackendGroup \<Rightarrow> (string \<Rightarrow> 'm Backend) \<Rightarrow> ('e, 't) ConsensusPoller option \<Rightarrow> 'e
    \<Rightarrow> 'e \<times> string list" where
  "orderedBackendsForRequest W S L bg bes con e =
     (case con of
        Some cp \<Rightarrow> loadBalancedConsensusGroup W S L bg bes cp e
      | None \<Rightarrow>
          let now = w_now W e;
              healthy = filter (\<lambda>be. IsHealthy L now (bes be)) (Backends bg);
              unhealthy = filter (\<lambda>be. \<not> IsHealthy L now (bes be)) (Backends bg)
          in if WeightedRouting bg then
               (let (e1, healthy1) = weightedShuffle S bes e healthy;
                    (e2, unhealthy1) = weightedShuffle S bes e1 unhealthy
                in (e2, healthy1 @ unhealthy1))
             else (e, healthy @ unhealthy))"

subsection \<open>Rewriting to the consensus\<close>

record indexedReqRes =
  ir_index :: nat
  ir_req :: RPCReq
  ir_res :: RPCRes

definition rewrite_context :: "'t ConsensusTracker \<Rightarrow> ('e, 't) ConsensusPoller \<Rightarrow> RewriteContext" where
  "rewrite_context T cp =
     \<lparr>rc_latest = GetLatestBlockNumber T (cp_tracker cp), rc_safe = GetSafeBlockNumber T (cp_tracker cp),
      rc_finalized = GetFinalizedBlockNumber T (cp_tracker cp), rc_maxBlockRange = maxBlockRange cp\<rparr>"

definition override_error :: "RewriteContext \<Rightarrow> err option \<Rightarrow> RPCErr" where
  "override_error rctx err =
     (if errors_Is err ErrRewriteBlockOutOfRange then ErrBlockOutOfRange
      else if errors_Is err ErrRewriteRangeTooLarge
      then ErrInvalidParams (''block range greater than '' @ fmt_nat (unat (rc_maxBlockRange rctx)) @ '' max'')
      else ErrParseErr)"

fun overwrite_loop :: "geth \<Rightarrow> RewriteContext \<Rightarrow> nat \<Rightarrow> RPCReq list \<Rightarrow> (RPCReq list \<times> indexedReqRes list) outcome" where
  "overwrite_loop G rctx i [] = Return ([], [])"
| "overwrite_loop G rctx i (req # reqs) =
     obind (RewriteTags G rctx req (NewRPCRes (ID req) NilVal)) (\<lambda>(result, err, req1, res).
     obind (overwrite_loop G rctx (Suc i) reqs) (\<lambda>(rewritten, overridden).
       Return (case result of
         RewriteOverrideError \<Rightarrow>
           (rewritten, \<lparr>ir_index = i, ir_req = req1, ir_res = res\<lparr>Error := Some (override_error rctx err)\<rparr>\<rparr> # overridden)
       | RewriteOverrideResponse \<Rightarrow> (rewritten, \<lparr>ir_index = i, ir_req = req1, ir_res = res\<rparr> # overridden)
       | _ \<Rightarrow> (req1 # rewritten, overridden))))"

definition OverwriteConsensusResponses ::
  "geth \<Rightarrow> 't ConsensusTracker \<Rightarrow> ('e, 't) ConsensusPoller \<Rightarrow> RPCReq list \<Rightarrow> (RPCReq list \<times> indexedReqRes list) outcome" where
  "OverwriteConsensusResponses G T cp rpcReqs = overwrite_loop G (rewrite_context T cp) 0 rpcReqs"

text \<open>Inserting into a slice at an index; beyond its length Go panics.\<close>

definition insert_at :: "nat \<Rightarrow> 'a \<Rightarrow> 'a list \<Rightarrow> 'a list" where
  "insert_at i x xs = take i xs @ x # drop i xs"

fun OverrideResponses :: "RPCRes list \<Rightarrow> indexedReqRes list \<Rightarrow> RPCRes list outcome" where
  "OverrideResponses res [] = Return res"
| "OverrideResponses res (ov # ovs) =
     (if res \<noteq> [] then
        (if ir_index ov > length res then Panic ''slice bounds out of range''
         else OverrideResponses (insert_at (ir_index ov) (ir_res ov) res) ovs)
      else OverrideResponses (res @ [ir_res ov]) ovs)"

text \<open>The requests as the caller sees them afterwards: the ones sent on, as they are now, and the overridden ones.\<close>

definition requests_after :: "RPCReq list \<Rightarrow> indexedReqRes list \<Rightarrow> RPCReq list" where
  "requests_after sent ovs = fold (\<lambda>ov reqs. insert_at (ir_index ov) (ir_req ov) reqs) ovs sent"

subsection \<open>Trying the backends\<close>

record BackendGroupRPCResponse =
  bgr_RPCRes :: "RPCRes list"
  ServedBy :: string
  bgr_error :: "err option"

definition group_error :: "string \<Rightarrow> err \<Rightarrow> BackendGroupRPCResponse" where
  "group_error servedBy err = \<lparr>bgr_RPCRes = [], ServedBy = servedBy, bgr_error = Some err\<rparr>"

text \<open>The errors that are returned at once, without and with the name of the backend; every other error moves on to the next backend.\<close>

definition client_error :: "err \<Rightarrow> bool" where
  "client_error err \<longleftrightarrow> err_is err ErrConsensusGetReceiptsCantBeBatched \<or> err_is err ErrConsensusGetReceiptsInvalidTarget \<or>
     err_is err (RpcE ErrContextCanceled)"

definition passed_error :: "err \<Rightarrow> bool" where
  "passed_error err \<longleftrightarrow> err_is err (RpcE ErrBackendResponseTooLarge) \<or> err_is err (RpcE ErrRequestBodyTooLarge) \<or>
     err_is err (RpcE ErrMethodNotWhitelisted)"

type_synonym ('e, 'm) group_result =
  "('e \<times> (string \<Rightarrow> 'm Backend) \<times> RPCReq list \<times> BackendGroupRPCResponse) outcome"

fun ForwardRequestToBackendGroup ::
  "'e World \<Rightarrow> 'm lhm \<Rightarrow> geth \<Rightarrow> Ctx \<Rightarrow> BackendGroup \<Rightarrow> bool \<Rightarrow> string list \<Rightarrow> 'e \<Rightarrow> (string \<Rightarrow> 'm Backend) \<Rightarrow> RPCReq list
    \<Rightarrow> ('e, 'm) group_result" where
  "ForwardRequestToBackendGroup W L G ctx bg isBatch [] e bes reqs =
     Return (e, bes, reqs, group_error [] (RpcE ErrNoBackends))"
| "ForwardRequestToBackendGroup W L G ctx bg isBatch (back # backends) e bes reqs =
     (let servedBy = bg_Name bg @ ''/'' @ Name (bes back)
      in if reqs = [] then Return (e, bes, reqs, \<lparr>bgr_RPCRes = [], ServedBy = servedBy, bgr_error = None\<rparr>)
         else obind (Forward W L G ctx e (bes back) reqs isBatch) (\<lambda>(e1, b1, reqs1, r).
           case r of
             Inr res \<Rightarrow> Return (e1, bes(back := b1), reqs1, \<lparr>bgr_RPCRes = res, ServedBy = servedBy, bgr_error = None\<rparr>)
           | Inl err \<Rightarrow>
               if client_error err then Return (e1, bes(back := b1), reqs1, group_error [] err)
               else if passed_error err then Return (e1, bes(back := b1), reqs1, group_error servedBy err)
               else ForwardRequestToBackendGroup W L G ctx bg isBatch backends e1 (bes(back := b1)) reqs1))"

subsection \<open>The multicall strategy\<close>

record multicallTuple =
  mt_response :: BackendGroupRPCResponse
  mt_backendName :: string

definition isValidMulticallTx :: "RPCReq list \<Rightarrow> bool" where
  "isValidMulticallTx rpcReqs \<longleftrightarrow> length rpcReqs = 1 \<and> Method (hd rpcReqs) = ''eth_sendRawTransaction''"

text \<open>
  The goroutines send the request to every backend and put their responses into a channel. The model
  runs them in the order in which they complete, which \<open>w_order\<close> chooses, so the channel is the list of their responses.
  Their context cannot be cancelled; cancellation is a reply of the world here, so the model allows more replies than the code can get.
\<close>

fun MulticallRequests ::
  "'e World \<Rightarrow> 'm lhm \<Rightarrow> geth \<Rightarrow> Ctx \<Rightarrow> BackendGroup \<Rightarrow> string list \<Rightarrow> 'e \<Rightarrow> (string \<Rightarrow> 'm Backend) \<Rightarrow> RPCReq list
    \<Rightarrow> ('e \<times> (string \<Rightarrow> 'm Backend) \<times> RPCReq list \<times> multicallTuple list) outcome" where
  "MulticallRequests W L G ctx bg [] e bes reqs = Return (e, bes, reqs, [])"
| "MulticallRequests W L G ctx bg (backend # backends) e bes reqs =
     obind (ForwardRequestToBackendGroup W L G ctx bg False [backend] e bes reqs) (\<lambda>(e1, bes1, reqs1, resp).
     obind (MulticallRequests W L G ctx bg backends e1 bes1 reqs1) (\<lambda>(e2, bes2, reqs2, ch).
       Return (e2, bes2, reqs2, \<lparr>mt_response = resp, mt_backendName = Name (bes backend)\<rparr> # ch)))"

fun ProcessMulticallResponses ::
  "bool \<Rightarrow> BackendGroupRPCResponse option \<Rightarrow> multicallTuple list \<Rightarrow> BackendGroupRPCResponse outcome" where
  "ProcessMulticallResponses errorCheck finalResp [] =
     Return (case finalResp of Some resp \<Rightarrow> resp | None \<Rightarrow> group_error [] (Sentinel ''no multicall response received''))"
| "ProcessMulticallResponses errorCheck finalResp (multicallResp # ch) =
     (let resp = mt_response multicallResp
      in if bgr_error resp \<noteq> None then ProcessMulticallResponses errorCheck (Some resp) ch
         else if errorCheck then
           (case bgr_RPCRes resp of
              [] \<Rightarrow> Panic ''index out of range''
            | r # _ \<Rightarrow> if IsError r then ProcessMulticallResponses errorCheck (Some resp) ch else Return resp)
         else Return resp)"

definition ExecuteMulticall ::
  "'e World \<Rightarrow> 'm lhm \<Rightarrow> geth \<Rightarrow> Ctx \<Rightarrow> BackendGroup \<Rightarrow> 'e \<Rightarrow> (string \<Rightarrow> 'm Backend) \<Rightarrow> RPCReq list \<Rightarrow> ('e, 'm) group_result" where
  "ExecuteMulticall W L G ctx bg e bes reqs =
     (case w_order W e (Backends bg) of (e0, arrival) \<Rightarrow>
        obind (MulticallRequests W L G ctx bg arrival e0 bes reqs) (\<lambda>(e1, bes1, reqs1, ch).
        obind (ProcessMulticallResponses (multicallRPCErrorCheck bg) None ch) (\<lambda>resp.
          Return (e1, bes1, reqs1, resp))))"

subsection \<open>Forwarding\<close>

definition group_Forward ::
  "'e World \<Rightarrow> 'e Shuffler \<Rightarrow> 'm lhm \<Rightarrow> geth \<Rightarrow> 't ConsensusTracker \<Rightarrow> Ctx \<Rightarrow> BackendGroup \<Rightarrow> ('e, 't) ConsensusPoller option
    \<Rightarrow> 'e \<Rightarrow> (string \<Rightarrow> 'm Backend) \<Rightarrow> RPCReq list \<Rightarrow> bool \<Rightarrow> ('e, 'm) group_result" where
  "group_Forward W S L G T ctx bg con e bes rpcReqs isBatch =
     (if rpcReqs = [] then Return (e, bes, [], \<lparr>bgr_RPCRes = [], ServedBy = [], bgr_error = None\<rparr>)
      else case orderedBackendsForRequest W S L bg bes con e of (e1, backends) \<Rightarrow>
        obind (case con of None \<Rightarrow> Return (rpcReqs, []) | Some cp \<Rightarrow> OverwriteConsensusResponses G T cp rpcReqs)
          (\<lambda>(reqs1, overridden).
          if routingStrategy bg = MulticallRoutingStrategy \<and> isValidMulticallTx reqs1 \<and> \<not> isBatch then
            obind (ExecuteMulticall W L G ctx bg e1 bes reqs1) (\<lambda>(e2, bes2, reqs2, resp).
              Return (e2, bes2, requests_after reqs2 overridden, resp))
          else
            obind (ForwardRequestToBackendGroup W L G ctx bg isBatch backends e1 bes reqs1) (\<lambda>(e2, bes2, reqs2, resp).
              case bgr_error resp of
                Some err \<Rightarrow> Return (e2, bes2, requests_after reqs2 overridden, resp)
              | None \<Rightarrow>
                  obind (OverrideResponses (bgr_RPCRes resp) overridden) (\<lambda>res.
                    Return (e2, bes2, requests_after reqs2 overridden, resp\<lparr>bgr_RPCRes := res\<rparr>)))))"

subsection \<open>Lemmas on rewriting and overriding\<close>

lemma RewriteTags_ids:
  assumes "RewriteTags G rctx req res = Return (rw, err, req', res')"
  shows "ID req' = ID req \<and> rs_ID res' = rs_ID res"
proof -
  have p: "ID q' = ID q" if "rewriteParam G rctx q pos required b = (rw, e, q')" for q q' pos required b rw e
    using that by (auto simp: rewriteParam_def Let_def split: option.splits if_splits sum.splits prod.splits)
  have r: "ID q' = ID q" if "rewriteRange G rctx q pos = Return (rw, e, q')" for q q' pos rw e
    using that by (auto simp: rewriteRange_def Let_def go_outcome split: option.splits if_splits sum.splits prod.splits list.splits)
  have "ID req' = ID req" if "RewriteRequest G rctx req = Return (rw, err, req')"
    using that p r by (auto simp: RewriteRequest_def split: if_splits option.splits)
  then show ?thesis using assms
    by (auto simp: RewriteTags_def RewriteResponse_def go_outcome split: prod.splits RewriteResult.splits if_splits)
qed

lemma overwrite_loop_Cons:
  assumes "overwrite_loop G rctx i (req # reqs) = Return (rw, ov)"
  obtains (forwarded) result err req1 res rw1 where
    "RewriteTags G rctx req (NewRPCRes (ID req) NilVal) = Return (result, err, req1, res)"
    "result = RewriteNone \<or> result = RewriteOverrideRequest" "overwrite_loop G rctx (Suc i) reqs = Return (rw1, ov)" "rw = req1 # rw1"
  | (overridden) o1 ov1 where "ir_index o1 = i" "ID (ir_req o1) = ID req" "rs_ID (ir_res o1) = ID req"
    "overwrite_loop G rctx (Suc i) reqs = Return (rw, ov1)" "ov = o1 # ov1"
proof -
  obtain result err req1 res where t: "RewriteTags G rctx req (NewRPCRes (ID req) NilVal) = Return (result, err, req1, res)"
    using assms by (auto simp: go_outcome)
  obtain rw1 ov1 where l: "overwrite_loop G rctx (Suc i) reqs = Return (rw1, ov1)" using assms t by (auto simp: go_outcome)
  note ids = RewriteTags_ids [OF t]
  show ?thesis
  proof (cases result)
    case RewriteNone
    then show ?thesis using assms t l forwarded by auto
  next
    case RewriteOverrideRequest
    then show ?thesis using assms t l forwarded by auto
  next
    case RewriteOverrideError
    then show ?thesis using assms t l ids
      by (intro overridden [of "\<lparr>ir_index = i, ir_req = req1, ir_res = res\<lparr>Error := Some (override_error rctx err)\<rparr>\<rparr>" ov1]) auto
  next
    case RewriteOverrideResponse
    then show ?thesis using assms t l ids
      by (intro overridden [of "\<lparr>ir_index = i, ir_req = req1, ir_res = res\<rparr>" ov1]) auto
  qed
qed

text \<open>The overridden responses go back to where their requests were.\<close>

lemma OverrideResponses_step:
  "ir_index ov = length P \<Longrightarrow> OverrideResponses (P @ rs) (ov # ovs) = OverrideResponses ((P @ [ir_res ov]) @ rs) ovs"
  by (cases "P = [] \<and> rs = []") (simp_all add: insert_at_def)

lemma override_align:
  assumes "overwrite_loop G rctx i reqs = Return (rw, ov)" and "length P = i" and "length rs = length rw"
  shows "\<exists>res. OverrideResponses (P @ rs) ov = Return (P @ res) \<and> length res = length reqs \<and>
    (map rs_ID rs = map ID rw \<longrightarrow> map rs_ID res = map ID reqs)"
  using assms
proof (induction reqs arbitrary: i rw ov P rs)
  case (Cons req reqs)
  from Cons.prems(1) show ?case
  proof (cases rule: overwrite_loop_Cons)
    case (forwarded result err req1 res rw1)
    then obtain r rs1 where rs: "rs = r # rs1" using Cons.prems(3) by (cases rs) auto
    have "ID req1 = ID req" using RewriteTags_ids [OF forwarded(1)] by simp
    then show ?thesis
      using Cons.IH [OF forwarded(3), of "P @ [r]" rs1] Cons.prems(2,3) forwarded(4) rs by auto
  next
    case (overridden o1 ov1)
    from Cons.IH [OF overridden(4), of "P @ [ir_res o1]" rs] Cons.prems(2,3) obtain res where
      "OverrideResponses ((P @ [ir_res o1]) @ rs) ov1 = Return ((P @ [ir_res o1]) @ res)" "length res = length reqs"
      "map rs_ID rs = map ID rw \<longrightarrow> map rs_ID res = map ID reqs" by auto
    then show ?thesis using OverrideResponses_step [of o1 P rs ov1] Cons.prems(2) overridden by auto
  qed
qed simp

lemma requests_after_align:
  assumes "overwrite_loop G rctx i reqs = Return (rw, ov)" and "length P = i" and "map ID qs = map ID rw"
  shows "\<exists>qs'. fold (\<lambda>ov reqs. insert_at (ir_index ov) (ir_req ov) reqs) ov (P @ qs) = P @ qs' \<and> map ID qs' = map ID reqs"
  using assms
proof (induction reqs arbitrary: i rw ov P qs)
  case (Cons req reqs)
  from Cons.prems(1) show ?case
  proof (cases rule: overwrite_loop_Cons)
    case (forwarded result err req1 res rw1)
    then obtain q qs1 where qs: "qs = q # qs1" "map ID qs1 = map ID rw1" "ID q = ID req1" using Cons.prems(3) by (cases qs) auto
    have "ID req1 = ID req" using RewriteTags_ids [OF forwarded(1)] by simp
    then show ?thesis using Cons.IH [OF forwarded(3), of "P @ [q]" qs1] Cons.prems(2) qs by auto
  next
    case (overridden o1 ov1)
    then show ?thesis using Cons.IH [OF overridden(4), of "P @ [ir_req o1]" qs] Cons.prems(2,3) by (auto simp: insert_at_def)
  qed
qed simp

lemma overwrite_loop_sound:
  assumes "geth_codec G" and "ordered_ctx rctx" and "overwrite_loop G rctx i reqs = Return (rw, ov)" and "q \<in> set rw"
  shows "(\<forall>v\<in>set (block_refs q). in_consensus G rctx v) \<and> Method q \<noteq> ''eth_blockNumber''"
  using assms(3,4)
proof (induction reqs arbitrary: i rw ov)
  case (Cons req reqs)
  from Cons.prems(1) show ?case
  proof (cases rule: overwrite_loop_Cons)
    case (forwarded result err req1 res rw1)
    note s = RewriteTags_sound [OF assms(1,2) forwarded(1,2)]
    have "Method req1 = Method req" using s by (metis RPCReq.select_convs(2) RPCReq.surjective RPCReq.update_convs(3))
    moreover have "Method req \<noteq> ''eth_blockNumber''" using RewriteTags_Return [OF forwarded(1,2)] by simp
    ultimately show ?thesis using s forwarded Cons.IH [OF forwarded(3)] Cons.prems(2) by auto
  qed (use Cons in auto)
qed simp

subsection \<open>Lemmas on trying the backends\<close>

lemma forward_loop_ids:
  "forward_loop W L G ctx isBatch n i le e b reqs = Return (e', b', reqs', r) \<Longrightarrow> map ID reqs' = map ID reqs"
proof (induction n arbitrary: i le e b reqs)
  case (Suc n)
  obtain e1 b1 reqs1 x where f: "doForward W L G ctx e b reqs isBatch = Return (e1, b1, reqs1, x)"
    using Suc.prems by (auto simp: go_outcome split: if_splits)
  have "map ID reqs' = map ID reqs1" using Suc.prems f Suc.IH [of "Suc i"] by (cases x) (auto simp: Let_def split: if_splits)
  then show ?case using doForward_ids [OF f] by simp
qed simp

lemma Forward_ids: "Forward W L G ctx e b reqs isBatch = Return (e', b', reqs', r) \<Longrightarrow> map ID reqs' = map ID reqs"
  unfolding Forward_def by (rule forward_loop_ids)

text \<open>One backend of the loop: it serves, it ends the loop with an error, or the next one is tried.\<close>

lemma group_Cons:
  assumes "ForwardRequestToBackendGroup W L G ctx bg isBatch (b # bs) e bes reqs = Return (e', bes', reqs', resp)" and "reqs \<noteq> []"
  obtains (served) b1 rs where "Forward W L G ctx e (bes b) reqs isBatch = Return (e', b1, reqs', Inr rs)" "bes' = bes(b := b1)"
    "resp = \<lparr>bgr_RPCRes = rs, ServedBy = bg_Name bg @ ''/'' @ Name (bes b), bgr_error = None\<rparr>"
  | (ended) b1 err where "Forward W L G ctx e (bes b) reqs isBatch = Return (e', b1, reqs', Inl err)" "bes' = bes(b := b1)"
    "client_error err \<or> passed_error err" "bgr_error resp = Some err"
  | (moved) e1 b1 reqs1 err where "Forward W L G ctx e (bes b) reqs isBatch = Return (e1, b1, reqs1, Inl err)"
    "\<not> client_error err" "\<not> passed_error err" "reqs1 \<noteq> []" "map ID reqs1 = map ID reqs"
    "ForwardRequestToBackendGroup W L G ctx bg isBatch bs e1 (bes(b := b1)) reqs1 = Return (e', bes', reqs', resp)"
proof -
  obtain e1 b1 reqs1 r where f: "Forward W L G ctx e (bes b) reqs isBatch = Return (e1, b1, reqs1, r)"
    using assms by (auto simp: Let_def go_outcome)
  have ids: "map ID reqs1 = map ID reqs" by (rule Forward_ids [OF f])
  then have ne: "reqs1 \<noteq> []" using assms(2) by auto
  show ?thesis
  proof (cases r)
    case (Inr rs)
    then show ?thesis using assms f served by (auto simp: Let_def)
  next
    case (Inl err)
    show ?thesis
    proof (cases "client_error err \<or> passed_error err")
      case True
      then show ?thesis using assms f Inl ended by (auto simp: Let_def group_error_def split: if_splits)
    next
      case False
      then show ?thesis using assms f Inl ids ne moved by (simp add: Let_def)
    qed
  qed
qed

lemma group_served:
  assumes "ForwardRequestToBackendGroup W L G ctx bg isBatch bs e bes reqs = Return (e', bes', reqs', resp)"
    and "bgr_error resp = None" and "reqs \<noteq> []"
  shows "\<exists>e0 b0 qs b1. map ID qs = map ID reqs \<and> Forward W L G ctx e0 b0 qs isBatch = Return (e', b1, reqs', Inr (bgr_RPCRes resp))"
  using assms
proof (induction bs arbitrary: e bes reqs)
  case (Cons b bs)
  from Cons.prems(1,3) show ?case
  proof (cases rule: group_Cons)
    case served
    then show ?thesis by auto
  next
    case ended
    then show ?thesis using Cons.prems(2) by simp
  next
    case moved
    then show ?thesis using Cons.IH [OF moved(6)] Cons.prems(2) by metis
  qed
qed (auto simp: group_error_def)

lemma group_ids:
  assumes "ForwardRequestToBackendGroup W L G ctx bg isBatch bs e bes reqs = Return (e', bes', reqs', resp)"
  shows "map ID reqs' = map ID reqs"
proof (cases "reqs = []")
  case True
  then show ?thesis using assms by (cases bs) (auto simp: Let_def)
next
  case False
  then show ?thesis using assms
  proof (induction bs arbitrary: e bes reqs)
    case (Cons b bs)
    from Cons.prems(2,1) show ?case
    proof (cases rule: group_Cons)
      case moved
      then show ?thesis using Cons.IH by metis
    qed (blast intro: Forward_ids)+
  qed auto
qed

subsection \<open>Shuffles permute\<close>

locale shuffler =
  fixes S :: "'e Shuffler"
  assumes shuffle_perm: "mset (snd (sh_Shuffle S e xs)) = mset xs"
    and weighted_perm: "mset (snd (sh_ShuffleInplace S e xs w)) = mset xs"
begin

lemma weightedShuffle_perm: "mset (snd (weightedShuffle S bes e xs)) = mset xs"
  by (simp add: weightedShuffle_def weighted_perm)

lemma loadBalanced_split:
  assumes "loadBalancedConsensusGroup W S L bg bes cp e = (e', xs)"
  shows "\<exists>hs ds. xs = hs @ ds \<and>
    mset hs = mset (filter (\<lambda>be. IsHealthy L (w_now W e) (bes be) \<and> \<not> IsDegraded L (w_now W e) (bes be)) (consensusGroup cp)) \<and>
    mset ds = mset (filter (\<lambda>be. IsHealthy L (w_now W e) (bes be) \<and> IsDegraded L (w_now W e) (bes be)) (consensusGroup cp))"
proof -
  let ?cg = "filter (\<lambda>be. IsHealthy L (w_now W e) (bes be)) (consensusGroup cp)"
  let ?h = "filter (\<lambda>be. \<not> IsDegraded L (w_now W e) (bes be)) ?cg" and ?d = "filter (\<lambda>be. IsDegraded L (w_now W e) (bes be)) ?cg"
  obtain e1 h1 where h1: "sh_Shuffle S e ?h = (e1, h1)" by (metis surj_pair)
  obtain e2 d1 where d1: "sh_Shuffle S e1 ?d = (e2, d1)" by (metis surj_pair)
  obtain e3 h2 where h2: "weightedShuffle S bes e2 h1 = (e3, h2)" by (metis surj_pair)
  have p: "mset h1 = mset ?h" "mset d1 = mset ?d" "mset h2 = mset h1"
    using shuffle_perm [of e ?h] shuffle_perm [of e1 ?d] weightedShuffle_perm [of bes e2 h1] h1 d1 h2 by simp_all
  have "xs = (if WeightedRouting bg then h2 else h1) @ d1"
    using assms h1 d1 h2 by (auto simp: loadBalancedConsensusGroup_def Let_def GetConsensusGroup_def)
  moreover have "mset (if WeightedRouting bg then h2 else h1) =
      mset (filter (\<lambda>be. IsHealthy L (w_now W e) (bes be) \<and> \<not> IsDegraded L (w_now W e) (bes be)) (consensusGroup cp))"
    "mset d1 = mset (filter (\<lambda>be. IsHealthy L (w_now W e) (bes be) \<and> IsDegraded L (w_now W e) (bes be)) (consensusGroup cp))"
    using p by (simp_all add: conj_commute)
  ultimately show ?thesis by blast
qed

lemma ordered_split:
  assumes "orderedBackendsForRequest W S L bg bes None e = (e', xs)"
  shows "\<exists>hs us. xs = hs @ us \<and> mset hs = mset (filter (\<lambda>be. IsHealthy L (w_now W e) (bes be)) (Backends bg)) \<and>
    mset us = mset (filter (\<lambda>be. \<not> IsHealthy L (w_now W e) (bes be)) (Backends bg))"
proof -
  let ?h = "filter (\<lambda>be. IsHealthy L (w_now W e) (bes be)) (Backends bg)" and ?u = "filter (\<lambda>be. \<not> IsHealthy L (w_now W e) (bes be)) (Backends bg)"
  obtain e1 h1 where h1: "weightedShuffle S bes e ?h = (e1, h1)" by (metis surj_pair)
  obtain e2 u1 where u1: "weightedShuffle S bes e1 ?u = (e2, u1)" by (metis surj_pair)
  have p: "mset h1 = mset ?h" "mset u1 = mset ?u"
    using weightedShuffle_perm [of bes e ?h] weightedShuffle_perm [of bes e1 ?u] h1 u1 by simp_all
  show ?thesis
  proof (cases "WeightedRouting bg")
    case True
    then have "xs = h1 @ u1" using assms h1 u1 by (simp add: orderedBackendsForRequest_def Let_def)
    then show ?thesis using p by blast
  next
    case False
    then have "xs = ?h @ ?u" using assms by (auto simp: orderedBackendsForRequest_def Let_def)
    then show ?thesis by blast
  qed
qed

end

text \<open>A shuffler for examples: it turns the list around.\<close>

definition rev_shuffler :: "'e Shuffler" where
  "rev_shuffler = \<lparr>sh_Shuffle = \<lambda>e xs. (e, rev xs), sh_ShuffleInplace = \<lambda>e xs w. (e, rev xs)\<rparr>"

interpretation rev_shuffle: shuffler rev_shuffler
  by unfold_locales (simp_all add: rev_shuffler_def)

lemma group_untouched:
  assumes "ForwardRequestToBackendGroup W L G ctx bg isBatch bs e bes reqs = Return (e', bes', reqs', resp)" and "c \<notin> set bs"
  shows "bes' c = bes c"
proof (cases "reqs = []")
  case True
  then show ?thesis using assms(1) by (cases bs) (auto simp: Let_def)
next
  case False
  then show ?thesis using assms
  proof (induction bs arbitrary: e bes reqs)
    case (Cons b bs)
    from Cons.prems(2,1) show ?case
    proof (cases rule: group_Cons)
      case moved
      then show ?thesis using Cons.IH [OF moved(4,6)] Cons.prems(3) by simp
    qed (use Cons.prems(3) in auto)
  qed auto
qed

text \<open>What a request that is not sent to all backends at once does, step by step.\<close>

lemma group_Forward_cases:
  assumes "group_Forward W S L G T ctx bg con e bes reqs isBatch = Return (e', bes', reqs', resp)" and "reqs \<noteq> []"
    and "isBatch \<or> routingStrategy bg \<noteq> MulticallRoutingStrategy"
  obtains e1 backends reqs1 ov reqs2 resp1 where "orderedBackendsForRequest W S L bg bes con e = (e1, backends)"
    "(case con of None \<Rightarrow> Return (reqs, []) | Some cp \<Rightarrow> OverwriteConsensusResponses G T cp reqs) = Return (reqs1, ov)"
    "ForwardRequestToBackendGroup W L G ctx bg isBatch backends e1 bes reqs1 = Return (e', bes', reqs2, resp1)"
    "reqs' = requests_after reqs2 ov" "bgr_error resp = bgr_error resp1" "ServedBy resp = ServedBy resp1"
    "bgr_error resp1 = None \<Longrightarrow> OverrideResponses (bgr_RPCRes resp1) ov = Return (bgr_RPCRes resp)"
    "bgr_error resp1 \<noteq> None \<Longrightarrow> resp = resp1"
proof -
  obtain e1 backends where o: "orderedBackendsForRequest W S L bg bes con e = (e1, backends)" by (metis surj_pair)
  let ?rw = "case con of None \<Rightarrow> Return (reqs, []) | Some cp \<Rightarrow> OverwriteConsensusResponses G T cp reqs"
  obtain reqs1 ov where rw: "?rw = Return (reqs1, ov)"
    using assms o by (cases ?rw) (auto simp: group_Forward_def)
  let ?f = "ForwardRequestToBackendGroup W L G ctx bg isBatch backends e1 bes reqs1"
  obtain e2 bes2 reqs2 resp1 where f: "?f = Return (e2, bes2, reqs2, resp1)"
    using assms o rw by (cases ?f) (auto simp: group_Forward_def)
  show ?thesis
  proof (cases "bgr_error resp1")
    case None
    then obtain res where "OverrideResponses (bgr_RPCRes resp1) ov = Return res" "resp = resp1\<lparr>bgr_RPCRes := res\<rparr>"
      "e' = e2" "bes' = bes2" "reqs' = requests_after reqs2 ov"
      using assms o rw f by (auto simp: group_Forward_def go_outcome)
    then show ?thesis using that [OF o rw] f None by simp
  next
    case (Some err)
    then have "resp = resp1" "e' = e2" "bes' = bes2" "reqs' = requests_after reqs2 ov"
      using assms o rw f by (auto simp: group_Forward_def)
    then show ?thesis using that [OF o rw] f Some by simp
  qed
qed

subsection \<open>Where the responses come from\<close>

lemma forward_loop_served:
  "forward_loop W L G ctx isBatch n i le e b reqs = Return (e', b', reqs', Inr rs) \<Longrightarrow>
     \<exists>e0 b0 qs. map ID qs = map ID reqs \<and> doForward W L G ctx e0 b0 qs isBatch = Return (e', b', reqs', Inr rs)"
proof (induction n arbitrary: i le e b reqs)
  case (Suc n)
  obtain e1 b1 reqs1 x where f: "doForward W L G ctx e b reqs isBatch = Return (e1, b1, reqs1, x)"
    using Suc.prems by (auto simp: go_outcome split: if_splits)
  show ?case
  proof (cases x)
    case (Inr rs')
    then show ?thesis using Suc.prems f by (auto split: if_splits)
  next
    case (Inl err)
    then show ?thesis using Suc.prems f Suc.IH doForward_ids [OF f] by (fastforce simp: Let_def split: if_splits)
  qed
qed simp

lemma handle_response_source:
  assumes "handle_response W L b e start reqs ids hr = Return (e', b', reqs', Inr rs)"
  shows "\<exists>resB prs. ReadAll_limited (maxResponseSize b) hr = Inr resB \<and> parse_responses W (length reqs) resB = Inr prs \<and>
    mset (map (Some \<circ> rs_ID) rs) = mset (map (map_option rs_ID) prs)"
proof -
  obtain resB where body: "ReadAll_limited (maxResponseSize b) hr = Inr resB"
    using assms by (auto simp: handle_response_def Let_def split: if_splits sum.splits prod.splits)
  obtain prs where prs: "parse_responses W (length reqs) resB = Inr prs"
    using assms body by (auto simp: handle_response_def Let_def split: if_splits sum.splits prod.splits)
  obtain rs1 rs2 where r: "(if StatusCode hr \<noteq> 200 then set_status (StatusCode hr) prs else Return prs) = Return rs1"
    "enrich_responses ids (receiptsTarget b) rs1 = Return rs2" "sortBatchRPCResponse reqs rs2 = Return rs"
    using assms body prs by (auto simp: handle_response_def Let_def go_outcome split: if_splits)
  have "map (map_option rs_ID) rs1 = map (map_option rs_ID) prs" using r(1) set_status_ids by (auto split: if_splits)
  moreover have "map (Some \<circ> rs_ID) rs2 = map (map_option rs_ID) rs1" by (rule enrich_responses_ids [OF r(2)])
  moreover have "mset rs = mset rs2" using r(3) by (auto simp: sortBatchRPCResponse_def split: if_splits)
  ultimately have "mset (map (Some \<circ> rs_ID) rs) = mset (map (map_option rs_ID) prs)" by (metis mset_map)
  then show ?thesis using body prs by blast
qed

lemma DoLimited_source:
  "DoLimited W b e req = (e1, Inr hr) \<Longrightarrow> \<exists>e0 e2. http_Do W e0 (Name b) req = (e2, Inr hr)"
  by (auto simp: DoLimited_def split: if_splits prod.splits option.splits)

lemma doForward_source:
  assumes "doForward W L G ctx e b reqs isBatch = Return (e', b', reqs', Inr rs)"
  shows "\<exists>qs e0 e1 hr resB prs. map ID qs = map ID reqs \<and>
    http_Do W e0 (Name b) (upstream_request (count_request L (w_now W e) b) ctx qs) = (e1, Inr hr) \<and>
    ReadAll_limited (maxResponseSize b) hr = Inr resB \<and> parse_responses W (length qs) resB = Inr prs \<and>
    mset (map (Some \<circ> rs_ID) rs) = mset (map (map_option rs_ID) prs)"
proof -
  let ?b = "count_request L (w_now W e) b"
  obtain qs ids where p: "prepare_requests G (receiptsTarget ?b) reqs isBatch = Return (qs, ids, None)"
    using assms by (auto simp: doForward_def Let_def go_outcome split: option.splits)
  obtain e1 hr where d: "DoLimited W ?b e (upstream_request ?b ctx qs) = (e1, Inr hr)"
    and h: "handle_response W L ?b e1 (w_now W e) qs ids hr = Return (e', b', reqs', Inr rs)"
    using assms p by (auto simp: doForward_def Let_def split: if_splits prod.splits sum.splits)
  obtain e0 e2 where "http_Do W e0 (Name b) (upstream_request ?b ctx qs) = (e2, Inr hr)" using DoLimited_source [OF d] by auto
  moreover from handle_response_source [OF h]
  obtain resB prs where "ReadAll_limited (maxResponseSize b) hr = Inr resB" "parse_responses W (length qs) resB = Inr prs"
    "mset (map (Some \<circ> rs_ID) rs) = mset (map (map_option rs_ID) prs)" by auto
  ultimately show ?thesis using prepare_requests_ids [OF p] by blast
qed

text \<open>A world that echoes the ids of a request, the last one first; the ids are single characters.\<close>

definition echo_world :: "unit World" where
  "echo_world = (chain_world (\<lambda>_ _. CHR ''h''))\<lparr>
     http_Do := \<lambda>e name req. (e, Inr (http_reply 200 (case hq_body req of Single r \<Rightarrow> ID r | Batch rs \<Rightarrow> rev (concat (map ID rs))))),
     json_RPCRes := \<lambda>body. Some (NewRPCRes body (Val (JStr body))),
     json_RPCRes_slice := \<lambda>body. Some (map (\<lambda>c. Some (NewRPCRes [c] (Val (JStr [c])))) body)\<rparr>"

lemma single_ids: "\<forall>q\<in>set qs. length (ID q) = 1 \<Longrightarrow> map (\<lambda>c. [c]) (concat (map ID qs)) = map ID qs"
proof (induction qs)
  case (Cons q qs)
  then obtain c where "ID q = [c]" by (metis One_nat_def length_0_conv length_Suc_conv list.set_intros(1))
  then show ?case using Cons by simp
qed simp

lemma echo_world_answers:
  assumes f: "Forward echo_world L G ctx e b reqs isBatch = Return (e', b', reqs', Inr rs)" and ids: "\<forall>q\<in>set reqs. length (ID q) = 1"
  shows "mset (map rs_ID rs) = mset (map ID reqs)"
proof -
  obtain e0 b0 qs0 where q0: "map ID qs0 = map ID reqs" "doForward echo_world L G ctx e0 b0 qs0 isBatch = Return (e', b', reqs', Inr rs)"
    using forward_loop_served [OF f [unfolded Forward_def]] by blast
  obtain qs e2 e1 hr resB prs where q: "map ID qs = map ID qs0"
      "http_Do echo_world e2 (Name b0) (upstream_request (count_request L (w_now echo_world e0) b0) ctx qs) = (e1, Inr hr)"
      "ReadAll_limited (maxResponseSize b0) hr = Inr resB" "parse_responses echo_world (length qs) resB = Inr prs"
      "mset (map (Some \<circ> rs_ID) rs) = mset (map (map_option rs_ID) prs)"
    using doForward_source [OF q0(2)] by blast
  have qids: "map ID qs = map ID reqs" using q(1) q0(1) by simp
  then have len1: "\<forall>q\<in>set qs. length (ID q) = 1" using ids by (metis in_set_conv_nth length_map nth_map nth_mem)
  have body: "resB = body_bytes hr" using q(3) by (auto simp: ReadAll_limited_def Let_def split: if_splits option.splits)
  have "map (map_option rs_ID) prs = (if length qs = 1 then [Some (ID (hd qs))] else map (Some \<circ> ID) (rev qs))"
  proof (cases "length qs = 1")
    case True
    then show ?thesis using q(2,4) body
      by (auto simp: echo_world_def chain_world_def upstream_request_def http_reply_def parse_responses_def split: if_splits)
  next
    case False
    then have "resB = rev (concat (map ID qs))" using q(2) body
      by (auto simp: echo_world_def chain_world_def upstream_request_def http_reply_def)
    then have "map (map_option rs_ID) prs = map Some (rev (map (\<lambda>c. [c]) (concat (map ID qs))))"
      using q(4) False by (auto simp: parse_responses_def echo_world_def rev_map split: if_splits)
    then show ?thesis using False single_ids [OF len1] by (simp add: rev_map)
  qed
  then have "mset (map (map_option rs_ID) prs) = mset (map (Some \<circ> ID) qs)"
    by (cases qs) (auto simp flip: rev_map split: if_splits)
  then have "image_mset Some (mset (map rs_ID rs)) = image_mset Some (mset (map ID reqs))"
    using q(5) qids by (metis (no_types, lifting) map_map mset_map)
  then show ?thesis by (metis inj_Some multiset.inj_map_strong option.inject)
qed

lemma overwrite_loop_subset: "overwrite_loop G rctx i reqs = Return (rw, ov) \<Longrightarrow> set (map ID rw) \<subseteq> set (map ID reqs)"
proof (induction reqs arbitrary: i rw ov)
  case (Cons req reqs)
  from Cons.prems show ?case
  proof (cases rule: overwrite_loop_Cons)
    case (forwarded result err req1 res rw1)
    then show ?thesis using Cons.IH [OF forwarded(3)] RewriteTags_ids [OF forwarded(1)] by auto
  next
    case (overridden o1 ov1)
    then show ?thesis using Cons.IH [OF overridden(4)] by auto
  qed
qed simp

lemma rewritten_requests:
  assumes "(case con of None \<Rightarrow> Return (reqs, []) | Some cp \<Rightarrow> OverwriteConsensusResponses G T cp reqs) = Return (reqs1, ov)"
  shows "set (map ID reqs1) \<subseteq> set (map ID reqs)"
    and "map ID qs = map ID reqs1 \<Longrightarrow> map ID (requests_after qs ov) = map ID reqs"
    and "map rs_ID rs = map ID reqs1 \<Longrightarrow> OverrideResponses rs ov = Return res \<Longrightarrow> map rs_ID res = map ID reqs"
proof -
  have "set (map ID reqs1) \<subseteq> set (map ID reqs) \<and> (map ID qs = map ID reqs1 \<longrightarrow> map ID (requests_after qs ov) = map ID reqs) \<and>
    (map rs_ID rs = map ID reqs1 \<longrightarrow> OverrideResponses rs ov = Return res \<longrightarrow> map rs_ID res = map ID reqs)"
  proof (cases con)
    case None
    then show ?thesis using assms by (auto simp: requests_after_def)
  next
    case (Some cp)
    then have l: "overwrite_loop G (rewrite_context T cp) 0 reqs = Return (reqs1, ov)"
      using assms by (simp add: OverwriteConsensusResponses_def)
    have "length rs = length reqs1" if "map rs_ID rs = map ID reqs1" using that by (metis length_map)
    then show ?thesis
      using overwrite_loop_subset [OF l] requests_after_align [OF l, of "[]" qs] override_align [OF l, of "[]" rs]
      by (auto simp: requests_after_def)
  qed
  then show "set (map ID reqs1) \<subseteq> set (map ID reqs)"
    "map ID qs = map ID reqs1 \<Longrightarrow> map ID (requests_after qs ov) = map ID reqs"
    "map rs_ID rs = map ID reqs1 \<Longrightarrow> OverrideResponses rs ov = Return res \<Longrightarrow> map rs_ID res = map ID reqs" by blast+
qed

text \<open>Without the race of multicall, a group that serves a batch without error aligns the responses with the requests.\<close>

lemma group_align:
  assumes f: "group_Forward W S L G T ctx bg con e bes reqs isBatch = Return (e', bes', reqs', resp)"
    and ok: "bgr_error resp = None" and strategy: "isBatch \<or> routingStrategy bg \<noteq> MulticallRoutingStrategy"
    and answers: "\<forall>e b qs e' b' qs' rs. Forward W L G ctx e b qs isBatch = Return (e', b', qs', Inr rs) \<and>
      set (map ID qs) \<subseteq> set (map ID reqs) \<longrightarrow> mset (map rs_ID rs) = mset (map ID qs)"
  shows "map rs_ID (bgr_RPCRes resp) = map ID reqs \<and> map ID reqs' = map ID reqs"
proof (cases "reqs = []")
  case True
  then show ?thesis using f by (auto simp: group_Forward_def)
next
  case False
  from f False strategy obtain e1 backends reqs1 ov reqs2 resp1 where
    rw: "(case con of None \<Rightarrow> Return (reqs, []) | Some cp \<Rightarrow> OverwriteConsensusResponses G T cp reqs) = Return (reqs1, ov)" and
    g: "ForwardRequestToBackendGroup W L G ctx bg isBatch backends e1 bes reqs1 = Return (e', bes', reqs2, resp1)" and
    r: "reqs' = requests_after reqs2 ov" "bgr_error resp1 = None" "OverrideResponses (bgr_RPCRes resp1) ov = Return (bgr_RPCRes resp)"
    using ok by (cases rule: group_Forward_cases) auto
  have "map rs_ID (bgr_RPCRes resp1) = map ID reqs1"
  proof (cases "reqs1 = []")
    case True
    then show ?thesis using g r(2) by (cases backends) (auto simp: Let_def group_error_def)
  next
    case False
    obtain e0 b0 qs b1 where q: "map ID qs = map ID reqs1"
      "Forward W L G ctx e0 b0 qs isBatch = Return (e', b1, reqs2, Inr (bgr_RPCRes resp1))"
      using group_served [OF g r(2) False] by blast
    have "set (map ID qs) \<subseteq> set (map ID reqs)" using q(1) rewritten_requests(1) [OF rw] by simp
    then have "mset (map rs_ID (bgr_RPCRes resp1)) = mset (map ID qs)" using answers q(2) by blast
    then show ?thesis using Forward_responses [OF q(2)] q(1) by simp
  qed
  then show ?thesis
    using rewritten_requests(3) [OF rw _ r(3)] rewritten_requests(2) [OF rw group_ids [OF g]] r(1) by simp
qed

subsection \<open>Properties\<close>

text \<open>
  C4. Responses match requests through a group. When the backends answer every call once, a request or batch
  that a group serves without error (and without the race of multicall) gets its responses in the order of its requests, the ones the proxy answers itself
  (rewriting errors, \<open>eth_blockNumber\<close>) back in their places, whichever backends failed on the way.
\<close>

theorem group_responses_align:
  assumes "group_Forward W S L G T ctx bg con e bes reqs isBatch = Return (e', bes', reqs', resp)"
    and "bgr_error resp = None" and "isBatch \<or> routingStrategy bg \<noteq> MulticallRoutingStrategy"
    and "\<forall>e b qs e' b' qs' rs. Forward W L G ctx e b qs isBatch = Return (e', b', qs', Inr rs) \<and>
      set (map ID qs) \<subseteq> set (map ID reqs) \<longrightarrow> mset (map rs_ID rs) = mset (map ID qs)"
  shows "map rs_ID (bgr_RPCRes resp) = map ID reqs \<and> map ID reqs' = map ID reqs"
  by (rule group_align [OF assms])

definition consensus_100 :: "(unit, ConsensusTrackerState) ConsensusPoller" where
  "consensus_100 = one_poller\<lparr>consensusGroup := [''a''], cp_tracker := \<lparr>Latest = 100, Safe = 90, Finalized = 80\<rparr>\<rparr>"

definition example_batch :: "RPCReq list" where
  "example_batch = [call ''1'' ''eth_chainId'', call ''2'' ''eth_blockNumber'', call ''3'' ''eth_gasPrice'']"

lemma example_ordered:
  "orderedBackendsForRequest echo_world rev_shuffler alist_lhm one_group example_backend (Some consensus_100) () = ((), [''a''])"
proof -
  have "\<not> IsDegraded alist_lhm 0 (example_backend c)" for c
    by (simp add: IsDegraded_def avgLatency_def example_backend_def NewBackend_def Override_def NewSlidingWindow_def Avg_def Let_def
        advance_def alist_lhm_def time_Second_def)
  then show ?thesis
    by (simp add: orderedBackendsForRequest_def loadBalancedConsensusGroup_def Let_def GetConsensusGroup_def rev_shuffler_def
        echo_world_def chain_world_def example_healthy consensus_100_def one_group_def)
qed

lemma one_group_fields: "bg_Name one_group = ''main''" "routingStrategy one_group = ConsensusAwareRoutingStrategy"
  by (simp_all add: one_group_def)

lemma example_batch_served:
  "\<exists>e' bes' reqs'. group_Forward echo_world rev_shuffler alist_lhm geth_ref memory_tracker no_ctx one_group (Some consensus_100) ()
     example_backend example_batch True =
   Return (e', bes', reqs', \<lparr>bgr_RPCRes = [NewRPCRes ''1'' (Val (JStr ''1'')), (NewRPCRes ''2'' (Uint64 100)), NewRPCRes ''3'' (Val (JStr ''3''))],
     ServedBy = ''main/a'', bgr_error = None\<rparr>)"
proof -
  have ow: "OverwriteConsensusResponses geth_ref memory_tracker consensus_100 example_batch =
      Return ([call ''1'' ''eth_chainId'', call ''3'' ''eth_gasPrice''],
        [\<lparr>ir_index = 1, ir_req = call ''2'' ''eth_blockNumber'', ir_res = NewRPCRes ''2'' (Uint64 100)\<rparr>])"
    by (simp add: OverwriteConsensusResponses_def example_batch_def call_def RewriteTags_def RewriteResponse_def RewriteRequest_def
        range_method_def param_rule_def rewrite_context_def memory_tracker_def consensus_100_def NewRPCRes_def)
  have fw: "\<exists>e1 b1. Forward echo_world alist_lhm geth_ref no_ctx () (example_backend ''a'') [call ''1'' ''eth_chainId'', call ''3'' ''eth_gasPrice''] True =
      Return (e1, b1, [call ''1'' ''eth_chainId'', call ''3'' ''eth_gasPrice''],
        Inr [NewRPCRes ''1'' (Val (JStr ''1'')), NewRPCRes ''3'' (Val (JStr ''3''))])"
  proof -
    have f: "maxRetries (example_backend ''a'') = 0" "receiptsTarget (example_backend ''a'') = []"
      by (simp_all add: example_backend_def NewBackend_def Override_def)
    show ?thesis
      by (simp add: f forward_eval echo_world_def chain_world_def upstream_request_def id_position_def)
  qed
  show ?thesis
    using fw one_group_fields by (auto simp: group_Forward_def example_ordered ow Let_def requests_after_def insert_at_def)
      (simp_all add: example_batch_def)
qed

theorem group_responses_align_witness:
  "\<exists>e' bes' reqs'. group_Forward echo_world rev_shuffler alist_lhm geth_ref memory_tracker no_ctx one_group (Some consensus_100) ()
     example_backend example_batch True =
   Return (e', bes', reqs', \<lparr>bgr_RPCRes = [NewRPCRes ''1'' (Val (JStr ''1'')), (NewRPCRes ''2'' (Uint64 100)), NewRPCRes ''3'' (Val (JStr ''3''))],
     ServedBy = ''main/a'', bgr_error = None\<rparr>) \<and> map ID reqs' = [''1'', ''2'', ''3'']"
proof -
  obtain e' bes' reqs' where f: "group_Forward echo_world rev_shuffler alist_lhm geth_ref memory_tracker no_ctx one_group (Some consensus_100) ()
     example_backend example_batch True =
   Return (e', bes', reqs', \<lparr>bgr_RPCRes = [NewRPCRes ''1'' (Val (JStr ''1'')), (NewRPCRes ''2'' (Uint64 100)), NewRPCRes ''3'' (Val (JStr ''3''))],
     ServedBy = ''main/a'', bgr_error = None\<rparr>)" using example_batch_served by blast
  have ids: "set (map ID example_batch) = {''1'', ''2'', ''3''}" by (simp add: example_batch_def call_def)
  have "mset (map rs_ID rs) = mset (map ID qs)"
    if "Forward echo_world alist_lhm geth_ref no_ctx e b qs True = Return (e1, b1, qs1, Inr rs)" "set (map ID qs) \<subseteq> set (map ID example_batch)"
    for e b qs e1 b1 qs1 rs
  proof (rule echo_world_answers [OF that(1)])
    show "\<forall>q\<in>set qs. length (ID q) = 1" using that(2) unfolding ids by auto
  qed
  then have a: "\<forall>e b qs e' b' qs' rs. Forward echo_world alist_lhm geth_ref no_ctx e b qs True = Return (e', b', qs', Inr rs) \<and>
      set (map ID qs) \<subseteq> set (map ID example_batch) \<longrightarrow> mset (map rs_ID rs) = mset (map ID qs)" by blast
  have "map ID reqs' = map ID example_batch" using group_responses_align [OF f _ _ a] one_group_fields(2) by simp
  then show ?thesis using f by (simp add: example_batch_def call_def)
qed

lemma translate_requests_plain:
  "\<forall>q\<in>set reqs. Method q \<noteq> ConsensusGetReceiptsMethod \<Longrightarrow> translate_requests G target reqs = Return (reqs, [], None)"
  by (induction reqs) (auto simp: translate_request_def)

lemma doForward_plain:
  assumes "doForward W L G ctx e b reqs isBatch = Return (e', b', reqs', r)" and "\<forall>q\<in>set reqs. Method q \<noteq> ConsensusGetReceiptsMethod"
  shows "reqs' = reqs"
proof -
  have "prepare_requests G target reqs isBatch = Return (reqs, [], None)" for target
    using assms(2) translate_requests_plain [of reqs] by (auto simp: prepare_requests_def list_ex_iff)
  then show ?thesis using assms(1) handle_response_reqs
    by (fastforce simp: doForward_def Let_def split: if_splits prod.splits sum.splits)
qed

lemma forward_loop_plain:
  "forward_loop W L G ctx isBatch n i le e b reqs = Return (e', b', reqs', r) \<Longrightarrow>
     \<forall>q\<in>set reqs. Method q \<noteq> ConsensusGetReceiptsMethod \<Longrightarrow> reqs' = reqs"
proof (induction n arbitrary: i le e b)
  case (Suc n)
  obtain e1 b1 reqs1 x where f: "doForward W L G ctx e b reqs isBatch = Return (e1, b1, reqs1, x)"
    using Suc.prems(1) by (auto simp: go_outcome split: if_splits)
  have "reqs1 = reqs" by (rule doForward_plain [OF f Suc.prems(2)])
  then show ?case using Suc.prems f Suc.IH [of "Suc i"] by (cases x) (auto simp: Let_def split: if_splits)
qed simp

lemma Forward_plain:
  "Forward W L G ctx e b reqs isBatch = Return (e', b', reqs', r) \<Longrightarrow> \<forall>q\<in>set reqs. Method q \<noteq> ConsensusGetReceiptsMethod \<Longrightarrow> reqs' = reqs"
  unfolding Forward_def by (rule forward_loop_plain)

lemma group_available:
  assumes "ForwardRequestToBackendGroup W L G ctx bg isBatch backends e bes reqs = Return (e', bes', reqs', resp)" and "reqs \<noteq> []"
    and "\<forall>q\<in>set reqs. Method q \<noteq> ConsensusGetReceiptsMethod" and "\<forall>c. same_config (bes0 c) (bes c)" and "b \<in> set backends"
    and up: "\<forall>e b'. same_config (bes0 b) b' \<longrightarrow> (\<exists>e1 b1 qs1 rs. Forward W L G ctx e b' reqs isBatch = Return (e1, b1, qs1, Inr rs))"
  shows "case bgr_error resp of
      None \<Rightarrow> \<exists>c\<in>set backends. ServedBy resp = bg_Name bg @ ''/'' @ Name (bes0 c)
    | Some err \<Rightarrow> client_error err \<or> passed_error err"
  using assms(1,4,5)
proof (induction backends arbitrary: e bes)
  case (Cons c cs)
  have name: "Name (bes d) = Name (bes0 d)" for d using Cons.prems(2) same_config_fields(1) by blast
  from Cons.prems(1) assms(2) show ?case
  proof (cases rule: group_Cons)
    case (moved e1 b1 reqs1 err)
    have "same_config (bes c) b1" by (rule Forward_config [OF moved(1)])
    then have keep: "\<forall>d. same_config (bes0 d) ((bes(c := b1)) d)" using Cons.prems(2) same_config_trans by auto
    have "c \<noteq> b"
    proof
      assume "c = b"
      then have "same_config (bes0 b) (bes c)" using Cons.prems(2) by blast
      then obtain e2 b2 qs2 rs where "Forward W L G ctx e (bes c) reqs isBatch = Return (e2, b2, qs2, Inr rs)" using up by blast
      then show False using moved(1) by simp
    qed
    then have "b \<in> set cs" using Cons.prems(3) by simp
    have "reqs1 = reqs" by (rule Forward_plain [OF moved(1) assms(3)])
    from Cons.IH [OF moved(6) [unfolded this] keep \<open>b \<in> set cs\<close>] show ?thesis by (auto split: option.splits)
  qed (use name in auto)
qed simp


definition down_backend :: "string \<Rightarrow> (Time \<times> bucket) list Backend" where
  "down_backend c = (if c = ''b'' then example_backend c else (example_backend c)\<lparr>maxRetries := -1\<rparr>)"

lemma echo_single:
  assumes "same_config (example_backend ''b'') b'"
  shows "\<exists>b1. Forward echo_world alist_lhm geth_ref no_ctx e b' [call ''7'' ''eth_chainId''] False =
      Return (e, b1, [call ''7'' ''eth_chainId''], Inr [NewRPCRes ''7'' (Val (JStr ''7''))])"
proof -
  have f: "maxRetries (example_backend ''b'') = 0" "receiptsTarget (example_backend ''b'') = []"
    by (simp_all add: example_backend_def NewBackend_def Override_def)
  show ?thesis
    by (simp add: f same_config_fields [OF assms] forward_eval translate_request_def echo_world_def chain_world_def upstream_request_def)
qed


text \<open>
  C25. The order of the backends. With a consensus the backends tried are the healthy members of the consensus group, each as often as
  it is in the group, those with a degraded latency last; without one they are all backends of the group, the unhealthy ones last.
\<close>

theorem routing_order:
  assumes "shuffler S"
  shows "case orderedBackendsForRequest W S L bg bes con e of (e', xs) \<Rightarrow>
    (case con of
       Some cp \<Rightarrow> mset xs = mset (filter (\<lambda>c. IsHealthy L (w_now W e) (bes c)) (consensusGroup cp)) \<and>
         (\<exists>hs ds. xs = hs @ ds \<and> (\<forall>c\<in>set hs. \<not> IsDegraded L (w_now W e) (bes c)) \<and> (\<forall>c\<in>set ds. IsDegraded L (w_now W e) (bes c)))
     | None \<Rightarrow> mset xs = mset (Backends bg) \<and>
         (\<exists>hs us. xs = hs @ us \<and> (\<forall>c\<in>set hs. IsHealthy L (w_now W e) (bes c)) \<and> (\<forall>c\<in>set us. \<not> IsHealthy L (w_now W e) (bes c))))"
proof -
  obtain e' xs where o: "orderedBackendsForRequest W S L bg bes con e = (e', xs)" by (metis surj_pair)
  let ?h = "\<lambda>c. IsHealthy L (w_now W e) (bes c)" and ?d = "\<lambda>c. IsDegraded L (w_now W e) (bes c)"
  have part: "filter_mset (\<lambda>c. P c \<and> \<not> Q c) M + filter_mset (\<lambda>c. P c \<and> Q c) M = filter_mset P M" for P Q :: "string \<Rightarrow> bool" and M
    by (induction M) auto
  show ?thesis
  proof (cases con)
    case (Some cp)
    then have "loadBalancedConsensusGroup W S L bg bes cp e = (e', xs)" using o by (simp add: orderedBackendsForRequest_def)
    from shuffler.loadBalanced_split [OF assms this] obtain hs ds where s: "xs = hs @ ds"
      "mset hs = mset (filter (\<lambda>c. ?h c \<and> \<not> ?d c) (consensusGroup cp))" "mset ds = mset (filter (\<lambda>c. ?h c \<and> ?d c) (consensusGroup cp))" by blast
    have "mset xs = mset (filter ?h (consensusGroup cp))" using s part [of ?h ?d] by simp
    moreover have "\<forall>c\<in>set hs. \<not> ?d c" "\<forall>c\<in>set ds. ?d c"
      using mset_eq_setD [OF s(2)] mset_eq_setD [OF s(3)] by auto
    ultimately show ?thesis using o Some s(1) by auto
  next
    case None
    from shuffler.ordered_split [OF assms o [unfolded None]] obtain hs us where s: "xs = hs @ us"
      "mset hs = mset (filter ?h (Backends bg))" "mset us = mset (filter (\<lambda>c. \<not> ?h c) (Backends bg))" by blast
    have "mset xs = mset (Backends bg)" using s by simp
    moreover have "\<forall>c\<in>set hs. ?h c" "\<forall>c\<in>set us. \<not> ?h c"
      using mset_eq_setD [OF s(2)] mset_eq_setD [OF s(3)] by auto
    ultimately show ?thesis using o None s(1) by auto
  qed
qed

theorem routing_order_witness:
  "case orderedBackendsForRequest echo_world rev_shuffler alist_lhm one_group example_backend (Some consensus_100) () of
     (e', xs) \<Rightarrow> mset xs = mset (filter (\<lambda>c. IsHealthy alist_lhm (w_now echo_world ()) (example_backend c)) (consensusGroup consensus_100))"
  using routing_order [OF rev_shuffle.shuffler_axioms, where W = echo_world and L = alist_lhm and bg = one_group
    and bes = example_backend and con = "Some consensus_100" and e = "()"]
  by (auto split: prod.splits)

text \<open>
  C10. Only the consensus group is used. With a consensus, a request leaves every backend alone that is not in the consensus group or is
  not healthy: not even its count of requests changes.
\<close>

theorem only_consensus_group_used:
  assumes "shuffler S" and f: "group_Forward W S L G T ctx bg (Some cp) e bes reqs isBatch = Return (e', bes', reqs', resp)"
    and "isBatch \<or> routingStrategy bg \<noteq> MulticallRoutingStrategy"
    and c: "c \<notin> set (consensusGroup cp) \<or> \<not> IsHealthy L (w_now W e) (bes c)"
  shows "bes' c = bes c"
proof (cases "reqs = []")
  case True
  then show ?thesis using f by (auto simp: group_Forward_def)
next
  case False
  from f False assms(3) obtain e1 backends reqs1 reqs2 resp1 where
    o: "orderedBackendsForRequest W S L bg bes (Some cp) e = (e1, backends)" and
    g: "ForwardRequestToBackendGroup W L G ctx bg isBatch backends e1 bes reqs1 = Return (e', bes', reqs2, resp1)"
    by (cases rule: group_Forward_cases) auto
  have "loadBalancedConsensusGroup W S L bg bes cp e = (e1, backends)" using o by (simp add: orderedBackendsForRequest_def)
  from shuffler.loadBalanced_split [OF assms(1) this] obtain hs ds where s: "backends = hs @ ds"
    "mset hs = mset (filter (\<lambda>c. IsHealthy L (w_now W e) (bes c) \<and> \<not> IsDegraded L (w_now W e) (bes c)) (consensusGroup cp))"
    "mset ds = mset (filter (\<lambda>c. IsHealthy L (w_now W e) (bes c) \<and> IsDegraded L (w_now W e) (bes c)) (consensusGroup cp))" by blast
  have "c \<notin> set backends" using c s(1) mset_eq_setD [OF s(2)] mset_eq_setD [OF s(3)] by auto
  then show ?thesis by (rule group_untouched [OF g])
qed

theorem only_consensus_group_used_witness:
  "\<exists>e' bes' reqs' resp. group_Forward echo_world rev_shuffler alist_lhm geth_ref memory_tracker no_ctx one_group (Some consensus_100) ()
     example_backend example_batch True = Return (e', bes', reqs', resp) \<and> bes' ''b'' = example_backend ''b''"
proof -
  obtain e' bes' reqs' resp where f: "group_Forward echo_world rev_shuffler alist_lhm geth_ref memory_tracker no_ctx one_group
      (Some consensus_100) () example_backend example_batch True = Return (e', bes', reqs', resp)" using example_batch_served by blast
  have "bes' ''b'' = example_backend ''b''"
    by (rule only_consensus_group_used [OF rev_shuffle.shuffler_axioms f]) (simp_all add: one_group_def consensus_100_def)
  with f show ?thesis by blast
qed

lemma MulticallRequests_responses:
  assumes "MulticallRequests W L G ctx bg backends e bes reqs = Return (e', bes', reqs', ch)" and "length reqs = 1"
  shows "length ch = length backends \<and> (\<forall>t\<in>set ch. bgr_error (mt_response t) = None \<longrightarrow> bgr_RPCRes (mt_response t) \<noteq> [])"
  using assms
proof (induction backends arbitrary: e bes reqs ch)
  case (Cons b bs)
  obtain e1 bes1 reqs1 resp where f: "ForwardRequestToBackendGroup W L G ctx bg False [b] e bes reqs = Return (e1, bes1, reqs1, resp)"
    using Cons.prems(1) by (cases "ForwardRequestToBackendGroup W L G ctx bg False [b] e bes reqs") auto
  obtain ch1 where m: "MulticallRequests W L G ctx bg bs e1 bes1 reqs1 = Return (e', bes', reqs', ch1)"
    "ch = \<lparr>mt_response = resp, mt_backendName = Name (bes b)\<rparr> # ch1"
    using Cons.prems(1) f by (cases "MulticallRequests W L G ctx bg bs e1 bes1 reqs1") auto
  have "length reqs1 = 1" using group_ids [OF f] Cons.prems(2) by (metis length_map)
  moreover have "bgr_RPCRes resp \<noteq> []" if ok: "bgr_error resp = None"
  proof -
    obtain e0 b0 qs b1 where "map ID qs = map ID reqs" "Forward W L G ctx e0 b0 qs False = Return (e1, b1, reqs1, Inr (bgr_RPCRes resp))"
      using group_served [OF f ok] Cons.prems(2) by fastforce
    then show ?thesis using Forward_responses Cons.prems(2) by (metis length_0_conv length_map zero_neq_one)
  qed
  ultimately show ?case using Cons.IH [OF m(1)] m(2) by auto
qed simp

definition accepted :: "bool \<Rightarrow> multicallTuple \<Rightarrow> bool" where
  "accepted errorCheck t \<longleftrightarrow> bgr_error (mt_response t) = None \<and> \<not> (errorCheck \<and> IsError (hd (bgr_RPCRes (mt_response t))))"

lemma ProcessMulticall_find:
  assumes "\<forall>t\<in>set ch. bgr_error (mt_response t) = None \<longrightarrow> bgr_RPCRes (mt_response t) \<noteq> []"
  shows "ProcessMulticallResponses errorCheck final ch = Return (
    case List.find (accepted errorCheck) ch of
      Some t \<Rightarrow> mt_response t
    | None \<Rightarrow> if ch = [] then (case final of Some r \<Rightarrow> r | None \<Rightarrow> group_error [] (Sentinel ''no multicall response received''))
             else mt_response (last ch))"
  using assms
proof (induction ch arbitrary: final)
  case (Cons t ch)
  let ?r = "mt_response t"
  have IH: "ProcessMulticallResponses errorCheck final ch = Return (
    case List.find (accepted errorCheck) ch of
      Some t \<Rightarrow> mt_response t
    | None \<Rightarrow> if ch = [] then (case final of Some r \<Rightarrow> r | None \<Rightarrow> group_error [] (Sentinel ''no multicall response received''))
             else mt_response (last ch))" for final using Cons by simp
  show ?case
  proof (cases "accepted errorCheck t")
    case True
    then show ?thesis using Cons.prems by (auto simp: accepted_def Let_def split: list.split)
  next
    case False
    then have "ProcessMulticallResponses errorCheck final (t # ch) = ProcessMulticallResponses errorCheck (Some ?r) ch"
      using Cons.prems by (auto simp: accepted_def Let_def split: list.split)
    then show ?thesis using IH False by (auto split: option.split)
  qed
qed simp


end
