(* ===== verification/Cache.thy ===== *)
theory Cache
  imports Backend Redis_Client "HOL-Library.List_Lexorder" "HOL-Library.Char_ord"
begin

section \<open>The cache of responses\<close>

text \<open>
  Models \<^verbatim>\<open>src/cache.go\<close> and \<^verbatim>\<open>src/methods.go\<close>: caches of strings in
  memory, in Redis, with a fallback and with compression, and on top of them the cache of RPC responses
  with its method handlers. A cache is a record of its two operations over its state, as the Go
  interface \<open>Cache\<close>; every operation is given the time. Locks, logging and metrics are left out.
\<close>

subsection \<open>Packages the cache uses\<close>

text \<open>The LRU cache of hashicorp and the compression of snappy.\<close>

record 'l lru =
  lru_New :: "nat \<Rightarrow> 'l"
  lru_Get :: "'l \<Rightarrow> string \<Rightarrow> 'l \<times> string option"
  lru_Add :: "'l \<Rightarrow> string \<Rightarrow> string \<Rightarrow> 'l"

locale lru_cache =
  fixes U :: "'l lru" and valid :: "'l \<Rightarrow> bool" and contents :: "'l \<Rightarrow> string \<Rightarrow> string option"
  assumes New_valid: "0 < n \<Longrightarrow> valid (lru_New U n) \<and> contents (lru_New U n) = (\<lambda>_. None)"
    and Get_value: "lru_Get U l k = (l', x) \<Longrightarrow> x = contents l k \<and> contents l' = contents l \<and> (valid l \<longrightarrow> valid l')"
    and Add_valid: "valid l \<Longrightarrow> valid (lru_Add U l k v)"
    and Add_value: "valid l \<Longrightarrow> contents (lru_Add U l k v) k = Some v"
    and Add_other: "contents (lru_Add U l k v) k' \<in> {contents l k', None} \<union> (if k' = k then {Some v} else {})"

record snappy =
  snappy_Encode :: "string \<Rightarrow> string"
  snappy_Decode :: "string \<Rightarrow> err + string"

locale snappy_codec =
  fixes Z :: snappy
  assumes decode_encode: "snappy_Decode Z (snappy_Encode Z v) = Inr v"
    and encode_nonempty: "snappy_Encode Z v \<noteq> []"

text \<open>
  The bytes behind the abstract values: the text of a raw message, the JSON text of a result, how that
  is read into an \<open>interface{}\<close>, and the hexadecimal SHA-256 digest of a string.
\<close>

record cache_text =
  raw_text :: "json option \<Rightarrow> string"
  json_Marshal :: "any \<Rightarrow> string"
  json_Unmarshal :: "string \<Rightarrow> err + any"
  sha256_hex :: "string \<Rightarrow> string"

subsection \<open>Caches of strings\<close>

record 'c Cache =
  cache_Get :: "Time \<Rightarrow> string \<Rightarrow> 'c \<Rightarrow> 'c \<times> (err + string)"
  cache_Put :: "Time \<Rightarrow> string \<Rightarrow> string \<Rightarrow> 'c \<Rightarrow> 'c \<times> err option"

definition memoryCacheLimit :: nat where
  "memoryCacheLimit = 4096"

definition newMemoryCache :: "'l lru \<Rightarrow> 'l" where
  "newMemoryCache U = lru_New U memoryCacheLimit"

definition memory_Get :: "'l lru \<Rightarrow> Time \<Rightarrow> string \<Rightarrow> 'l \<Rightarrow> 'l \<times> (err + string)" where
  "memory_Get U now key c =
     (case lru_Get U c key of (c', Some val) \<Rightarrow> (c', Inr val) | (c', None) \<Rightarrow> (c', Inr []))"

definition memory_Put :: "'l lru \<Rightarrow> Time \<Rightarrow> string \<Rightarrow> string \<Rightarrow> 'l \<Rightarrow> 'l \<times> err option" where
  "memory_Put U now key value c = (lru_Add U c key value, None)"

definition memory_cache :: "'l lru \<Rightarrow> 'l Cache" where
  "memory_cache U = \<lparr>cache_Get = memory_Get U, cache_Put = memory_Put U\<rparr>"

definition fallback_Get :: "'a Cache \<Rightarrow> 'b Cache \<Rightarrow> Time \<Rightarrow> string \<Rightarrow> 'a \<times> 'b \<Rightarrow> ('a \<times> 'b) \<times> (err + string)" where
  "fallback_Get P S now key c =
     (case cache_Get P now key (fst c) of
        (p, Inl err) \<Rightarrow> (case cache_Get S now key (snd c) of (s, r) \<Rightarrow> ((p, s), r))
      | (p, Inr val) \<Rightarrow> ((p, snd c), Inr val))"

definition fallback_Put :: "'a Cache \<Rightarrow> 'b Cache \<Rightarrow> Time \<Rightarrow> string \<Rightarrow> string \<Rightarrow> 'a \<times> 'b \<Rightarrow> ('a \<times> 'b) \<times> err option" where
  "fallback_Put P S now key value c =
     (case cache_Put P now key value (fst c) of
        (p, Some err) \<Rightarrow> (case cache_Put S now key value (snd c) of (s, r) \<Rightarrow> ((p, s), r))
      | (p, None) \<Rightarrow> ((p, snd c), None))"

definition newFallbackCache :: "'a Cache \<Rightarrow> 'b Cache \<Rightarrow> ('a \<times> 'b) Cache" where
  "newFallbackCache P S = \<lparr>cache_Get = fallback_Get P S, cache_Put = fallback_Put P S\<rparr>"

text \<open>The clients for writing and for reading, of which the second may talk to a replica, are two records of operations on one deployment.\<close>

record 'r redisCache =
  redisClient :: "'r redis"
  redisReadClient :: "'r redis"
  rc_prefix :: string
  rc_ttl :: Duration

definition namespaced :: "'r redisCache \<Rightarrow> string \<Rightarrow> string" where
  "namespaced c key = (if rc_prefix c = [] then key else rc_prefix c @ '':'' @ key)"

definition redisCache_Get :: "'r redisCache \<Rightarrow> Time \<Rightarrow> string \<Rightarrow> 'r \<Rightarrow> 'r \<times> (err + string)" where
  "redisCache_Get c now key r =
     (case redis_Get (redisReadClient c) now r (namespaced c key) of
        (r', Inl err) \<Rightarrow> if err = redis_Nil then (r', Inr []) else (r', Inl err)
      | (r', Inr val) \<Rightarrow> (r', Inr val))"

definition redisCache_Put :: "'r redisCache \<Rightarrow> Time \<Rightarrow> string \<Rightarrow> string \<Rightarrow> 'r \<Rightarrow> 'r \<times> err option" where
  "redisCache_Put c now key value r = redis_Set (redisClient c) now r (namespaced c key) value (rc_ttl c)"

definition newRedisCache :: "'r redis \<Rightarrow> 'r redis \<Rightarrow> string \<Rightarrow> Duration \<Rightarrow> 'r Cache" where
  "newRedisCache w r prefix ttl =
     (let c = \<lparr>redisClient = w, redisReadClient = r, rc_prefix = prefix, rc_ttl = ttl\<rparr>
      in \<lparr>cache_Get = redisCache_Get c, cache_Put = redisCache_Put c\<rparr>)"

definition compression_Get :: "snappy \<Rightarrow> 'c Cache \<Rightarrow> Time \<Rightarrow> string \<Rightarrow> 'c \<Rightarrow> 'c \<times> (err + string)" where
  "compression_Get Z C now key c =
     (case cache_Get C now key c of
        (c', Inl err) \<Rightarrow> (c', Inl err)
      | (c', Inr encodedVal) \<Rightarrow> if encodedVal = [] then (c', Inr []) else (c', snappy_Decode Z encodedVal))"

definition compression_Put :: "snappy \<Rightarrow> 'c Cache \<Rightarrow> Time \<Rightarrow> string \<Rightarrow> string \<Rightarrow> 'c \<Rightarrow> 'c \<times> err option" where
  "compression_Put Z C now key value c = cache_Put C now key (snappy_Encode Z value) c"

definition newCacheWithCompression :: "snappy \<Rightarrow> 'c Cache \<Rightarrow> 'c Cache" where
  "newCacheWithCompression Z C = \<lparr>cache_Get = compression_Get Z C, cache_Put = compression_Put Z C\<rparr>"

subsection \<open>Method handlers\<close>

record 'c StaticMethodHandler =
  smh_cache :: "'c Cache option"
  filterGet :: "(RPCReq \<Rightarrow> bool) option"
  filterPut :: "(RPCReq \<Rightarrow> RPCRes \<Rightarrow> bool) option"

text \<open>The text hashed for the headers: names in order, each followed by its values in order.\<close>

fun checksum :: "http_header \<Rightarrow> string list \<Rightarrow> string option" where
  "checksum h [] = Some []"
| "checksum h (name # names) =
     (case map_of h name of
        None \<Rightarrow> None
      | Some values \<Rightarrow> (case checksum h names of None \<Rightarrow> None | Some rest \<Rightarrow> Some (name @ concat (sort values) @ rest)))"

definition smh_key :: "cache_text \<Rightarrow> RPCReq \<Rightarrow> http_header \<Rightarrow> err + string" where
  "smh_key X req headersToForward =
     (case (if headersToForward \<noteq> [] then checksum headersToForward (sort (remdups (map fst headersToForward))) else Some []) of
        None \<Rightarrow> Inl (Errorf ''error forwarding headers'')
      | Some headerText \<Rightarrow> Inr (''cache:'' @ Method req @ '':'' @ sha256_hex X (raw_text X (Params req) @ headerText)))"

definition GetRPCMethod ::
  "cache_text \<Rightarrow> 'c StaticMethodHandler \<Rightarrow> Time \<Rightarrow> Ctx \<Rightarrow> RPCReq \<Rightarrow> 'c \<Rightarrow> 'c \<times> (err + RPCRes option)" where
  "GetRPCMethod X h now ctx req c =
     (case smh_cache h of
        None \<Rightarrow> (c, Inr None)
      | Some C \<Rightarrow>
          if (case filterGet h of Some f \<Rightarrow> \<not> f req | None \<Rightarrow> False) then (c, Inr None)
          else case smh_key X req (GetHeadersToForward ctx) of
            Inl err \<Rightarrow> (c, Inl err)
          | Inr key \<Rightarrow>
              (case cache_Get C now key c of
                 (c', Inl err) \<Rightarrow> (c', Inl err)
               | (c', Inr val) \<Rightarrow>
                   if val = [] then (c', Inr None)
                   else (case json_Unmarshal X val of
                           Inl err \<Rightarrow> (c', Inl err)
                         | Inr result \<Rightarrow>
                             (c', Inr (Some \<lparr>rs_JSONRPC = JSONRPC req, Result = result, Error = None, rs_ID = ID req\<rparr>)))))"

definition PutRPCMethod ::
  "cache_text \<Rightarrow> 'c StaticMethodHandler \<Rightarrow> Time \<Rightarrow> Ctx \<Rightarrow> RPCReq \<Rightarrow> RPCRes \<Rightarrow> 'c \<Rightarrow> 'c \<times> err option" where
  "PutRPCMethod X h now ctx req res c =
     (case smh_cache h of
        None \<Rightarrow> (c, None)
      | Some C \<Rightarrow>
          if (case filterGet h of Some f \<Rightarrow> \<not> f req | None \<Rightarrow> False) then (c, None)
          else if (case filterPut h of Some f \<Rightarrow> \<not> f req res | None \<Rightarrow> False) then (c, None)
          else case smh_key X req (GetHeadersToForward ctx) of
            Inl err \<Rightarrow> (c, Some err)
          | Inr key \<Rightarrow> cache_Put C now key (json_Marshal X (Result res)) c)"

subsection \<open>The cache of responses\<close>

definition raw_receipts_filterGet :: "geth \<Rightarrow> RPCReq \<Rightarrow> bool" where
  "raw_receipts_filterGet G req =
     (case unmarshal_slice (Params req) of
        None \<Rightarrow> False
      | Some vs \<Rightarrow>
          (case those (map (bnh_UnmarshalJSON G) vs) of
             None \<Rightarrow> False
           | Some p \<Rightarrow> length p = 1 \<and> BlockHash (hd p) \<noteq> None))"

fun raw_receipts_filterPut :: "RPCReq \<Rightarrow> RPCRes \<Rightarrow> bool" where
  "raw_receipts_filterPut req res = (case Result res of Val (JArr rawReceipts) \<Rightarrow> length rawReceipts > 0 | _ \<Rightarrow> False)"

definition static_methods :: "string list" where
  "static_methods = [''eth_chainId'', ''net_version'', ''eth_getBlockTransactionCountByHash'', ''eth_getUncleCountByBlockHash'',
     ''eth_getBlockByHash'', ''eth_getTransactionByBlockHashAndIndex'', ''eth_getUncleByBlockHashAndIndex'']"

definition newRPCCache :: "geth \<Rightarrow> 'c Cache \<Rightarrow> string \<Rightarrow> 'c StaticMethodHandler option" where
  "newRPCCache G C method =
     (if method \<in> set static_methods then Some \<lparr>smh_cache = Some C, filterGet = None, filterPut = None\<rparr>
      else if method = ''debug_getRawReceipts''
      then Some \<lparr>smh_cache = Some C, filterGet = Some (raw_receipts_filterGet G), filterPut = Some raw_receipts_filterPut\<rparr>
      else None)"

definition GetRPC ::
  "cache_text \<Rightarrow> (string \<Rightarrow> 'c StaticMethodHandler option) \<Rightarrow> Time \<Rightarrow> Ctx \<Rightarrow> RPCReq \<Rightarrow> 'c \<Rightarrow> 'c \<times> (err + RPCRes option)" where
  "GetRPC X handlers now ctx req c =
     (case handlers (Method req) of None \<Rightarrow> (c, Inr None) | Some handler \<Rightarrow> GetRPCMethod X handler now ctx req c)"

definition PutRPC ::
  "cache_text \<Rightarrow> (string \<Rightarrow> 'c StaticMethodHandler option) \<Rightarrow> Time \<Rightarrow> Ctx \<Rightarrow> RPCReq \<Rightarrow> RPCRes \<Rightarrow> 'c \<Rightarrow> 'c \<times> err option" where
  "PutRPC X handlers now ctx req res c =
     (case handlers (Method req) of None \<Rightarrow> (c, None) | Some handler \<Rightarrow> PutRPCMethod X handler now ctx req res c)"

text \<open>The cache as the server uses it; without one the server takes \<open>NoopRPCCache\<close>.\<close>

record 'c RPCCache =
  rpc_Get :: "Time \<Rightarrow> Ctx \<Rightarrow> RPCReq \<Rightarrow> 'c \<Rightarrow> 'c \<times> (err + RPCRes option)"
  rpc_Put :: "Time \<Rightarrow> Ctx \<Rightarrow> RPCReq \<Rightarrow> RPCRes \<Rightarrow> 'c \<Rightarrow> 'c \<times> err option"

definition rpcCache :: "cache_text \<Rightarrow> geth \<Rightarrow> 'c Cache \<Rightarrow> 'c RPCCache" where
  "rpcCache X G C = \<lparr>rpc_Get = GetRPC X (newRPCCache G C), rpc_Put = PutRPC X (newRPCCache G C)\<rparr>"

definition NoopRPCCache :: "'c RPCCache" where
  "NoopRPCCache = \<lparr>rpc_Get = \<lambda>now ctx req c. (c, Inr None), rpc_Put = \<lambda>now ctx req res c. (c, None)\<rparr>"

subsection \<open>The contract of a cache\<close>

text \<open>
  \<open>holds s k\<close> are the values the cache may answer for the key: an answer is one of them or empty, and only
  \<open>Put\<close> adds one. A cache that is a store also answers with the value last put, for as long as it lives, unless reading fails.
\<close>

locale cache_contract =
  fixes C :: "'c Cache" and holds :: "'c \<Rightarrow> string \<Rightarrow> string set"
  assumes Get_holds: "cache_Get C t k s = (s', Inr v) \<Longrightarrow> v = [] \<or> v \<in> holds s k"
    and Get_frame: "cache_Get C t k s = (s', x) \<Longrightarrow> holds s' k' \<subseteq> holds s k'"
    and Put_frame: "cache_Put C t k v s = (s', e) \<Longrightarrow> holds s' k' \<subseteq> holds s k' \<union> (if k' = k then {v} else {})"

locale cache_store = cache_contract C holds for C :: "'c Cache" and holds +
  fixes ok :: "'c \<Rightarrow> bool" and ttl :: Duration
  assumes Get_ok: "ok s \<Longrightarrow> cache_Get C t k s = (s', x) \<Longrightarrow> ok s'"
    and Put_ok: "ok s \<Longrightarrow> cache_Put C t k v s = (s', e) \<Longrightarrow> ok s'"
    and put_get: "ok s \<Longrightarrow> cache_Put C t k v s = (s', None) \<Longrightarrow> t \<le> t' \<Longrightarrow> t' < t + ttl \<Longrightarrow>
      cache_Get C t' k s' = (s'', x) \<Longrightarrow> x = Inr v \<or> (\<exists>e. x = Inl e)"

context lru_cache
begin

lemma memory_Get_cases:
  "memory_Get U t k s = (s', x) \<Longrightarrow> x = Inr (case contents s k of None \<Rightarrow> [] | Some v \<Rightarrow> v) \<and> contents s' = contents s \<and> (valid s \<longrightarrow> valid s')"
  using Get_value [of s k] by (cases "lru_Get U s k") (auto simp: memory_Get_def split: option.splits)

end

sublocale lru_cache \<subseteq> in_memory: cache_store "memory_cache U" "\<lambda>l k. set_option (contents l k)" valid ttl for ttl
proof unfold_locales
  fix t k s s' x v k' e t' s''
  show "cache_Get (memory_cache U) t k s = (s', Inr v) \<Longrightarrow> v = [] \<or> v \<in> set_option (contents s k)"
    using memory_Get_cases [of t k s s' "Inr v"] by (auto simp: memory_cache_def split: option.splits)
  show "cache_Get (memory_cache U) t k s = (s', x) \<Longrightarrow> set_option (contents s' k') \<subseteq> set_option (contents s k')"
    using memory_Get_cases [of t k s s' x] by (simp add: memory_cache_def)
  show "cache_Put (memory_cache U) t k v s = (s', e) \<Longrightarrow> set_option (contents s' k') \<subseteq> set_option (contents s k') \<union> (if k' = k then {v} else {})"
    using Add_other [of s k v k'] by (auto simp: memory_cache_def memory_Put_def split: if_splits)
  show "valid s \<Longrightarrow> cache_Get (memory_cache U) t k s = (s', x) \<Longrightarrow> valid s'"
    using memory_Get_cases [of t k s s' x] by (simp add: memory_cache_def)
  show "valid s \<Longrightarrow> cache_Put (memory_cache U) t k v s = (s', e) \<Longrightarrow> valid s'"
    using Add_valid by (auto simp: memory_cache_def memory_Put_def)
  show "valid s \<Longrightarrow> cache_Put (memory_cache U) t k v s = (s', None) \<Longrightarrow> t \<le> t' \<Longrightarrow> t' < t + ttl \<Longrightarrow>
      cache_Get (memory_cache U) t' k s' = (s'', x) \<Longrightarrow> x = Inr v \<or> (\<exists>e. x = Inl e)"
    using memory_Get_cases [of t' k s' s'' x] Add_value [of s k v] by (auto simp: memory_cache_def memory_Put_def)
qed

lemma namespaced_eq: "namespaced c k = namespaced c k' \<longleftrightarrow> k = k'"
  by (simp add: namespaced_def)

sublocale redis_strings \<subseteq> shared_cache: cache_store "newRedisCache R R prefix ttl"
  "\<lambda>r k. {v. \<exists>t. live r t (namespaced \<lparr>redisClient = R, redisReadClient = R, rc_prefix = prefix, rc_ttl = ttl\<rparr> k) = Some v}"
  "\<lambda>_. True" ttl for prefix ttl
proof unfold_locales
  fix t k s s' x v k' e t' s''
  let ?C = "newRedisCache R R prefix ttl"
  let ?n = "namespaced \<lparr>redisClient = R, redisReadClient = R, rc_prefix = prefix, rc_ttl = ttl\<rparr>"
  let ?h = "\<lambda>r k. {v. \<exists>t. live r t (?n k) = Some v}"
  have get: "cache_Get ?C t k s = (case redis_Get R t s (?n k) of
      (r', Inl err) \<Rightarrow> if err = redis_Nil then (r', Inr []) else (r', Inl err) | (r', Inr val) \<Rightarrow> (r', Inr val))" for t s
    by (simp add: newRedisCache_def redisCache_Get_def Let_def)
  have put: "cache_Put ?C t k v s = redis_Set R t s (?n k) v ttl"
    by (simp add: newRedisCache_def redisCache_Put_def Let_def)
  show "cache_Get ?C t k s = (s', Inr v) \<Longrightarrow> v = [] \<or> v \<in> ?h s k"
    using Get_value [of t s "?n k"] by (auto simp: get split: prod.splits sum.splits if_splits)
  show "cache_Get ?C t k s = (s', x) \<Longrightarrow> ?h s' k' \<subseteq> ?h s k'"
    using Get_frame [of t s "?n k"] by (auto simp: get split: prod.splits sum.splits if_splits)
  show "?h s' k' \<subseteq> ?h s k' \<union> (if k' = k then {v} else {})" if c: "cache_Put ?C t k v s = (s', e)"
  proof -
    have "live s u (?n k') = Some w \<or> k' = k \<and> w = v" if "live s' u (?n k') = Some w" for u w
    proof (cases "k' = k")
      case True
      have "live s' u (?n k) \<in> {live s u (?n k), Some v, None}" using c by (intro Set_any) (simp add: put)
      then show ?thesis using True that by auto
    next
      case False
      have "live s' u (?n k') = live s u (?n k')"
        using Set_frame [OF c [unfolded put], of "?n k'" u] False by (simp add: namespaced_eq)
      then show ?thesis using that by simp
    qed
    then show ?thesis by (cases "k' = k") auto
  qed
  show "cache_Put ?C t k v s = (s', None) \<Longrightarrow> t \<le> t' \<Longrightarrow> t' < t + ttl \<Longrightarrow> cache_Get ?C t' k s' = (s'', x) \<Longrightarrow> x = Inr v \<or> (\<exists>e. x = Inl e)"
    using Set_value [of t s "?n k" v ttl s' t'] Get_value [of t' s' "?n k"] Get_nil [of t' s' "?n k"]
    by (auto simp: get put split: prod.splits sum.splits if_splits)
qed simp_all

context redis_strings
begin

lemmas shared_store = shared_cache.cache_store_axioms

end

text \<open>A cache with a fallback and a cache with compression keep the contract of the caches they are built on.\<close>

lemma fallback_contract:
  assumes "cache_contract P hp" and "cache_contract S hs"
  shows "cache_contract (newFallbackCache P S) (\<lambda>c k. hp (fst c) k \<union> hs (snd c) k)"
proof unfold_locales
  fix t k s s' x v k' e
  obtain p xp q xq where g: "cache_Get P t k (fst s) = (p, xp)" "cache_Get S t k (snd s) = (q, xq)" by (metis surj_pair)
  obtain p1 ep q1 eq where u: "cache_Put P t k v (fst s) = (p1, ep)" "cache_Put S t k v (snd s) = (q1, eq)" by (metis surj_pair)
  have f: "hp p k' \<subseteq> hp (fst s) k'" "hs q k' \<subseteq> hs (snd s) k'"
    "hp p1 k' \<subseteq> hp (fst s) k' \<union> (if k' = k then {v} else {})" "hs q1 k' \<subseteq> hs (snd s) k' \<union> (if k' = k then {v} else {})"
    by (rule cache_contract.Get_frame [OF assms(1) g(1)] cache_contract.Get_frame [OF assms(2) g(2)]
      cache_contract.Put_frame [OF assms(1) u(1)] cache_contract.Put_frame [OF assms(2) u(2)])+
  show "cache_Get (newFallbackCache P S) t k s = (s', Inr v) \<Longrightarrow> v = [] \<or> v \<in> hp (fst s) k \<union> hs (snd s) k"
    using g cache_contract.Get_holds [OF assms(1), of t k "fst s" p v] cache_contract.Get_holds [OF assms(2), of t k "snd s" q v]
    by (auto simp: newFallbackCache_def fallback_Get_def split: sum.splits)
  show "cache_Get (newFallbackCache P S) t k s = (s', x) \<Longrightarrow> hp (fst s') k' \<union> hs (snd s') k' \<subseteq> hp (fst s) k' \<union> hs (snd s) k'"
    using g f(1,2) by (cases xp) (auto simp: newFallbackCache_def fallback_Get_def)
  show "cache_Put (newFallbackCache P S) t k v s = (s', e) \<Longrightarrow>
      hp (fst s') k' \<union> hs (snd s') k' \<subseteq> hp (fst s) k' \<union> hs (snd s) k' \<union> (if k' = k then {v} else {})"
    using u f(3,4) by (cases ep) (auto simp: newFallbackCache_def fallback_Put_def)
qed

lemma compression_contract:
  assumes "snappy_codec Z" and "cache_contract C h"
  shows "cache_contract (newCacheWithCompression Z C) (\<lambda>c k. {v. \<exists>w\<in>h c k. snappy_Decode Z w = Inr v})"
proof unfold_locales
  fix t k s s' x v k' e
  show "cache_Get (newCacheWithCompression Z C) t k s = (s', Inr v) \<Longrightarrow> v = [] \<or> v \<in> {v. \<exists>w\<in>h s k. snappy_Decode Z w = Inr v}"
    using cache_contract.Get_holds [OF assms(2), of t k s]
    by (auto simp: newCacheWithCompression_def compression_Get_def split: prod.splits sum.splits if_splits)
  show "cache_Get (newCacheWithCompression Z C) t k s = (s', x) \<Longrightarrow>
      {v. \<exists>w\<in>h s' k'. snappy_Decode Z w = Inr v} \<subseteq> {v. \<exists>w\<in>h s k'. snappy_Decode Z w = Inr v}"
    using cache_contract.Get_frame [OF assms(2), where t = t and k = k and s = s and k' = k']
    by (auto simp: newCacheWithCompression_def compression_Get_def split: prod.splits sum.splits if_splits)
  show "cache_Put (newCacheWithCompression Z C) t k v s = (s', e) \<Longrightarrow> {v. \<exists>w\<in>h s' k'. snappy_Decode Z w = Inr v} \<subseteq>
      {v. \<exists>w\<in>h s k'. snappy_Decode Z w = Inr v} \<union> (if k' = k then {v} else {})"
    using cache_contract.Put_frame [OF assms(2), where t = t and k = k and s = s and k' = k' and v = "snappy_Encode Z v"]
      snappy_codec.decode_encode [OF assms(1), of v]
    by (auto simp: newCacheWithCompression_def compression_Put_def split: if_splits)
qed

lemma compression_store:
  assumes "snappy_codec Z" and "cache_store C h ok ttl"
  shows "cache_store (newCacheWithCompression Z C) (\<lambda>c k. {v. \<exists>w\<in>h c k. snappy_Decode Z w = Inr v}) ok ttl"
proof (rule cache_store.intro)
  show "cache_contract (newCacheWithCompression Z C) (\<lambda>c k. {v. \<exists>w\<in>h c k. snappy_Decode Z w = Inr v})"
    using assms cache_store.axioms(1) by (intro compression_contract)
  show "cache_store_axioms (newCacheWithCompression Z C) ok ttl"
  proof
    fix t k s s' x v k' e t' s''
    show "ok s \<Longrightarrow> cache_Get (newCacheWithCompression Z C) t k s = (s', x) \<Longrightarrow> ok s'"
      using cache_store.Get_ok [OF assms(2), of s t k]
      by (auto simp: newCacheWithCompression_def compression_Get_def split: prod.splits sum.splits if_splits)
    show "ok s \<Longrightarrow> cache_Put (newCacheWithCompression Z C) t k v s = (s', e) \<Longrightarrow> ok s'"
      using cache_store.Put_ok [OF assms(2), of s t k] by (simp add: newCacheWithCompression_def compression_Put_def)
    show "ok s \<Longrightarrow> cache_Put (newCacheWithCompression Z C) t k v s = (s', None) \<Longrightarrow> t \<le> t' \<Longrightarrow> t' < t + ttl \<Longrightarrow>
        cache_Get (newCacheWithCompression Z C) t' k s' = (s'', x) \<Longrightarrow> x = Inr v \<or> (\<exists>e. x = Inl e)"
      using cache_store.put_get [OF assms(2), of s t k "snappy_Encode Z v" s' t'] snappy_codec.decode_encode [OF assms(1), of v]
        snappy_codec.encode_nonempty [OF assms(1), of v]
      by (auto simp: newCacheWithCompression_def compression_Put_def compression_Get_def split: prod.splits sum.splits if_splits)
  qed
qed

subsection \<open>A concrete cache\<close>

text \<open>An LRU cache as its capacity and its entries, the most recent first; compression that only marks the text; JSON text of a few results.\<close>

definition alist_lru :: "(nat \<times> (string \<times> string) list) lru" where
  "alist_lru = \<lparr>
     lru_New = \<lambda>n. (n, []),
     lru_Get = \<lambda>(n, xs) k. (case map_of xs k of
        None \<Rightarrow> ((n, xs), None) | Some v \<Rightarrow> ((n, (k, v) # filter (\<lambda>p. fst p \<noteq> k) xs), Some v)),
     lru_Add = \<lambda>(n, xs) k v. (n, take n ((k, v) # filter (\<lambda>p. fst p \<noteq> k) xs))\<rparr>"

lemma map_of_filter_other: "map_of (filter (\<lambda>p. fst p \<noteq> k) xs) k' = (if k' = k then None else map_of xs k')"
  by (induction xs) auto

lemma map_of_move: "map_of xs k = Some v \<Longrightarrow> map_of ((k, v) # filter (\<lambda>p. fst p \<noteq> k) xs) = map_of xs"
  by (rule ext) (simp add: map_of_filter_other)

lemma map_of_take: "map_of (take n xs) k \<in> {map_of xs k, None}"
proof (induction xs arbitrary: n)
  case (Cons p xs)
  then show ?case by (cases n) auto
qed simp

interpretation alist_lru: lru_cache alist_lru "\<lambda>l. 0 < fst l" "\<lambda>l. map_of (snd l)"
proof unfold_locales
  fix l l' k x v k' and n :: nat
  show "0 < n \<Longrightarrow> 0 < fst (lru_New alist_lru n) \<and> map_of (snd (lru_New alist_lru n)) = (\<lambda>_. None)"
    by (auto simp: alist_lru_def)
  show "lru_Get alist_lru l k = (l', x) \<Longrightarrow>
      x = map_of (snd l) k \<and> map_of (snd l') = map_of (snd l) \<and> (0 < fst l \<longrightarrow> 0 < fst l')"
    using map_of_move [of "snd l" k] by (cases l) (auto simp: alist_lru_def split: option.splits)
  show "0 < fst l \<Longrightarrow> 0 < fst (lru_Add alist_lru l k v)" by (cases l) (simp add: alist_lru_def)
  show "0 < fst l \<Longrightarrow> map_of (snd (lru_Add alist_lru l k v)) k = Some v"
    by (cases l; cases "fst l") (simp_all add: alist_lru_def)
  show "map_of (snd (lru_Add alist_lru l k v)) k' \<in> {map_of (snd l) k', None} \<union> (if k' = k then {Some v} else {})"
    using map_of_take [of "fst l" "(k, v) # filter (\<lambda>p. fst p \<noteq> k) (snd l)" k']
    by (cases l) (auto simp: alist_lru_def map_of_filter_other split: if_splits)
qed

definition plain_snappy :: snappy where
  "plain_snappy = \<lparr>snappy_Encode = \<lambda>v. CHR ''z'' # v, snappy_Decode = \<lambda>w. case w of [] \<Rightarrow> Inl (Sentinel ''snappy: corrupt input'') | _ # v \<Rightarrow> Inr v\<rparr>"

interpretation plain: snappy_codec plain_snappy
  by unfold_locales (simp_all add: plain_snappy_def)

text \<open>The caches that the program builds: in memory, in Redis, and in Redis with a fallback to memory, each with compression.\<close>

interpretation memory_compressed: cache_store "newCacheWithCompression plain_snappy (memory_cache alist_lru)"
  "\<lambda>c k. {v. \<exists>w\<in>set_option (map_of (snd c) k). snappy_Decode plain_snappy w = Inr v}" "\<lambda>l. 0 < fst l" ttl for ttl
  by (rule compression_store [OF plain.snappy_codec_axioms alist_lru.in_memory.cache_store_axioms])

interpretation redis_compressed: cache_store "newCacheWithCompression plain_snappy (newRedisCache kv_redis kv_redis prefix ttl)"
  "\<lambda>c k. {v. \<exists>w\<in>{v. \<exists>t. kv_live c t (namespaced \<lparr>redisClient = kv_redis, redisReadClient = kv_redis, rc_prefix = prefix, rc_ttl = ttl\<rparr> k) = Some v}.
     snappy_Decode plain_snappy w = Inr v}" "\<lambda>_. True" ttl for prefix ttl
  by (rule compression_store [OF plain.snappy_codec_axioms kv_strings.shared_cache.cache_store_axioms])

interpretation fallback_compressed: cache_contract
  "newCacheWithCompression plain_snappy (newFallbackCache (newRedisCache kv_redis kv_redis prefix ttl) (memory_cache alist_lru))"
  "\<lambda>c k. {v. \<exists>w\<in>{v. \<exists>t. kv_live (fst c) t (namespaced \<lparr>redisClient = kv_redis, redisReadClient = kv_redis, rc_prefix = prefix, rc_ttl = ttl\<rparr> k) = Some v}
     \<union> set_option (map_of (snd (snd c)) k). snappy_Decode plain_snappy w = Inr v}" for prefix ttl
  by (rule compression_contract [OF plain.snappy_codec_axioms fallback_contract
    [OF kv_strings.shared_cache.cache_contract_axioms alist_lru.in_memory.cache_contract_axioms]])

subsection \<open>Lemmas on the cache of responses\<close>

lemma checksum_total: "set names \<subseteq> set (map fst h) \<Longrightarrow> \<exists>s. checksum h names = Some s"
proof (induction names)
  case (Cons name names)
  then obtain vs s where "map_of h name = Some vs" "checksum h names = Some s"
    by (metis insert_subset list.simps(15) map_of_eq_None_iff not_None_eq set_map)
  then show ?case by simp
qed simp

lemma smh_key_total: "\<exists>d. smh_key X req h = Inr (''cache:'' @ Method req @ '':'' @ sha256_hex X d)"
  using checksum_total [of "sort (remdups (map fst h))" h] by (auto simp: smh_key_def)

text \<open>What the cache accepts: the static methods, and the receipts of a block given by its hash unless there are none.\<close>

definition cacheable :: "geth \<Rightarrow> RPCReq \<Rightarrow> bool" where
  "cacheable G req \<longleftrightarrow> Method req \<in> set static_methods \<or> Method req = ''debug_getRawReceipts'' \<and> raw_receipts_filterGet G req"

definition storable :: "geth \<Rightarrow> RPCReq \<Rightarrow> RPCRes \<Rightarrow> bool" where
  "storable G req res \<longleftrightarrow> Method req \<in> set static_methods \<or>
     Method req = ''debug_getRawReceipts'' \<and> raw_receipts_filterGet G req \<and> raw_receipts_filterPut req res"

lemma raw_receipts_not_static: "''debug_getRawReceipts'' \<notin> set static_methods"
  by (simp add: static_methods_def)

lemma GetRPC_eq:
  "GetRPC X (newRPCCache G C) now ctx req c =
     (if cacheable G req then
        case smh_key X req (GetHeadersToForward ctx) of
          Inl err \<Rightarrow> (c, Inl err)
        | Inr key \<Rightarrow>
            (case cache_Get C now key c of
               (c', Inl err) \<Rightarrow> (c', Inl err)
             | (c', Inr val) \<Rightarrow>
                 if val = [] then (c', Inr None)
                 else (case json_Unmarshal X val of
                         Inl err \<Rightarrow> (c', Inl err)
                       | Inr result \<Rightarrow>
                           (c', Inr (Some \<lparr>rs_JSONRPC = JSONRPC req, Result = result, Error = None, rs_ID = ID req\<rparr>))))
      else (c, Inr None))"
  using raw_receipts_not_static by (auto simp: GetRPC_def newRPCCache_def GetRPCMethod_def cacheable_def)

lemma PutRPC_eq:
  "PutRPC X (newRPCCache G C) now ctx req res c =
     (if storable G req res then
        case smh_key X req (GetHeadersToForward ctx) of
          Inl err \<Rightarrow> (c, Some err)
        | Inr key \<Rightarrow> cache_Put C now key (json_Marshal X (Result res)) c
      else (c, None))"
  using raw_receipts_not_static by (auto simp: PutRPC_def newRPCCache_def PutRPCMethod_def storable_def)

text \<open>A history of the cache.\<close>

datatype cache_op = GetOp Time Ctx RPCReq | PutOp Time Ctx RPCReq RPCRes

fun run_op :: "cache_text \<Rightarrow> geth \<Rightarrow> 'c Cache \<Rightarrow> cache_op \<Rightarrow> 'c \<Rightarrow> 'c" where
  "run_op X G C (GetOp now ctx req) c = fst (GetRPC X (newRPCCache G C) now ctx req c)"
| "run_op X G C (PutOp now ctx req res) c = fst (PutRPC X (newRPCCache G C) now ctx req res c)"

definition stored_by :: "cache_text \<Rightarrow> geth \<Rightarrow> cache_op list \<Rightarrow> string \<Rightarrow> string set" where
  "stored_by X G ops k = {json_Marshal X (Result res) |now ctx req res. PutOp now ctx req res \<in> set ops \<and> storable G req res \<and>
     smh_key X req (GetHeadersToForward ctx) = Inr k}"

context cache_contract
begin

lemma GetRPC_frame: "GetRPC X (newRPCCache G C) now ctx req s = (s', x) \<Longrightarrow> holds s' k \<subseteq> holds s k"
  by (auto simp: GetRPC_eq split: if_splits sum.splits prod.splits dest!: Get_frame [where k' = k])

lemma PutRPC_frame:
  assumes "PutRPC X (newRPCCache G C) now ctx req res s = (s', e)"
  shows "holds s' k \<subseteq> holds s k \<union> stored_by X G [PutOp now ctx req res] k"
proof (cases "storable G req res")
  case True
  obtain key where key: "smh_key X req (GetHeadersToForward ctx) = Inr key" using smh_key_total by blast
  have "cache_Put C now key (json_Marshal X (Result res)) s = (s', e)" using assms True key by (simp add: PutRPC_eq)
  from Put_frame [OF this, of k] show ?thesis using True key by (auto simp: stored_by_def split: if_splits)
qed (use assms in \<open>simp add: PutRPC_eq\<close>)

lemma run_holds: "holds (fold (run_op X G C) ops s) k \<subseteq> holds s k \<union> stored_by X G ops k"
proof (induction ops arbitrary: s)
  case (Cons op ops)
  have "holds (run_op X G C op s) k \<subseteq> holds s k \<union> stored_by X G [op] k"
  proof (cases op)
    case (GetOp now ctx req)
    then show ?thesis using GetRPC_frame [of X G now ctx req s] by (cases "GetRPC X (newRPCCache G C) now ctx req s") auto
  next
    case (PutOp now ctx req res)
    then show ?thesis using PutRPC_frame [of X G now ctx req res s] by (cases "PutRPC X (newRPCCache G C) now ctx req res s") auto
  qed
  moreover have "stored_by X G [op] k \<union> stored_by X G ops k \<subseteq> stored_by X G (op # ops) k" by (auto simp: stored_by_def)
  ultimately show ?case using Cons.IH [of "run_op X G C op s"] by auto
qed simp

lemma GetRPC_stored:
  assumes "GetRPC X (newRPCCache G C) now ctx req s = (s', Inr (Some res))"
  shows "cacheable G req \<and> (\<exists>key val. smh_key X req (GetHeadersToForward ctx) = Inr key \<and> val \<in> holds s key \<and> json_Unmarshal X val = Inr (Result res)) \<and>
    rs_JSONRPC res = JSONRPC req \<and> Error res = None \<and> rs_ID res = ID req"
  using assms by (auto simp: GetRPC_eq split: if_splits sum.splits prod.splits dest: Get_holds)

end

context cache_store
begin

lemma GetRPC_after_put:
  assumes "ok s" and "storable G req res" and "json_Marshal X (Result res) \<noteq> []"
    and "json_Unmarshal X (json_Marshal X (Result res)) = Inr (Result res)"
    and "Method req' = Method req" and "Params req' = Params req" and "GetHeadersToForward ctx' = GetHeadersToForward ctx"
    and put: "PutRPC X (newRPCCache G C) t ctx req res s = (s', None)" and "t \<le> t'" and "t' < t + ttl"
    and get: "GetRPC X (newRPCCache G C) t' ctx' req' s' = (s'', x)"
  shows "x = Inr (Some \<lparr>rs_JSONRPC = JSONRPC req', Result = Result res, Error = None, rs_ID = ID req'\<rparr>) \<or> (\<exists>e. x = Inl e)"
proof -
  obtain key where key: "smh_key X req (GetHeadersToForward ctx) = Inr key" using smh_key_total by blast
  have p: "cache_Put C t key (json_Marshal X (Result res)) s = (s', None)" using put assms(2) key by (simp add: PutRPC_eq)
  obtain s1 y where g: "cache_Get C t' key s' = (s1, y)" by (metis surj_pair)
  have c: "cacheable G req'" using assms(2,5,6) by (auto simp: cacheable_def storable_def raw_receipts_filterGet_def)
  have k: "smh_key X req' (GetHeadersToForward ctx') = Inr key" using key by (simp only: smh_key_def assms(5-7))
  from put_get [OF assms(1) p assms(9,10) g] show ?thesis using get g c k assms(3,4) by (auto simp: GetRPC_eq)
qed

end

subsection \<open>Properties\<close>

text \<open>
  C16. The cache only gives back what was put. Whatever was asked of and put into an empty cache before, and whatever the cache evicted,
  lost or fell back on, a response from the cache is the result of an earlier response to a request of the same method
  and the same key, that was allowed to be stored; it carries the id and the version of the request and no error.
\<close>

theorem cache_sound:
  assumes "cache_contract C holds" and empty: "\<forall>k. holds s0 k = {}" and "\<forall>x. length (sha256_hex X x) = 64"
    and get: "GetRPC X (newRPCCache G C) now ctx req (fold (run_op X G C) ops s0) = (s, Inr (Some res))"
  shows "cacheable G req \<and> rs_JSONRPC res = JSONRPC req \<and> Error res = None \<and> rs_ID res = ID req \<and>
    (\<exists>now' ctx' req' res'. PutOp now' ctx' req' res' \<in> set ops \<and> storable G req' res' \<and> Method req' = Method req \<and>
      smh_key X req' (GetHeadersToForward ctx') = smh_key X req (GetHeadersToForward ctx) \<and>
      json_Unmarshal X (json_Marshal X (Result res')) = Inr (Result res))"
proof -
  from cache_contract.GetRPC_stored [OF assms(1) get] obtain key val where
    c: "cacheable G req" "rs_JSONRPC res = JSONRPC req" "Error res = None" "rs_ID res = ID req" and
    k: "smh_key X req (GetHeadersToForward ctx) = Inr key" "val \<in> holds (fold (run_op X G C) ops s0) key" "json_Unmarshal X val = Inr (Result res)"
    by blast
  have "val \<in> stored_by X G ops key" using cache_contract.run_holds [OF assms(1)] k(2) empty by blast
  then obtain now' ctx' req' res' where p: "PutOp now' ctx' req' res' \<in> set ops" "storable G req' res'"
    "smh_key X req' (GetHeadersToForward ctx') = Inr key" "val = json_Marshal X (Result res')" by (auto simp: stored_by_def)
  obtain d d' where "smh_key X req (GetHeadersToForward ctx) = Inr (''cache:'' @ Method req @ '':'' @ sha256_hex X d)"
    "smh_key X req' (GetHeadersToForward ctx') = Inr (''cache:'' @ Method req' @ '':'' @ sha256_hex X d')"
    using smh_key_total by blast
  then have "''cache:'' @ Method req @ '':'' @ sha256_hex X d = ''cache:'' @ Method req' @ '':'' @ sha256_hex X d'" using k(1) p(3) by simp
  then have "Method req @ '':'' @ sha256_hex X d = Method req' @ '':'' @ sha256_hex X d'" by simp
  then have "Method req' = Method req"
    using assms(3) append_eq_append_conv [of "'':'' @ sha256_hex X d" "'':'' @ sha256_hex X d'" "Method req" "Method req'"] by simp
  then show ?thesis using c k p by auto
qed

definition text_ref :: cache_text where
  "text_ref = \<lparr>
     raw_text = \<lambda>p. case p of Some (JArr [JStr s]) \<Rightarrow> s | _ \<Rightarrow> [],
     json_Marshal = \<lambda>r. case r of Val (JStr s) \<Rightarrow> quote # s | _ \<Rightarrow> ''null'',
     json_Unmarshal = \<lambda>s. case s of c # t \<Rightarrow> if c = quote then Inr (Val (JStr t)) else Inr NilVal | [] \<Rightarrow> Inl (Errorf ''unexpected end of JSON input''),
     sha256_hex = \<lambda>s. take 64 (s @ replicate 64 CHR ''0'')\<rparr>"

definition chain_response :: RPCRes where
  "chain_response = NewRPCRes ''1'' (Val (JStr ''0x1''))"

lemma text_ref_key: "smh_key text_ref (call i m) [] = Inr (''cache:'' @ m @ '':'' @ replicate 64 CHR ''0'')"
  by (simp add: smh_key_def text_ref_def call_def)

lemma text_ref_json:
  "json_Marshal text_ref (Val (JStr s)) = quote # s" "json_Unmarshal text_ref (quote # s) = Inr (Val (JStr s))"
  by (simp_all add: text_ref_def)

lemma memory_hit:
  "\<exists>s. GetRPC text_ref (newRPCCache geth_ref (newCacheWithCompression plain_snappy (memory_cache alist_lru))) 1 no_ctx (call ''2'' ''eth_chainId'')
     (fold (run_op text_ref geth_ref (newCacheWithCompression plain_snappy (memory_cache alist_lru)))
       [PutOp 0 no_ctx (call ''1'' ''eth_chainId'') chain_response] (newMemoryCache alist_lru)) =
   (s, Inr (Some (NewRPCRes ''2'' (Val (JStr ''0x1'')))))"
proof -
  have m: "cacheable geth_ref (call i ''eth_chainId'')" "storable geth_ref (call i ''eth_chainId'') r" "JSONRPC (call i m) = ''2.0''" "ID (call i m) = i" for i m r
    by (simp_all add: cacheable_def storable_def call_def static_methods_def)
  show ?thesis
    by (simp add: GetRPC_eq PutRPC_eq m text_ref_key text_ref_json GetHeadersToForward_def no_ctx_def chain_response_def NewRPCRes_def JSONRPCVersion_def)
      (simp add: newCacheWithCompression_def compression_Get_def compression_Put_def memory_cache_def memory_Get_def memory_Put_def
        newMemoryCache_def memoryCacheLimit_def alist_lru_def plain_snappy_def text_ref_json call_def)
qed

theorem cache_sound_witness:
  "cacheable geth_ref (call ''2'' ''eth_chainId'') \<and>
   storable geth_ref (call ''1'' ''eth_chainId'') chain_response \<and>
   json_Unmarshal text_ref (json_Marshal text_ref (Result chain_response)) = Inr (Val (JStr ''0x1''))"
proof -
  let ?C = "newCacheWithCompression plain_snappy (memory_cache alist_lru)"
  obtain s where g: "GetRPC text_ref (newRPCCache geth_ref ?C) 1 no_ctx (call ''2'' ''eth_chainId'')
      (fold (run_op text_ref geth_ref ?C) [PutOp 0 no_ctx (call ''1'' ''eth_chainId'') chain_response] (newMemoryCache alist_lru)) =
    (s, Inr (Some (NewRPCRes ''2'' (Val (JStr ''0x1'')))))" using memory_hit by blast
  have d: "\<forall>x. length (sha256_hex text_ref x) = 64" by (simp add: text_ref_def min_def)
  have h: "\<forall>k. {v. \<exists>w\<in>set_option (map_of (snd (newMemoryCache alist_lru)) k). snappy_Decode plain_snappy w = Inr v} = {}"
    by (simp add: newMemoryCache_def alist_lru_def)
  from cache_sound [OF memory_compressed.cache_contract_axioms h d g]
  show ?thesis by (auto simp: NewRPCRes_def)
qed



text \<open>
  Headers are not separated in the key. The names and the values of the forwarded headers are hashed one after the other, so requests
  with different forwarded headers have the same key, whatever the digest, and one is answered with the cached response of the other.
\<close>

theorem cache_key_collision:
  "smh_key X req [(''X-A'', [''b1''])] = smh_key X req [(''X-Ab'', [''1''])] \<and>
   smh_key X req [(''X-Key'', [''ab'', ''c''])] = smh_key X req [(''X-Key'', [''a'', ''bc''])]"
  by (simp add: smh_key_def)

end
