(* ===== verification/Interop.thy ===== *)
theory Interop
  imports Backend "HOL-Library.Sublist"
begin

section \<open>Validation of interop transactions\<close>

text \<open>
  Models \<^verbatim>\<open>src/interop.go\<close>, \<^verbatim>\<open>src/interop_strategy.go\<close> and the interop errors of
  \<^verbatim>\<open>src/backend.go\<close>: the access list of a transaction is parsed and freed of duplicates, and then checked
  by one supervisor, by all of them at once, or by one that rotates and skips unhealthy ones. The supervisor client and the
  package that parses access lists are parameters; an entry of an access list is a string. The loop over the entries ends only if
  parsing consumes entries, so it is a partial function, and \<open>None\<close> stands for not returning. The goroutines of the multicall
  strategy are a step relation.
\<close>

subsection \<open>The supervisor\<close>

record Access =
  acc_ChainID :: string
  acc_BlockNumber :: u64
  acc_LogIndex :: "32 word"
  acc_Timestamp :: u64
  acc_Checksum :: string

text \<open>The error of a call: an \<open>rpc.HTTPError\<close> with its status and body, or another error.\<close>

datatype call_err = HTTPError int string | OtherError err

text \<open>
  The errors the supervisor package declares, as keys of the error map; the last two are declared in this repository.
\<close>

datatype interop_kind = ErrUninitialized | ErrSkipped | ErrUnknownChain | ErrConflict | ErrIneffective | ErrOutOfOrder
  | ErrAwaitReplacementBlock | ErrStop | ErrOutOfScope | ErrPreviousToFirst | ErrFuture | ErrNotExact | ErrDataCorruption
  | ErrUnexpectedMinSafetyLevel

text \<open>
  \<open>json_error\<close> reads a response body: \<open>None\<close> if it is no JSON response, else its error member if there is one. \<open>Errorf_text\<close> is
  the text of \<open>fmt.Errorf\<close> with a format and no arguments.
\<close>

record 'e supervisor =
  ParseAccess :: "string list \<Rightarrow> err + (string list \<times> Access)"
  EncodeAccessList :: "Access list \<Rightarrow> string list"
  interop_text :: "interop_kind \<Rightarrow> string"
  ErrNoRPCSource :: err
  HTTPError_text :: "int \<Rightarrow> string \<Rightarrow> string"
  Errorf_text :: "string \<Rightarrow> string"
  json_error :: "string \<Rightarrow> RPCErr option option"
  CheckAccessList :: "'e \<Rightarrow> string \<Rightarrow> string list \<Rightarrow> u64 \<Rightarrow> 'e \<times> call_err option"

subsection \<open>Interop errors\<close>

definition interopRPCErrorMap :: "'e supervisor \<Rightarrow> (string \<times> RPCErr) list" where
  "interopRPCErrorMap V =
     map (\<lambda>(k, c, h). (interop_text V k, mkRPCErr c [] h))
       [(ErrUninitialized, -320400, 400), (ErrSkipped, -320500, 422), (ErrUnknownChain, -320501, 404),
        (ErrConflict, -320600, 409), (ErrIneffective, -320601, 422), (ErrOutOfOrder, -320900, 409),
        (ErrAwaitReplacementBlock, -320901, 409), (ErrStop, -321000, 400), (ErrOutOfScope, -321100, 400),
        (ErrPreviousToFirst, -321200, 404), (ErrFuture, -321401, 422), (ErrNotExact, -321500, 404),
        (ErrDataCorruption, -321501, 422), (ErrUnexpectedMinSafetyLevel, -32602, 400)] @
     [(''stopped acces-list check early'', mkRPCErr (-32602) [] 400), (''failed to read data'', mkRPCErr (-32602) [] 400)]"

text \<open>The fallback error and the text that is looked up. The order in which Go visits the map is the world's choice.\<close>

definition interop_fallback :: "'e supervisor \<Rightarrow> call_err \<Rightarrow> (RPCErr \<times> string) outcome" where
  "interop_fallback V err =
     (case err of
        OtherError er \<Rightarrow> Return (mkRPCErr JSONRPCErrorInternal (err_text er) 500, err_text er)
      | HTTPError status body \<Rightarrow>
          (case json_error V body of
             None \<Rightarrow> Return ((ErrInvalidParams body)\<lparr>HTTPErrorCode := status\<rparr>, HTTPError_text V status body)
           | Some None \<Rightarrow> Panic ''nil pointer dereference''
           | Some (Some rpcErr) \<Rightarrow> Return (rpcErr\<lparr>HTTPErrorCode := status\<rparr>, Errorf_text V (Message rpcErr))))"

definition ParseInteropError :: "'e World \<Rightarrow> 'e supervisor \<Rightarrow> 'e \<Rightarrow> call_err \<Rightarrow> ('e \<times> RPCErr) outcome" where
  "ParseInteropError W V e err =
     obind (interop_fallback V err) (\<lambda>(fallbackErr, errStr).
       case w_order W e (map fst (interopRPCErrorMap V)) of (e1, subs) \<Rightarrow>
         (case List.find (\<lambda>s. sublist s errStr) subs of
            None \<Rightarrow> Return (e1, fallbackErr)
          | Some s \<Rightarrow>
              (case map_of (interopRPCErrorMap V) s of
                 None \<Rightarrow> Return (e1, fallbackErr)
               | Some codes \<Rightarrow> Return (e1, (RPCErr_Clone codes)\<lparr>Message := errStr\<rparr>))))"

subsection \<open>Access lists\<close>

definition accessObjectToKey :: "Access \<Rightarrow> string" where
  "accessObjectToKey a =
     acc_ChainID a @ ''/'' @ fmt_nat (unat (acc_BlockNumber a)) @ ''/'' @ fmt_nat (unat (acc_LogIndex a)) @ ''/'' @
     fmt_nat (unat (acc_Timestamp a)) @ ''/'' @ acc_Checksum a"

partial_function (option) dedup_loop ::
  "'e supervisor \<Rightarrow> string list \<Rightarrow> Access list \<Rightarrow> string list \<Rightarrow> (err + Access list) option" where
  "dedup_loop V entriesToParse accs seen =
     (if entriesToParse = [] then Some (Inr accs)
      else case ParseAccess V entriesToParse of
        Inl err \<Rightarrow> Some (Inl err)
      | Inr (remaining, a) \<Rightarrow>
          if accessObjectToKey a \<in> set seen then dedup_loop V remaining accs seen
          else dedup_loop V remaining (accs @ [a]) (accessObjectToKey a # seen))"

declare dedup_loop.simps [code]

definition validateAndDeduplicateInteropAccessList :: "'e supervisor \<Rightarrow> string list \<Rightarrow> (err + string list) option" where
  "validateAndDeduplicateInteropAccessList V entriesToParse =
     (if entriesToParse = [] then Some (Inr [])
      else map_option (map_sum id (EncodeAccessList V)) (dedup_loop V entriesToParse [] []))"

definition getInteropExecutingDescriptorTimestamp :: "Time \<Rightarrow> u64" where
  "getInteropExecutingDescriptorTimestamp now = of_int (time_Unix now + 1000)"

subsection \<open>What the strategies share\<close>

record commonInteropStrategy =
  urls :: "string list"
  accessListSizeLimit :: int
  reqSizeLimit :: int
  validateAndDeduplicate :: bool
  skipOnNoSupervisorBackend :: bool

type_synonym commonStrategyOpt = "commonInteropStrategy \<Rightarrow> commonInteropStrategy"

definition WithReqSizeLimit :: "int \<Rightarrow> commonStrategyOpt" where
  "WithReqSizeLimit n s = s\<lparr>reqSizeLimit := n\<rparr>"

definition WithAccessListSizeLimit :: "int \<Rightarrow> commonStrategyOpt" where
  "WithAccessListSizeLimit n s = s\<lparr>accessListSizeLimit := n\<rparr>"

definition WithValidateAndDeduplicateInteropAccessList :: "bool \<Rightarrow> commonStrategyOpt" where
  "WithValidateAndDeduplicateInteropAccessList b s = s\<lparr>validateAndDeduplicate := b\<rparr>"

definition WithSkipOnNoSupervisorBackend :: "bool \<Rightarrow> commonStrategyOpt" where
  "WithSkipOnNoSupervisorBackend b s = s\<lparr>skipOnNoSupervisorBackend := b\<rparr>"

definition NewCommonInteropStrategy :: "string list \<Rightarrow> commonStrategyOpt list \<Rightarrow> commonInteropStrategy" where
  "NewCommonInteropStrategy us opts =
     fold (\<lambda>opt c. opt c) opts
       \<lparr>urls = us, accessListSizeLimit = 0, reqSizeLimit = 0, validateAndDeduplicate = True, skipOnNoSupervisorBackend = False\<rparr>"

text \<open>An error, or the list to validate; \<open>None\<close> in its place means that there is nothing to validate.\<close>

definition check_size :: "commonInteropStrategy \<Rightarrow> string list \<Rightarrow> err + string list option" where
  "check_size s acl =
     (if accessListSizeLimit s > 0 \<and> int (length acl) > accessListSizeLimit s
      then Inl (RpcE ErrInteropAccessListOutOfBounds) else Inr (Some acl))"

definition preflightChecksAndCleanupAccessList ::
  "'e World \<Rightarrow> 'e supervisor \<Rightarrow> commonInteropStrategy \<Rightarrow> 'e \<Rightarrow> string list \<Rightarrow> ('e \<times> (err + string list option)) outcome option" where
  "preflightChecksAndCleanupAccessList W V s e acl =
     (if urls s = [] then
        Some (Return (e, if skipOnNoSupervisorBackend s then Inr None else Inl (ErrNoRPCSource V)))
      else if validateAndDeduplicate s then
        (case validateAndDeduplicateInteropAccessList V acl of
           None \<Rightarrow> None
         | Some (Inl err) \<Rightarrow>
             Some (obind (ParseInteropError W V e (OtherError (Wrapped ''failed to read data:'' (Some err)))) (\<lambda>(e1, r).
               Return (e1, Inl (RpcE r))))
         | Some (Inr acl1) \<Rightarrow> Some (Return (e, check_size s acl1)))
      else Some (Return (e, check_size s acl)))"

text \<open>One check: the world, the HTTP code and the error.\<close>

definition performCheckAccessListOp ::
  "'e World \<Rightarrow> 'e supervisor \<Rightarrow> 'e \<Rightarrow> string list \<Rightarrow> string \<Rightarrow> ('e \<times> int \<times> RPCErr option) outcome" where
  "performCheckAccessListOp W V e acl url =
     (case CheckAccessList V e url acl (getInteropExecutingDescriptorTimestamp (w_now W e)) of
        (e1, None) \<Rightarrow> Return (e1, 200, None)
      | (e1, Some err) \<Rightarrow>
          obind (ParseInteropError W V e1 err) (\<lambda>(e2, interopErr). Return (e2, HTTPErrorCode interopErr, Some interopErr)))"

subsection \<open>The first supervisor\<close>

definition first_ValidateAccessList ::
  "'e World \<Rightarrow> 'e supervisor \<Rightarrow> commonInteropStrategy \<Rightarrow> 'e \<Rightarrow> string list \<Rightarrow> ('e \<times> err option) outcome option" where
  "first_ValidateAccessList W V s e acl =
     (case preflightChecksAndCleanupAccessList W V s e acl of
        None \<Rightarrow> None
      | Some pre \<Rightarrow>
          Some (obind pre (\<lambda>(e1, r).
            case r of
              Inl err \<Rightarrow> Return (e1, Some err)
            | Inr None \<Rightarrow> Return (e1, None)
            | Inr (Some acl1) \<Rightarrow>
                obind (performCheckAccessListOp W V e1 acl1 (hd (urls s))) (\<lambda>(e2, code, err).
                  Return (e2, map_option RpcE err)))))"

subsection \<open>Load balancing\<close>

record healthAwareBackend =
  hb_url :: string
  lastUnhealthy :: Time
  unhealthinessTimeout :: Duration

definition NewHealthAwareBackend :: "string \<Rightarrow> Duration \<Rightarrow> healthAwareBackend" where
  "NewHealthAwareBackend url timeout = \<lparr>hb_url = url, lastUnhealthy = 0, unhealthinessTimeout = timeout\<rparr>"

definition hb_IsHealthy :: "Time \<Rightarrow> healthAwareBackend \<Rightarrow> bool" where
  "hb_IsHealthy now b \<longleftrightarrow>
     lastUnhealthy b = 0 \<or> unhealthinessTimeout b \<le> 0 \<or> now - lastUnhealthy b > unhealthinessTimeout b"

definition MarkUnhealthy :: "Time \<Rightarrow> healthAwareBackend \<Rightarrow> healthAwareBackend" where
  "MarkUnhealthy now b = b\<lparr>lastUnhealthy := now\<rparr>"

definition hb_Validate ::
  "'e World \<Rightarrow> 'e supervisor \<Rightarrow> 'e \<Rightarrow> healthAwareBackend \<Rightarrow> string list \<Rightarrow> ('e \<times> int \<times> RPCErr option) outcome" where
  "hb_Validate W V e b acl =
     obind (performCheckAccessListOp W V e acl (hb_url b)) (\<lambda>(e1, httpCode, err).
       case err of
         None \<Rightarrow> Return (e1, httpCode, None)
       | Some er \<Rightarrow> obind (ParseInteropError W V e1 (OtherError (RpcE er))) (\<lambda>(e2, er2). Return (e2, httpCode, Some er2)))"

text \<open>The backends of the buffer are pointers in Go; here a backend is its index.\<close>

record loadBalancingBuffer =
  lb_backends :: "healthAwareBackend list"
  currentBackendIndex :: nat

definition NewLoadBalancingBuffer :: "string list \<Rightarrow> Duration \<Rightarrow> loadBalancingBuffer" where
  "NewLoadBalancingBuffer us timeout =
     \<lparr>lb_backends = map (\<lambda>u. NewHealthAwareBackend u timeout) us, currentBackendIndex = 0\<rparr>"

definition lb_Size :: "loadBalancingBuffer \<Rightarrow> nat" where
  "lb_Size b = length (lb_backends b)"

definition GetBackend :: "loadBalancingBuffer \<Rightarrow> nat outcome" where
  "GetBackend b =
     (if currentBackendIndex b < length (lb_backends b) then Return (currentBackendIndex b) else Panic ''index out of range'')"

definition NextBackend :: "loadBalancingBuffer \<Rightarrow> (loadBalancingBuffer \<times> nat) outcome" where
  "NextBackend b =
     (if lb_backends b = [] then Panic ''integer divide by zero''
      else let i = (currentBackendIndex b + 1) mod length (lb_backends b) in Return (b\<lparr>currentBackendIndex := i\<rparr>, i))"

fun lb_loop ::
  "'e World \<Rightarrow> 'e supervisor \<Rightarrow> string list \<Rightarrow> nat \<Rightarrow> 'e \<Rightarrow> loadBalancingBuffer \<Rightarrow> nat
    \<Rightarrow> ('e \<times> loadBalancingBuffer \<times> err option) outcome" where
  "lb_loop W V acl 0 e b i =
     obind (ParseInteropError W V e (OtherError (Errorf ''no healthy supervisor backends found''))) (\<lambda>(e1, r).
       Return (e1, b, Some (RpcE r)))"
| "lb_loop W V acl (Suc n) e b i =
     (if \<not> hb_IsHealthy (w_now W e) (lb_backends b ! i) then
        obind (NextBackend b) (\<lambda>(b1, i1). lb_loop W V acl n e b1 i1)
      else
        obind (hb_Validate W V e (lb_backends b ! i) acl) (\<lambda>(e1, httpCode, err).
          case err of
            None \<Rightarrow> Return (e1, b, None)
          | Some er \<Rightarrow>
              if httpCode \<ge> 500 then
                obind (NextBackend (b\<lparr>lb_backends := (lb_backends b)[i := MarkUnhealthy (w_now W e1) (lb_backends b ! i)]\<rparr>))
                  (\<lambda>(b1, i1). lb_loop W V acl n e1 b1 i1)
              else Return (e1, b, Some (RpcE er))))"

definition balanced_ValidateAccessList ::
  "'e World \<Rightarrow> 'e supervisor \<Rightarrow> commonInteropStrategy \<Rightarrow> 'e \<Rightarrow> loadBalancingBuffer \<Rightarrow> string list
    \<Rightarrow> ('e \<times> loadBalancingBuffer \<times> err option) outcome option" where
  "balanced_ValidateAccessList W V s e b acl =
     (case preflightChecksAndCleanupAccessList W V s e acl of
        None \<Rightarrow> None
      | Some pre \<Rightarrow>
          Some (obind pre (\<lambda>(e1, r).
            obind (case r of
                     Inl err \<Rightarrow> Return (e1, b, Some err)
                   | Inr None \<Rightarrow> Return (e1, b, None)
                   | Inr (Some acl1) \<Rightarrow> obind (GetBackend b) (\<lambda>i. lb_loop W V acl1 (lb_Size b) e1 b i))
              (\<lambda>(e2, b2, err). obind (NextBackend b2) (\<lambda>(b3, _). Return (e2, b3, err))))))"

subsection \<open>All supervisors at once\<close>

text \<open>
  The goroutines of one validation. A sender checks with its supervisor and puts the result into the channel, which has room for all results.
  The caller takes results until it has its answer or has seen as many as there are senders. Once all senders are done, another goroutine
  drains the channel; it waits for a close that only comes after the drain, so it takes whatever the caller has not taken yet.
\<close>

record multicall =
  mc_senders :: "string list"
  mc_chan :: "RPCErr option list"
  mc_left :: nat
  mc_firstErr :: "RPCErr option"
  mc_result :: "RPCErr option option"

definition mc_start :: "string list \<Rightarrow> multicall" where
  "mc_start us = \<lparr>mc_senders = us, mc_chan = [], mc_left = length us, mc_firstErr = None, mc_result = None\<rparr>"

text \<open>What the caller does with a result, and at the end of its loop.\<close>

definition mc_receive :: "RPCErr option \<Rightarrow> multicall \<Rightarrow> multicall" where
  "mc_receive x m =
     (case x of
        None \<Rightarrow> m\<lparr>mc_left := mc_left m - 1, mc_result := Some None\<rparr>
      | Some er \<Rightarrow> m\<lparr>mc_left := mc_left m - 1,
          mc_firstErr := (case mc_firstErr m of None \<Rightarrow> Some er | Some er1 \<Rightarrow> Some er1)\<rparr>)"

inductive mc_step :: "'e World \<Rightarrow> 'e supervisor \<Rightarrow> string list \<Rightarrow> 'e \<times> multicall \<Rightarrow> 'e \<times> multicall \<Rightarrow> bool"
  for W :: "'e World" and V :: "'e supervisor" and acl :: "string list" where
  send: "mc_senders m = us @ url # vs \<Longrightarrow> performCheckAccessListOp W V e acl url = Return (e1, code, err) \<Longrightarrow>
    mc_step W V acl (e, m) (e1, m\<lparr>mc_senders := us @ vs, mc_chan := mc_chan m @ [err]\<rparr>)"
| receive: "mc_result m = None \<Longrightarrow> mc_left m > 0 \<Longrightarrow> mc_chan m = x # xs \<Longrightarrow>
    mc_step W V acl (e, m) (e, mc_receive x (m\<lparr>mc_chan := xs\<rparr>))"
| finish: "mc_result m = None \<Longrightarrow> mc_left m = 0 \<Longrightarrow> mc_firstErr m = Some er \<Longrightarrow>
    ParseInteropError W V e (OtherError (RpcE er)) = Return (e1, er1) \<Longrightarrow>
    mc_step W V acl (e, m) (e1, m\<lparr>mc_result := Some (Some er1)\<rparr>)"
| drain: "mc_senders m = [] \<Longrightarrow> mc_chan m = x # xs \<Longrightarrow> mc_step W V acl (e, m) (e, m\<lparr>mc_chan := xs\<rparr>)"

text \<open>The validation: the answer of the checks before, or the list to validate with the goroutines started.\<close>

definition multicall_ValidateAccessList ::
  "'e World \<Rightarrow> 'e supervisor \<Rightarrow> commonInteropStrategy \<Rightarrow> 'e \<Rightarrow> string list \<Rightarrow> ('e \<times> (err option + string list \<times> multicall)) outcome option" where
  "multicall_ValidateAccessList W V s e acl =
     (case preflightChecksAndCleanupAccessList W V s e acl of
        None \<Rightarrow> None
      | Some pre \<Rightarrow>
          Some (obind pre (\<lambda>(e1, r). Return (e1,
            case r of
              Inl err \<Rightarrow> Inl (Some err)
            | Inr None \<Rightarrow> Inl None
            | Inr (Some acl1) \<Rightarrow> Inr (acl1, mc_start (urls s))))))"

inductive_simps mc_step_simps: "mc_step W V acl (e, m) s"

subsection \<open>Lemmas on access lists\<close>

text \<open>What the package promises of parsing: it consumes entries, and what it wrote itself it reads back.\<close>

inductive parses :: "'e supervisor \<Rightarrow> string list \<Rightarrow> Access list \<Rightarrow> bool" for V :: "'e supervisor" where
  none: "parses V [] []"
| one: "es \<noteq> [] \<Longrightarrow> ParseAccess V es = Inr (remaining, a) \<Longrightarrow> parses V remaining accs \<Longrightarrow> parses V es (a # accs)"

inductive parse_fails :: "'e supervisor \<Rightarrow> string list \<Rightarrow> err \<Rightarrow> bool" for V :: "'e supervisor" where
  now: "es \<noteq> [] \<Longrightarrow> ParseAccess V es = Inl err \<Longrightarrow> parse_fails V es err"
| later: "es \<noteq> [] \<Longrightarrow> ParseAccess V es = Inr (remaining, a) \<Longrightarrow> parse_fails V remaining err \<Longrightarrow> parse_fails V es err"

locale access_parser =
  fixes V :: "'e supervisor"
  assumes ParseAccess_consumes: "ParseAccess V es = Inr (remaining, a) \<Longrightarrow> length remaining < length es"
    and ParseAccess_chain: "ParseAccess V es = Inr (remaining, a) \<Longrightarrow> CHR ''/'' \<notin> set (acc_ChainID a)"
    and Encode_parses: "\<forall>a\<in>set accs. CHR ''/'' \<notin> set (acc_ChainID a) \<Longrightarrow> parses V (EncodeAccessList V accs) accs"

lemma fmt_nat_no_slash: "CHR ''/'' \<notin> set (fmt_nat n)"
  using fmt_nat_props [of n] by fastforce

lemma fmt_nat_inj: "fmt_nat m = fmt_nat n \<longleftrightarrow> m = n"
  using fmt_nat_props by metis

lemma slash_split: "c \<notin> set x \<Longrightarrow> c \<notin> set y \<Longrightarrow> x @ c # u = y @ c # v \<longleftrightarrow> x = y \<and> u = v"
proof (induction x arbitrary: y)
  case Nil
  then show ?case by (cases y) auto
next
  case (Cons d x)
  then show ?case by (cases y) auto
qed

lemma key_inj:
  assumes "CHR ''/'' \<notin> set (acc_ChainID a)" and "CHR ''/'' \<notin> set (acc_ChainID b)" and "accessObjectToKey a = accessObjectToKey b"
  shows "a = b"
proof -
  have "acc_ChainID a = acc_ChainID b" "unat (acc_BlockNumber a) = unat (acc_BlockNumber b)" "unat (acc_LogIndex a) = unat (acc_LogIndex b)"
    "unat (acc_Timestamp a) = unat (acc_Timestamp b)" "acc_Checksum a = acc_Checksum b"
    using assms by (simp_all add: accessObjectToKey_def slash_split fmt_nat_no_slash fmt_nat_inj)
  then show ?thesis by (simp add: word_unat_eq_iff)
qed

text \<open>The first access of every key, in order.\<close>

fun firsts :: "string list \<Rightarrow> Access list \<Rightarrow> Access list" where
  "firsts seen [] = []"
| "firsts seen (a # accs) =
     (if accessObjectToKey a \<in> set seen then firsts seen accs else a # firsts (accessObjectToKey a # seen) accs)"

lemma dedup_loop_parses: "parses V es accs \<Longrightarrow> dedup_loop V es acc seen = Some (Inr (acc @ firsts seen accs))"
proof (induction arbitrary: acc seen rule: parses.induct)
  case none
  then show ?case by (simp add: dedup_loop.simps)
next
  case (one es remaining a accs)
  then show ?case by (simp add: dedup_loop.simps [of V es])
qed

lemma dedup_loop_fails: "parse_fails V es err \<Longrightarrow> dedup_loop V es acc seen = Some (Inl err)"
proof (induction arbitrary: acc seen rule: parse_fails.induct)
  case (now es err)
  then show ?case by (simp add: dedup_loop.simps [of V es])
next
  case (later es remaining a err)
  then show ?case by (simp add: dedup_loop.simps [of V es])
qed

lemma firsts_subseq: "subseq (firsts seen accs) accs"
  by (induction accs arbitrary: seen) (auto intro: subseq_Cons2)

lemma firsts_subset: "set (firsts seen accs) \<subseteq> set accs"
  by (induction accs arbitrary: seen) auto

lemma firsts_keys:
  "distinct (map accessObjectToKey (firsts seen accs)) \<and> set (map accessObjectToKey (firsts seen accs)) = accessObjectToKey ` set accs - set seen"
  by (induction accs arbitrary: seen) auto

lemma firsts_distinct:
  "distinct (map accessObjectToKey accs) \<Longrightarrow> \<forall>a\<in>set accs. accessObjectToKey a \<notin> set seen \<Longrightarrow> firsts seen accs = accs"
proof (induction accs arbitrary: seen)
  case (Cons a accs)
  have "\<forall>b\<in>set accs. accessObjectToKey b \<notin> set (accessObjectToKey a # seen)"
  proof
    fix b assume b: "b \<in> set accs"
    then have "accessObjectToKey b \<in> accessObjectToKey ` set accs" by (rule imageI)
    moreover have "accessObjectToKey a \<notin> accessObjectToKey ` set accs" using Cons.prems(1) by simp
    ultimately have "accessObjectToKey b \<noteq> accessObjectToKey a" by metis
    then show "accessObjectToKey b \<notin> set (accessObjectToKey a # seen)" using Cons.prems(2) b by simp
  qed
  then show ?case using Cons by simp
qed simp

lemma firsts_set:
  assumes "\<forall>a\<in>set accs. CHR ''/'' \<notin> set (acc_ChainID a)"
  shows "set (firsts [] accs) = set accs"
proof
  show "set (firsts [] accs) \<subseteq> set accs" by (rule firsts_subset)
  show "set accs \<subseteq> set (firsts [] accs)"
  proof
    fix a assume a: "a \<in> set accs"
    then have "accessObjectToKey a \<in> set (map accessObjectToKey (firsts [] accs))" using firsts_keys [of "[]" accs] by auto
    then obtain b where b: "b \<in> set (firsts [] accs)" "accessObjectToKey b = accessObjectToKey a" by auto
    then have "b \<in> set accs" using firsts_subset by blast
    then show "a \<in> set (firsts [] accs)" using key_inj [of b a] assms a b by auto
  qed
qed

context access_parser
begin

lemma parse_total: "(\<exists>accs. parses V es accs \<and> (\<forall>a\<in>set accs. CHR ''/'' \<notin> set (acc_ChainID a))) \<or> (\<exists>err. parse_fails V es err)"
proof (induction es rule: length_induct)
  case (1 es)
  show ?case
  proof (cases "es = []")
    case True
    have "parses V [] []" by (rule parses.none)
    then show ?thesis using True by (metis empty_iff empty_set)
  next
    case False
    show ?thesis
    proof (cases "ParseAccess V es")
      case (Inl err)
      then show ?thesis using parse_fails.now [OF False] by blast
    next
      case (Inr p)
      obtain remaining a where p: "ParseAccess V es = Inr (remaining, a)" using Inr by (cases p) simp
      have "(\<exists>accs. parses V remaining accs \<and> (\<forall>a\<in>set accs. CHR ''/'' \<notin> set (acc_ChainID a))) \<or> (\<exists>err. parse_fails V remaining err)"
        using 1 ParseAccess_consumes [OF p] by blast
      then show ?thesis
      proof
        assume "\<exists>accs. parses V remaining accs \<and> (\<forall>a\<in>set accs. CHR ''/'' \<notin> set (acc_ChainID a))"
        then obtain accs where "parses V remaining accs" "\<forall>a\<in>set accs. CHR ''/'' \<notin> set (acc_ChainID a)" by blast
        then have "parses V es (a # accs)" "\<forall>b\<in>set (a # accs). CHR ''/'' \<notin> set (acc_ChainID b)"
          using parses.one [OF False p] ParseAccess_chain [OF p] by auto
        then show ?thesis by blast
      next
        assume "\<exists>err. parse_fails V remaining err"
        then show ?thesis using parse_fails.later [OF False p] by blast
      qed
    qed
  qed
qed

lemma validate_encoded:
  assumes "distinct (map accessObjectToKey ds)" and "\<forall>a\<in>set ds. CHR ''/'' \<notin> set (acc_ChainID a)"
  shows "validateAndDeduplicateInteropAccessList V (EncodeAccessList V ds) = Some (Inr (EncodeAccessList V ds))"
  using dedup_loop_parses [OF Encode_parses [OF assms(2)], of "[]" "[]"] firsts_distinct [OF assms(1), of "[]"]
  by (simp add: validateAndDeduplicateInteropAccessList_def)

lemma validate_total: "\<exists>v. validateAndDeduplicateInteropAccessList V es = Some v"
proof -
  consider accs where "parses V es accs" | err where "parse_fails V es err" using parse_total by blast
  then show ?thesis
  proof cases
    case 1
    from dedup_loop_parses [OF this, of "[]" "[]"] show ?thesis by (simp add: validateAndDeduplicateInteropAccessList_def)
  next
    case 2
    from dedup_loop_fails [OF this, of "[]" "[]"] show ?thesis by (simp add: validateAndDeduplicateInteropAccessList_def)
  qed
qed

end

subsection \<open>A concrete supervisor\<close>

text \<open>An access takes five entries; the supervisors answer as a function of their URL says, and interop errors have their names as texts.\<close>

fun parse_five :: "string list \<Rightarrow> err + (string list \<times> Access)" where
  "parse_five (c # b # l # t # s # remaining) =
     (if CHR ''/'' \<in> set c then Inl (Errorf ''bad chain id'')
      else Inr (remaining, \<lparr>acc_ChainID = c, acc_BlockNumber = of_nat (dec_val b), acc_LogIndex = of_nat (dec_val l),
             acc_Timestamp = of_nat (dec_val t), acc_Checksum = s\<rparr>))"
| "parse_five _ = Inl (Errorf ''unexpected end of access list'')"

definition encode_five :: "Access \<Rightarrow> string list" where
  "encode_five a = [acc_ChainID a, fmt_nat (unat (acc_BlockNumber a)), fmt_nat (unat (acc_LogIndex a)), fmt_nat (unat (acc_Timestamp a)), acc_Checksum a]"

definition ref_supervisor :: "(string \<Rightarrow> call_err option) \<Rightarrow> 'e supervisor" where
  "ref_supervisor answer = \<lparr>
     ParseAccess = parse_five, EncodeAccessList = \<lambda>accs. concat (map encode_five accs),
     interop_text = \<lambda>k. if k = ErrUninitialized then ''uninitialized'' else ''conflict'',
     ErrNoRPCSource = Sentinel ''no RPC source'', HTTPError_text = \<lambda>st body. body, Errorf_text = \<lambda>s. s,
     json_error = \<lambda>body. None, CheckAccessList = \<lambda>e url acl ts. (e, answer url)\<rparr>"

lemma parse_five_encode:
  "CHR ''/'' \<notin> set (acc_ChainID a) \<Longrightarrow> parse_five (encode_five a @ es) = Inr (es, a)"
  using fmt_nat_props by (simp add: encode_five_def)

interpretation ref_access: access_parser "ref_supervisor answer :: 'e supervisor" for answer
proof
  fix es remaining a
  show "ParseAccess (ref_supervisor answer :: 'e supervisor) es = Inr (remaining, a) \<Longrightarrow> length remaining < length es"
    by (cases es rule: parse_five.cases) (auto simp: ref_supervisor_def split: if_splits)
  show "ParseAccess (ref_supervisor answer :: 'e supervisor) es = Inr (remaining, a) \<Longrightarrow> CHR ''/'' \<notin> set (acc_ChainID a)"
    by (cases es rule: parse_five.cases) (auto simp: ref_supervisor_def split: if_splits)
next
  fix accs :: "Access list"
  show "\<forall>a\<in>set accs. CHR ''/'' \<notin> set (acc_ChainID a) \<Longrightarrow> parses (ref_supervisor answer :: 'e supervisor) (EncodeAccessList (ref_supervisor answer :: 'e supervisor) accs) accs"
  proof (induction accs)
    case Nil
    then show ?case by (simp add: ref_supervisor_def parses.none)
  next
    case (Cons a accs)
    have "parses (ref_supervisor answer :: 'e supervisor) (concat (map encode_five accs)) accs" using Cons by (simp add: ref_supervisor_def)
    moreover have "ParseAccess (ref_supervisor answer :: 'e supervisor) (encode_five a @ concat (map encode_five accs)) = Inr (concat (map encode_five accs), a)"
      using Cons.prems parse_five_encode by (simp add: ref_supervisor_def)
    ultimately have "parses (ref_supervisor answer :: 'e supervisor) (encode_five a @ concat (map encode_five accs)) (a # accs)"
      by (intro parses.one) (simp_all add: encode_five_def)
    then show ?case by (simp add: ref_supervisor_def)
  qed
qed

subsection \<open>Lemmas on the strategies\<close>

definition accepts :: "'e supervisor \<Rightarrow> string list \<Rightarrow> string \<Rightarrow> bool" where
  "accepts V acl u \<longleftrightarrow> (\<exists>e e' ts. CheckAccessList V e u acl ts = (e', None))"

definition cleaned :: "'e supervisor \<Rightarrow> commonInteropStrategy \<Rightarrow> string list \<Rightarrow> string list \<Rightarrow> bool" where
  "cleaned V s acl acl1 \<longleftrightarrow>
     (if validateAndDeduplicate s then validateAndDeduplicateInteropAccessList V acl = Some (Inr acl1) else acl1 = acl) \<and>
     (accessListSizeLimit s > 0 \<longrightarrow> int (length acl1) \<le> accessListSizeLimit s)"

text \<open>An access list may be accepted: a supervisor accepted the cleaned list, or there are none and that is to be skipped.\<close>

definition interop_ok :: "'e supervisor \<Rightarrow> commonInteropStrategy \<Rightarrow> string list \<Rightarrow> bool" where
  "interop_ok V s acl \<longleftrightarrow> urls s = [] \<and> skipOnNoSupervisorBackend s \<or> (\<exists>acl1. cleaned V s acl acl1 \<and> (\<exists>u\<in>set (urls s). accepts V acl1 u))"

lemma preflight_proceeds:
  assumes "preflightChecksAndCleanupAccessList W V s e acl = Some (Return (e1, Inr r))"
  shows "case r of None \<Rightarrow> urls s = [] \<and> skipOnNoSupervisorBackend s | Some acl1 \<Rightarrow> urls s \<noteq> [] \<and> cleaned V s acl acl1"
proof (cases "urls s = []")
  case True
  then show ?thesis using assms by (simp add: preflightChecksAndCleanupAccessList_def split: if_splits)
next
  case ne: False
  have size: "check_size s acl1 = Inr r \<Longrightarrow> \<exists>acl2. r = Some acl2 \<and> acl2 = acl1 \<and> (accessListSizeLimit s > 0 \<longrightarrow> int (length acl1) \<le> accessListSizeLimit s)" for acl1
    by (auto simp: check_size_def split: if_splits)
  show ?thesis
  proof (cases "validateAndDeduplicate s")
    case True
    obtain v where v: "validateAndDeduplicateInteropAccessList V acl = Some v"
      using assms ne True by (cases "validateAndDeduplicateInteropAccessList V acl") (simp_all add: preflightChecksAndCleanupAccessList_def)
    show ?thesis
    proof (cases v)
      case (Inl err)
      let ?p = "ParseInteropError W V e (OtherError (Wrapped ''failed to read data:'' (Some err)))"
      have "obind ?p (\<lambda>(e1, r). Return (e1, Inl (RpcE r))) = Return (e1, Inr r)"
        using assms ne True v Inl by (simp add: preflightChecksAndCleanupAccessList_def)
      then have False by (cases ?p) auto
      then show ?thesis ..
    next
      case (Inr acl1)
      then have "check_size s acl1 = Inr r" using assms ne True v by (simp add: preflightChecksAndCleanupAccessList_def)
      then show ?thesis using size [of acl1] ne True v Inr by (auto simp: cleaned_def)
    qed
  next
    case False
    then have "check_size s acl = Inr r" using assms ne by (simp add: preflightChecksAndCleanupAccessList_def)
    then show ?thesis using size [of acl] ne False by (auto simp: cleaned_def)
  qed
qed

lemma check_accepts: "performCheckAccessListOp W V e acl u = Return (e1, code, None) \<Longrightarrow> accepts V acl u"
proof -
  assume p: "performCheckAccessListOp W V e acl u = Return (e1, code, None)"
  obtain e2 r where c: "CheckAccessList V e u acl (getInteropExecutingDescriptorTimestamp (w_now W e)) = (e2, r)" by (metis surj_pair)
  show ?thesis
  proof (cases r)
    case None
    then show ?thesis using c unfolding accepts_def by blast
  next
    case (Some err)
    then have "obind (ParseInteropError W V e2 err) (\<lambda>(e3, ie). Return (e3, HTTPErrorCode ie, Some ie)) = Return (e1, code, None)"
      using p c by (simp add: performCheckAccessListOp_def)
    then have False by (cases "ParseInteropError W V e2 err") auto
    then show ?thesis ..
  qed
qed

lemma hb_Validate_accepts: "hb_Validate W V e b acl = Return (e1, code, None) \<Longrightarrow> accepts V acl (hb_url b)"
proof -
  assume h: "hb_Validate W V e b acl = Return (e1, code, None)"
  obtain e2 c err where p: "performCheckAccessListOp W V e acl (hb_url b) = Return (e2, c, err)"
    using h by (cases "performCheckAccessListOp W V e acl (hb_url b)") (auto simp: hb_Validate_def)
  show ?thesis
  proof (cases err)
    case None
    then show ?thesis using p check_accepts by metis
  next
    case (Some er)
    then have "obind (ParseInteropError W V e2 (OtherError (RpcE er))) (\<lambda>(e2, er2). Return (e2, c, Some er2)) = Return (e1, code, None)"
      using h p by (simp add: hb_Validate_def)
    then have False by (cases "ParseInteropError W V e2 (OtherError (RpcE er))") auto
    then show ?thesis ..
  qed
qed

lemma NextBackend_cases:
  "NextBackend b = Return (b1, i) \<Longrightarrow> lb_backends b1 = lb_backends b \<and> i < length (lb_backends b) \<and> currentBackendIndex b1 = i"
  by (auto simp: NextBackend_def Let_def split: if_splits)

lemma lb_loop_accepts:
  "lb_loop W V acl n e b i = Return (e', b', None) \<Longrightarrow> i < length (lb_backends b) \<Longrightarrow> \<exists>u\<in>set (map hb_url (lb_backends b)). accepts V acl u"
proof (induction n arbitrary: e b i)
  case 0
  then show ?case by (cases "ParseInteropError W V e (OtherError (Errorf ''no healthy supervisor backends found''))") auto
next
  case (Suc n)
  let ?h = "lb_backends b ! i"
  show ?case
  proof (cases "hb_IsHealthy (w_now W e) ?h")
    case False
    then obtain b1 i1 where "NextBackend b = Return (b1, i1)" "lb_loop W V acl n e b1 i1 = Return (e', b', None)"
      using Suc.prems by (cases "NextBackend b") auto
    then show ?thesis using Suc.IH [of e b1 i1] NextBackend_cases by metis
  next
    case True
    then obtain e1 code err where v: "hb_Validate W V e ?h acl = Return (e1, code, err)"
      using Suc.prems by (cases "hb_Validate W V e ?h acl") auto
    show ?thesis
    proof (cases err)
      case None
      then show ?thesis using v hb_Validate_accepts [of W V e ?h acl e1 code] Suc.prems(2) by auto
    next
      case (Some er)
      let ?b = "b\<lparr>lb_backends := (lb_backends b)[i := MarkUnhealthy (w_now W e1) ?h]\<rparr>"
      obtain b1 i1 where nx: "NextBackend ?b = Return (b1, i1)" "lb_loop W V acl n e1 b1 i1 = Return (e', b', None)"
        using Suc.prems True v Some by (cases "NextBackend ?b") (auto split: if_splits)
      have "map hb_url (lb_backends b1) = map hb_url (lb_backends b)"
        using NextBackend_cases [OF nx(1)] Suc.prems(2) by (simp add: map_update MarkUnhealthy_def list_update_same_conv)
      then show ?thesis using Suc.IH [OF nx(2)] NextBackend_cases [OF nx(1)] by simp
    qed
  qed
qed

text \<open>
  What is true of the goroutines at any time: the senders that are done with their results, and what became of the results.
\<close>

definition mc_inv :: "'e World \<Rightarrow> 'e supervisor \<Rightarrow> string list \<Rightarrow> string list \<Rightarrow> 'e \<times> multicall \<Rightarrow> bool" where
  "mc_inv W V acl us st \<longleftrightarrow> (case st of (e, m) \<Rightarrow> \<exists>sent rcv drained.
     mset us = mset (map fst sent) + mset (mc_senders m) \<and>
     (\<forall>(u, x)\<in>set sent. \<exists>e0 e1 code. performCheckAccessListOp W V e0 acl u = Return (e1, code, x)) \<and>
     mset (map snd sent) = rcv + drained + mset (mc_chan m) \<and> size rcv + mc_left m = length us \<and>
     (mc_result m = Some None \<longrightarrow> None \<in># rcv) \<and>
     (mc_result m \<noteq> Some None \<longrightarrow> None \<notin># rcv) \<and> (\<forall>er. mc_result m = Some (Some er) \<longrightarrow> mc_left m = 0))"

lemma mc_inv_start: "mc_inv W V acl us (e, mc_start us)"
  unfolding mc_inv_def by (simp add: mc_start_def)

lemma mc_invI:
  assumes "mset us = mset (map fst sent) + mset (mc_senders m)"
    and "\<forall>(u, x)\<in>set sent. \<exists>e0 e1 code. performCheckAccessListOp W V e0 acl u = Return (e1, code, x)"
    and "mset (map snd sent) = rcv + drained + mset (mc_chan m)" and "size rcv + mc_left m = length us"
    and "mc_result m = Some None \<longrightarrow> None \<in># rcv" and "mc_result m \<noteq> Some None \<longrightarrow> None \<notin># rcv"
    and "\<forall>er. mc_result m = Some (Some er) \<longrightarrow> mc_left m = 0"
  shows "mc_inv W V acl us (e, m)"
  using assms unfolding mc_inv_def prod.case by blast

lemma mc_inv_step:
  assumes "mc_step W V acl st st'" and "mc_inv W V acl us st"
  shows "mc_inv W V acl us st'"
proof -
  obtain e m where st: "st = (e, m)" by (cases st)
  obtain sent rcv drained where i: "mset us = mset (map fst sent) + mset (mc_senders m)"
    "\<forall>(u, x)\<in>set sent. \<exists>e0 e1 code. performCheckAccessListOp W V e0 acl u = Return (e1, code, x)"
    "mset (map snd sent) = rcv + drained + mset (mc_chan m)" "size rcv + mc_left m = length us"
    "mc_result m = Some None \<longrightarrow> None \<in># rcv" "mc_result m \<noteq> Some None \<longrightarrow> None \<notin># rcv"
    "\<forall>er. mc_result m = Some (Some er) \<longrightarrow> mc_left m = 0"
    using assms(2) unfolding mc_inv_def st prod.case by blast
  from assms(1) show ?thesis unfolding st
  proof (cases rule: mc_step.cases)
    case (send us1 url vs e1 code err)
    have "mset us = mset (map fst (sent @ [(url, err)])) + mset (us1 @ vs)" using i(1) send by simp
    moreover have "\<forall>(u, x)\<in>set (sent @ [(url, err)]). \<exists>e0 e1 code. performCheckAccessListOp W V e0 acl u = Return (e1, code, x)"
      using i(2) send by auto
    moreover have "mset (map snd (sent @ [(url, err)])) = rcv + drained + mset (mc_chan m @ [err])" using i(3) by simp
    ultimately show ?thesis unfolding send(1) using i(4-7)
      by (intro mc_invI [of us "sent @ [(url, err)]" _ W V acl rcv drained]) simp_all
  next
    case (receive x xs)
    have "mset (map snd sent) = add_mset x rcv + drained + mset xs" using i(3) receive by simp
    moreover have "size (add_mset x rcv) + (mc_left m - 1) = length us" using i(4) receive by simp
    ultimately show ?thesis
      unfolding receive(1) using i(1,2,5,6) receive
      by (intro mc_invI [of us sent _ W V acl "add_mset x rcv" drained]) (auto simp: mc_receive_def split: option.splits)
  next
    case (finish er e1 er1)
    then show ?thesis unfolding finish(1) using i by (intro mc_invI [of us sent _ W V acl rcv drained]) auto
  next
    case (drain x xs)
    have "mset (map snd sent) = rcv + add_mset x drained + mset xs" using i(3) drain by simp
    then show ?thesis unfolding drain(1) using i(1,2,4-7)
      by (intro mc_invI [of us sent _ W V acl rcv "add_mset x drained"]) auto
  qed
qed

lemma mc_inv_reachable: "(mc_step W V acl)\<^sup>*\<^sup>* st st' \<Longrightarrow> mc_inv W V acl us st \<Longrightarrow> mc_inv W V acl us st'"
  by (induction rule: rtranclp_induct) (auto intro: mc_inv_step)

lemma mc_accepted:
  assumes "mc_inv W V acl us (e, m)" and "mc_result m = Some None"
  shows "\<exists>u\<in>set us. accepts V acl u"
proof -
  obtain sent rcv drained where i: "mset us = mset (map fst sent) + mset (mc_senders m)"
    "\<forall>(u, x)\<in>set sent. \<exists>e0 e1 code. performCheckAccessListOp W V e0 acl u = Return (e1, code, x)"
    "mset (map snd sent) = rcv + drained + mset (mc_chan m)" "None \<in># rcv"
    using assms unfolding mc_inv_def prod.case by blast
  have "None \<in># mset (map snd sent)" using i(3,4) by simp
  then obtain u where u: "(u, None) \<in> set sent" by auto
  then have "u \<in># mset us" using i(1) by force
  moreover have "accepts V acl u" using i(2) u check_accepts by fastforce
  ultimately show ?thesis by auto
qed

lemma mc_rejected:
  assumes "mc_inv W V acl us (e, m)" and "mc_result m = Some (Some er)"
  shows "\<forall>u\<in>set us. \<exists>e0 e1 code er. performCheckAccessListOp W V e0 acl u = Return (e1, code, Some er)"
proof -
  obtain sent rcv drained where i: "mset us = mset (map fst sent) + mset (mc_senders m)"
    "\<forall>(u, x)\<in>set sent. \<exists>e0 e1 code. performCheckAccessListOp W V e0 acl u = Return (e1, code, x)"
    "mset (map snd sent) = rcv + drained + mset (mc_chan m)" "size rcv = length us" "None \<notin># rcv"
    using assms unfolding mc_inv_def prod.case by auto
  have "length us = length sent + length (mc_senders m)" using arg_cong [OF i(1), of size] by simp
  moreover have "length sent = size rcv + size drained + length (mc_chan m)" using arg_cong [OF i(3), of size] by simp
  ultimately have "size drained = 0 \<and> length (mc_chan m) = 0 \<and> length (mc_senders m) = 0" using i(4) by linarith
  then have z: "drained = {#}" "mset (mc_chan m) = {#}" "mset (mc_senders m) = {#}" by simp_all
  show ?thesis
  proof
    fix u assume "u \<in> set us"
    then have "u \<in># mset (map fst sent)" using i(1) z(3) by (metis add.right_neutral set_mset_mset)
    then obtain x where x: "(u, x) \<in> set sent" by auto
    then have "x \<in># rcv" using i(3) z by (metis add.right_neutral image_eqI set_map set_mset_mset snd_conv)
    then show "\<exists>e0 e1 code er. performCheckAccessListOp W V e0 acl u = Return (e1, code, Some er)"
      using i(2,5) x by (cases x) fastforce+
  qed
qed

lemma mc_send_all:
  assumes "\<forall>e. \<forall>u\<in>set us. returns (performCheckAccessListOp W V e acl u)"
  shows "\<exists>e' xs. length xs = length us \<and> (mc_step W V acl)\<^sup>*\<^sup>* (e, m\<lparr>mc_senders := us, mc_chan := ch\<rparr>) (e', m\<lparr>mc_senders := [], mc_chan := ch @ xs\<rparr>)"
  using assms
proof (induction us arbitrary: e ch)
  case Nil
  have "(mc_step W V acl)\<^sup>*\<^sup>* (e, m\<lparr>mc_senders := [], mc_chan := ch\<rparr>) (e, m\<lparr>mc_senders := [], mc_chan := ch @ []\<rparr>)" by simp
  then show ?case by (intro exI [of _ e] exI [of _ "[]"]) simp
next
  case (Cons u us)
  obtain e1 code err where p: "performCheckAccessListOp W V e acl u = Return (e1, code, err)"
  proof -
    have "returns (performCheckAccessListOp W V e acl u)" using Cons.prems by simp
    then show ?thesis using that by (cases "performCheckAccessListOp W V e acl u") auto
  qed
  have "mc_step W V acl (e, m\<lparr>mc_senders := u # us, mc_chan := ch\<rparr>)
      (e1, (m\<lparr>mc_senders := u # us, mc_chan := ch\<rparr>)\<lparr>mc_senders := [] @ us, mc_chan := ch @ [err]\<rparr>)"
    using mc_step.send [OF _ p, of "m\<lparr>mc_senders := u # us, mc_chan := ch\<rparr>" "[]" us] by simp
  then have s: "mc_step W V acl (e, m\<lparr>mc_senders := u # us, mc_chan := ch\<rparr>) (e1, m\<lparr>mc_senders := us, mc_chan := ch @ [err]\<rparr>)" by simp
  obtain e' xs where "length xs = length us"
    "(mc_step W V acl)\<^sup>*\<^sup>* (e1, m\<lparr>mc_senders := us, mc_chan := ch @ [err]\<rparr>) (e', m\<lparr>mc_senders := [], mc_chan := (ch @ [err]) @ xs\<rparr>)"
    using Cons.IH [of e1 "ch @ [err]"] Cons.prems by auto
  then have "length (err # xs) = length (u # us)"
    "(mc_step W V acl)\<^sup>*\<^sup>* (e, m\<lparr>mc_senders := u # us, mc_chan := ch\<rparr>) (e', m\<lparr>mc_senders := [], mc_chan := ch @ err # xs\<rparr>)"
    using converse_rtranclp_into_rtranclp [where r = "mc_step W V acl", OF s] by simp_all
  then show ?case by blast
qed

lemma mc_drain_all: "(mc_step W V acl)\<^sup>*\<^sup>* (e, m\<lparr>mc_senders := [], mc_chan := xs\<rparr>) (e, m\<lparr>mc_senders := [], mc_chan := []\<rparr>)"
proof (induction xs)
  case (Cons x xs)
  have "mc_step W V acl (e, m\<lparr>mc_senders := [], mc_chan := x # xs\<rparr>) (e, (m\<lparr>mc_senders := [], mc_chan := x # xs\<rparr>)\<lparr>mc_chan := xs\<rparr>)"
    by (rule mc_step.drain) simp_all
  then show ?case using Cons converse_rtranclp_into_rtranclp by fastforce
qed simp

text \<open>An accepted list, given what the checks before the strategy answered.\<close>

lemma preflight_ok:
  assumes "preflightChecksAndCleanupAccessList W V s e acl = Some (Return (e1, Inr r))"
    and "\<And>acl1. r = Some acl1 \<Longrightarrow> urls s \<noteq> [] \<Longrightarrow> \<exists>u\<in>set (urls s). accepts V acl1 u"
  shows "interop_ok V s acl"
  using preflight_proceeds [OF assms(1)] assms(2) by (cases r) (auto simp: interop_ok_def)

lemma first_accepted:
  assumes h: "first_ValidateAccessList W V s e acl = Some (Return (e', None))"
  shows "interop_ok V s acl"
proof -
  obtain pre where pre: "preflightChecksAndCleanupAccessList W V s e acl = Some pre"
    using h by (cases "preflightChecksAndCleanupAccessList W V s e acl") (auto simp: first_ValidateAccessList_def)
  obtain e1 r where p: "pre = Return (e1, r)" using h pre by (cases pre) (auto simp: first_ValidateAccessList_def)
  obtain x where x: "r = Inr x" using h p pre by (cases r) (auto simp: first_ValidateAccessList_def)
  show ?thesis
  proof (rule preflight_ok [OF pre [unfolded p x]])
    fix acl2 assume acl2: "x = Some acl2" "urls s \<noteq> []"
    then obtain e2 code where c: "performCheckAccessListOp W V e1 acl2 (hd (urls s)) = Return (e2, code, None)"
      using h p pre x by (cases "performCheckAccessListOp W V e1 acl2 (hd (urls s))") (auto simp: first_ValidateAccessList_def)
    show "\<exists>u\<in>set (urls s). accepts V acl2 u" using check_accepts [OF c] hd_in_set [OF acl2(2)] by blast
  qed
qed

lemma balanced_accepted:
  assumes us: "map hb_url (lb_backends b) = urls s" and h: "balanced_ValidateAccessList W V s e b acl = Some (Return (e', b', None))"
  shows "interop_ok V s acl"
proof -
  obtain pre where pre: "preflightChecksAndCleanupAccessList W V s e acl = Some pre"
    using h by (cases "preflightChecksAndCleanupAccessList W V s e acl") (auto simp: balanced_ValidateAccessList_def)
  obtain e1 r where p: "pre = Return (e1, r)" using h pre by (cases pre) (auto simp: balanced_ValidateAccessList_def)
  let ?in = "case r of Inl err \<Rightarrow> Return (e1, b, Some err) | Inr None \<Rightarrow> Return (e1, b, None)
      | Inr (Some acl1) \<Rightarrow> obind (GetBackend b) (\<lambda>i. lb_loop W V acl1 (lb_Size b) e1 b i)"
  have "obind ?in (\<lambda>(e2, b2, err). obind (NextBackend b2) (\<lambda>(b3, _). Return (e2, b3, err))) = Return (e', b', None)"
    using h p pre by (simp add: balanced_ValidateAccessList_def)
  then obtain e2 b2 where i: "?in = Return (e2, b2, None)" by (auto simp only: obind_eq_Return split: prod.splits) auto
  obtain x where x: "r = Inr x" using i by (cases r) auto
  show ?thesis
  proof (rule preflight_ok [OF pre [unfolded p x]])
    fix acl2 assume acl2: "x = Some acl2"
    obtain k where "GetBackend b = Return k" "lb_loop W V acl2 (lb_Size b) e1 b k = Return (e2, b2, None)"
      using i x acl2 by (auto simp: go_outcome)
    then show "\<exists>u\<in>set (urls s). accepts V acl2 u"
      using lb_loop_accepts [of W V acl2 "lb_Size b" e1 b k e2 b2] us by (auto simp: GetBackend_def split: if_splits)
  qed
qed

text \<open>The load balancer keeps its supervisors.\<close>

lemma lb_loop_urls:
  "lb_loop W V acl n e b i = Return (e', b', r) \<Longrightarrow> map hb_url (lb_backends b') = map hb_url (lb_backends b)"
proof (induction n arbitrary: e b i)
  case 0
  then show ?case by (cases "ParseInteropError W V e (OtherError (Errorf ''no healthy supervisor backends found''))") auto
next
  case (Suc n)
  let ?h = "lb_backends b ! i"
  show ?case
  proof (cases "hb_IsHealthy (w_now W e) ?h")
    case False
    then obtain b1 i1 where "NextBackend b = Return (b1, i1)" "lb_loop W V acl n e b1 i1 = Return (e', b', r)"
      using Suc.prems by (cases "NextBackend b") auto
    then show ?thesis using Suc.IH [of e b1 i1] NextBackend_cases by metis
  next
    case True
    then obtain e1 code err where v: "hb_Validate W V e ?h acl = Return (e1, code, err)"
      using Suc.prems by (cases "hb_Validate W V e ?h acl") auto
    let ?b = "b\<lparr>lb_backends := (lb_backends b)[i := MarkUnhealthy (w_now W e1) ?h]\<rparr>"
    have "b' = b \<or> (\<exists>b1 i1. NextBackend ?b = Return (b1, i1) \<and> lb_loop W V acl n e1 b1 i1 = Return (e', b', r))"
      using Suc.prems True v by (cases err; cases "NextBackend ?b") (auto split: if_splits)
    moreover have "map hb_url (lb_backends ?b) = map hb_url (lb_backends b)"
      by (cases "i < length (lb_backends b)") (simp_all add: map_update MarkUnhealthy_def list_update_same_conv list_update_beyond)
    ultimately show ?thesis using Suc.IH NextBackend_cases by metis
  qed
qed

lemma balanced_urls:
  assumes "balanced_ValidateAccessList W V s e b acl = Some (Return (e', b', r))"
  shows "map hb_url (lb_backends b') = map hb_url (lb_backends b)"
proof -
  obtain pre where pre: "preflightChecksAndCleanupAccessList W V s e acl = Some pre"
    using assms by (cases "preflightChecksAndCleanupAccessList W V s e acl") (auto simp: balanced_ValidateAccessList_def)
  obtain e1 x where p: "pre = Return (e1, x)" using assms pre by (cases pre) (auto simp: balanced_ValidateAccessList_def)
  let ?in = "case x of Inl err \<Rightarrow> Return (e1, b, Some err) | Inr None \<Rightarrow> Return (e1, b, None)
      | Inr (Some acl1) \<Rightarrow> obind (GetBackend b) (\<lambda>i. lb_loop W V acl1 (lb_Size b) e1 b i)"
  have "obind ?in (\<lambda>(e2, b2, err). obind (NextBackend b2) (\<lambda>(b3, _). Return (e2, b3, err))) = Return (e', b', r)"
    using assms p pre by (simp add: balanced_ValidateAccessList_def)
  then obtain e2 b2 i where i: "?in = Return (e2, b2, r)" "NextBackend b2 = Return (b', i)" by (auto simp only: obind_eq_Return split: prod.splits) auto
  have "map hb_url (lb_backends b2) = map hb_url (lb_backends b)"
    using i(1) lb_loop_urls by (auto simp: obind_eq_Return split: sum.splits option.splits)
  then show ?thesis using NextBackend_cases [OF i(2)] by simp
qed

lemma multicall_started:
  "multicall_ValidateAccessList W V s e acl = Some (Return (e', Inl None)) \<Longrightarrow> interop_ok V s acl"
  "multicall_ValidateAccessList W V s e acl = Some (Return (e', Inr (acl1, m0))) \<Longrightarrow>
     m0 = mc_start (urls s) \<and> ((\<exists>u\<in>set (urls s). accepts V acl1 u) \<longrightarrow> interop_ok V s acl)"
proof -
  let ?p = "preflightChecksAndCleanupAccessList W V s e acl"
  have m: "\<exists>e1 r. ?p = Some (Return (e1, r)) \<and> e' = e1 \<and> y = (case r of Inl err \<Rightarrow> Inl (Some err) | Inr None \<Rightarrow> Inl None
      | Inr (Some acl1) \<Rightarrow> Inr (acl1, mc_start (urls s)))" if "multicall_ValidateAccessList W V s e acl = Some (Return (e', y))" for y
    using that by (cases ?p) (auto simp: multicall_ValidateAccessList_def go_outcome)
  show "multicall_ValidateAccessList W V s e acl = Some (Return (e', Inl None)) \<Longrightarrow> interop_ok V s acl"
    using m [of "Inl None"] preflight_ok [of W V s e acl] by (fastforce split: sum.splits option.splits)
  show "multicall_ValidateAccessList W V s e acl = Some (Return (e', Inr (acl1, m0))) \<Longrightarrow>
     m0 = mc_start (urls s) \<and> ((\<exists>u\<in>set (urls s). accepts V acl1 u) \<longrightarrow> interop_ok V s acl)"
    using m [of "Inr (acl1, m0)"] preflight_ok [of W V s e acl] by (fastforce split: sum.splits option.splits)
qed

subsection \<open>Properties\<close>

text \<open>
  C27. Access lists are cleaned of duplicates. If the parser consumes what it parses, cleaning a list always ends: with the first error of the parser,
  or with the accesses of the list, each once and in their order, written again. Cleaning a cleaned list changes nothing.
\<close>

theorem dedup_access_list:
  assumes "access_parser V"
  shows "(\<exists>accs ds. parses V es accs \<and>
      validateAndDeduplicateInteropAccessList V es = Some (Inr (if es = [] then [] else EncodeAccessList V ds)) \<and>
      subseq ds accs \<and> distinct ds \<and> set ds = set accs \<and>
      validateAndDeduplicateInteropAccessList V (EncodeAccessList V ds) = Some (Inr (EncodeAccessList V ds))) \<or>
    (\<exists>err. parse_fails V es err \<and> validateAndDeduplicateInteropAccessList V es = Some (Inl err))"
proof -
  consider (ok) accs where "parses V es accs" "\<forall>a\<in>set accs. CHR ''/'' \<notin> set (acc_ChainID a)" | (fails) err where "parse_fails V es err"
    using access_parser.parse_total [OF assms] by blast
  then show ?thesis
  proof cases
    case ok
    let ?ds = "firsts [] accs"
    have "validateAndDeduplicateInteropAccessList V es = Some (Inr (if es = [] then [] else EncodeAccessList V ?ds))"
      using dedup_loop_parses [OF ok(1), of "[]" "[]"] by (simp add: validateAndDeduplicateInteropAccessList_def)
    moreover have "distinct ?ds" using firsts_keys [of "[]" accs] distinct_map by blast
    moreover have "set ?ds = set accs" by (rule firsts_set [OF ok(2)])
    moreover have "validateAndDeduplicateInteropAccessList V (EncodeAccessList V ?ds) = Some (Inr (EncodeAccessList V ?ds))"
      using access_parser.validate_encoded [OF assms] firsts_keys [of "[]" accs] ok(2) firsts_subset by blast
    ultimately show ?thesis using ok(1) firsts_subseq by blast
  next
    case fails
    then have "es \<noteq> []" by (cases rule: parse_fails.cases) auto
    then show ?thesis using dedup_loop_fails [OF fails, of "[]" "[]"] fails by (auto simp: validateAndDeduplicateInteropAccessList_def)
  qed
qed

definition access_1 :: "string list" where
  "access_1 = [''10'', ''7'', ''0'', ''5'', ''sum'']"

theorem dedup_access_list_witness:
  "validateAndDeduplicateInteropAccessList (ref_supervisor (\<lambda>_. None) :: unit supervisor) (access_1 @ access_1) = Some (Inr access_1) \<and>
   (\<exists>accs. parses (ref_supervisor (\<lambda>_. None) :: unit supervisor) (access_1 @ access_1) accs)"
proof -
  let ?V = "ref_supervisor (\<lambda>_. None) :: unit supervisor"
  have five: "ParseAccess ?V (access_1 @ es) = Inr (es, \<lparr>acc_ChainID = ''10'', acc_BlockNumber = 7, acc_LogIndex = 0, acc_Timestamp = 5, acc_Checksum = ''sum''\<rparr>)" for es
    by (simp add: ref_supervisor_def access_1_def)
  have e: "validateAndDeduplicateInteropAccessList ?V (access_1 @ access_1) = Some (Inr access_1)"
    using five [of access_1] five [of "[]"]
    by (simp add: validateAndDeduplicateInteropAccessList_def dedup_loop.simps)
      (simp add: access_1_def ref_supervisor_def encode_five_def fmt_nat.simps dec_digit_def)
  then show ?thesis using dedup_access_list [OF ref_access.access_parser_axioms [of "\<lambda>_. None"], of "access_1 @ access_1"] by auto
qed


lemma access_1_clean: "validateAndDeduplicateInteropAccessList (ref_supervisor answer) access_1 = Some (Inr access_1)"
proof -
  have "ParseAccess (ref_supervisor answer) access_1 = Inr ([], \<lparr>acc_ChainID = ''10'', acc_BlockNumber = 7, acc_LogIndex = 0, acc_Timestamp = 5, acc_Checksum = ''sum''\<rparr>)"
    by (simp add: ref_supervisor_def access_1_def)
  then show ?thesis
    by (simp add: validateAndDeduplicateInteropAccessList_def dedup_loop.simps)
      (simp add: access_1_def ref_supervisor_def encode_five_def fmt_nat.simps dec_digit_def dedup_loop.simps)
qed

definition idle :: script where
  "idle = \<lparr>sc_now = 0, sc_replies = [], sc_sem = []\<rparr>"

definition idle_world :: "script World" where
  "idle_world = script_world (\<lambda>_. None) (\<lambda>_. None)"


text \<open>
  C33. The multicall strategy can hang. For any supervisors that answer, even if all accept, there is a schedule of the goroutines after which no goroutine
  can go on and the caller has no answer: the goroutine that drains the channel took the results the caller waits for.
\<close>

theorem multicall_can_hang:
  assumes "us \<noteq> []" and "\<forall>e. \<forall>u\<in>set us. returns (performCheckAccessListOp W V e acl u)"
  shows "\<exists>e' m. (mc_step W V acl)\<^sup>*\<^sup>* (e, mc_start us) (e', m) \<and> mc_result m = None \<and> (\<forall>st. \<not> mc_step W V acl (e', m) st)"
proof -
  let ?m = "mc_start us"
  obtain e' xs where s: "(mc_step W V acl)\<^sup>*\<^sup>* (e, ?m\<lparr>mc_senders := us, mc_chan := []\<rparr>) (e', ?m\<lparr>mc_senders := [], mc_chan := [] @ xs\<rparr>)"
    using mc_send_all [OF assms(2)] by blast
  have "(mc_step W V acl)\<^sup>*\<^sup>* (e, ?m) (e', ?m\<lparr>mc_senders := [], mc_chan := []\<rparr>)"
    using s mc_drain_all [of W V acl e' xs ?m] by (simp add: mc_start_def)
  moreover have "\<not> mc_step W V acl (e', ?m\<lparr>mc_senders := [], mc_chan := []\<rparr>) st" for st
    using assms(1) by (auto simp: mc_step_simps mc_start_def)
  ultimately show ?thesis by (intro exI [of _ e'] exI [of _ "?m\<lparr>mc_senders := [], mc_chan := []\<rparr>"]) (simp add: mc_start_def)
qed

theorem multicall_can_hang_witness:
  "\<exists>e' m. (mc_step idle_world (ref_supervisor (\<lambda>_. None)) access_1)\<^sup>*\<^sup>* (idle, mc_start [''s'', ''t'']) (e', m) \<and> mc_result m = None \<and>
     (\<forall>st. \<not> mc_step idle_world (ref_supervisor (\<lambda>_. None)) access_1 (e', m) st)"
  by (rule multicall_can_hang) (simp_all add: performCheckAccessListOp_def ref_supervisor_def)

text \<open>
  The load balancer loses error codes. An error of a supervisor that is not one of the known interop errors keeps its code and status in
  the first-supervisor strategy; the load balancer parses the parsed error once more and answers with the internal error and status 500.
\<close>

theorem supervisor_error_code_lost:
  assumes order: "\<forall>e xs. set (snd (w_order W e xs)) \<subseteq> set xs"
    and check: "CheckAccessList V e (hb_url b) acl (getInteropExecutingDescriptorTimestamp (w_now W e)) = (e1, Some err)"
    and parsed: "interop_fallback V err = Return (er, txt)"
    and unknown: "\<forall>s\<in>fst ` set (interopRPCErrorMap V). \<not> sublist s txt \<and> \<not> sublist s (Message er)"
  shows "\<exists>e2 e3. performCheckAccessListOp W V e acl (hb_url b) = Return (e2, HTTPErrorCode er, Some er) \<and>
    hb_Validate W V e b acl = Return (e3, HTTPErrorCode er, Some (mkRPCErr JSONRPCErrorInternal (Message er) 500))"
proof -
  have none: "\<exists>e'. ParseInteropError W V e0 x = Return (e', fb)"
    if "interop_fallback V x = Return (fb, t)" "\<forall>s\<in>fst ` set (interopRPCErrorMap V). \<not> sublist s t" for e0 x fb t
  proof -
    obtain e' subs where o: "w_order W e0 (map fst (interopRPCErrorMap V)) = (e', subs)" by (metis surj_pair)
    then have "set subs \<subseteq> fst ` set (interopRPCErrorMap V)" using order by (metis set_map snd_conv)
    then have "List.find (\<lambda>s. sublist s t) subs = None" using that(2) by (auto simp: find_None_iff)
    then show ?thesis using that(1) o by (simp add: ParseInteropError_def)
  qed
  obtain e2 where p: "ParseInteropError W V e1 err = Return (e2, er)" using none [OF parsed] unknown by blast
  obtain e3 where "ParseInteropError W V e2 (OtherError (RpcE er)) = Return (e3, mkRPCErr JSONRPCErrorInternal (Message er) 500)"
    using none [of "OtherError (RpcE er)" "mkRPCErr JSONRPCErrorInternal (Message er) 500" "Message er"] unknown by (auto simp: interop_fallback_def)
  then show ?thesis using check p by (simp add: performCheckAccessListOp_def hb_Validate_def)
qed

theorem supervisor_error_code_lost_witness:
  "\<exists>e2 e3. performCheckAccessListOp idle_world (ref_supervisor (\<lambda>_. Some (HTTPError 403 ''denied''))) idle access_1 ''s'' =
      Return (e2, 403, Some ((ErrInvalidParams ''denied'')\<lparr>HTTPErrorCode := 403\<rparr>)) \<and>
    hb_Validate idle_world (ref_supervisor (\<lambda>_. Some (HTTPError 403 ''denied''))) idle (NewHealthAwareBackend ''s'' time_Second) access_1 =
      Return (e3, 403, Some (mkRPCErr JSONRPCErrorInternal ''denied'' 500))"
proof -
  let ?V = "ref_supervisor (\<lambda>_. Some (HTTPError 403 ''denied'')) :: script supervisor"
  have o: "\<forall>e xs. set (snd (w_order idle_world e xs)) \<subseteq> set xs" by (simp add: idle_world_def script_world_def)
  have c: "CheckAccessList ?V idle (hb_url (NewHealthAwareBackend ''s'' time_Second)) access_1 ts = (idle, Some (HTTPError 403 ''denied''))" for ts
    by (simp add: ref_supervisor_def)
  have f: "interop_fallback ?V (HTTPError 403 ''denied'') = Return ((ErrInvalidParams ''denied'')\<lparr>HTTPErrorCode := 403\<rparr>, ''denied'')"
    by (simp add: interop_fallback_def ref_supervisor_def)
  have "\<forall>s\<in>fst ` set (interopRPCErrorMap ?V). \<not> sublist s ''denied''"
    by (auto simp: interopRPCErrorMap_def ref_supervisor_def dest!: sublist_length_le)
  then show ?thesis
    using supervisor_error_code_lost [OF o c f] by (simp add: ErrInvalidParams_def mkRPCErr_def NewHealthAwareBackend_def)
qed

lemma ParseInteropError_other: "\<exists>e1 r. ParseInteropError W V e (OtherError x) = Return (e1, r)"
proof -
  obtain e1 subs where "w_order W e (map fst (interopRPCErrorMap V)) = (e1, subs)" by (metis surj_pair)
  then show ?thesis by (auto simp: ParseInteropError_def interop_fallback_def split: option.splits)
qed

lemma hb_Validate_returns:
  assumes "returns (performCheckAccessListOp W V e acl (hb_url b))"
  shows "\<exists>e1 code err. hb_Validate W V e b acl = Return (e1, code, err)"
proof -
  obtain e1 code err where p: "performCheckAccessListOp W V e acl (hb_url b) = Return (e1, code, err)"
    using assms by (cases "performCheckAccessListOp W V e acl (hb_url b)") auto
  show ?thesis
  proof (cases err)
    case None
    then show ?thesis using p by (simp add: hb_Validate_def)
  next
    case (Some er)
    then show ?thesis using p ParseInteropError_other [of W V e1 "RpcE er"] by (auto simp: hb_Validate_def)
  qed
qed

lemma NextBackend_returns:
  "lb_backends b \<noteq> [] \<Longrightarrow> \<exists>b1 i. NextBackend b = Return (b1, i) \<and> lb_backends b1 = lb_backends b \<and>
     i < length (lb_backends b) \<and> currentBackendIndex b1 = i"
  by (simp add: NextBackend_def Let_def)

lemma lb_loop_returns:
  assumes "\<forall>e u. returns (performCheckAccessListOp W V e acl u)" and "i < length (lb_backends b)"
  shows "\<exists>e' b' r. lb_loop W V acl n e b i = Return (e', b', r) \<and> map hb_url (lb_backends b') = map hb_url (lb_backends b)"
  using assms(2)
proof (induction n arbitrary: e b i)
  case 0
  obtain e1 r where "ParseInteropError W V e (OtherError (Errorf ''no healthy supervisor backends found'')) = Return (e1, r)"
    using ParseInteropError_other [of W V e "Errorf ''no healthy supervisor backends found''"] by blast
  then show ?case by simp
next
  case (Suc n)
  let ?h = "lb_backends b ! i"
  have ne: "lb_backends b \<noteq> []" using Suc.prems by auto
  show ?case
  proof (cases "hb_IsHealthy (w_now W e) ?h")
    case False
    obtain b1 i1 where "NextBackend b = Return (b1, i1)" "lb_backends b1 = lb_backends b" "i1 < length (lb_backends b1)"
      using NextBackend_returns [OF ne] by auto
    then show ?thesis using Suc.IH [of i1 b1 e] False by simp
  next
    case True
    obtain e1 code err where v: "hb_Validate W V e ?h acl = Return (e1, code, err)" using hb_Validate_returns [OF assms(1) [rule_format]] by blast
    let ?b = "b\<lparr>lb_backends := (lb_backends b)[i := MarkUnhealthy (w_now W e1) ?h]\<rparr>"
    obtain b1 i1 where nx: "NextBackend ?b = Return (b1, i1)" "lb_backends b1 = lb_backends ?b" "i1 < length (lb_backends b1)"
      using NextBackend_returns [of ?b] ne by auto
    have "map hb_url (lb_backends b1) = map hb_url (lb_backends b)"
      using nx(2) Suc.prems by (simp add: map_update MarkUnhealthy_def list_update_same_conv)
    then obtain e' b' r where "lb_loop W V acl n e1 b1 i1 = Return (e', b', r)" "map hb_url (lb_backends b') = map hb_url (lb_backends b)"
      using Suc.IH [OF nx(3), of e1] by auto
    then show ?thesis using nx(1) v True by (cases err; cases "500 \<le> code") simp_all
  qed
qed

lemma preflight_returns:
  assumes "access_parser V"
  shows "\<exists>e1 r. preflightChecksAndCleanupAccessList W V s e acl = Some (Return (e1, r))"
proof -
  obtain v where v: "validateAndDeduplicateInteropAccessList V acl = Some v" using access_parser.validate_total [OF assms] by blast
  show ?thesis
  proof (cases v)
    case (Inl err)
    obtain e1 r where "ParseInteropError W V e (OtherError (Wrapped ''failed to read data:'' (Some err))) = Return (e1, r)"
      using ParseInteropError_other by metis
    then show ?thesis using v Inl by (simp add: preflightChecksAndCleanupAccessList_def)
  next
    case (Inr acl1)
    then show ?thesis using v by (simp add: preflightChecksAndCleanupAccessList_def)
  qed
qed

text \<open>
  When the load balancer answers. If the checks of the supervisors return, a validation returns, keeps the supervisors, and moves on to one of
  them for the next validation; without supervisors it panics, even where that was configured to be skipped.
\<close>

theorem balanced_returns_iff_supervisors:
  assumes "access_parser V" and us: "map hb_url (lb_backends b) = urls s" and "urls s = [] \<or> currentBackendIndex b < length (urls s)"
    and "\<forall>e acl u. returns (performCheckAccessListOp W V e acl u)"
  shows "if urls s = [] then balanced_ValidateAccessList W V s e b acl = Some (Panic ''integer divide by zero'')
    else \<exists>e' b' r. balanced_ValidateAccessList W V s e b acl = Some (Return (e', b', r)) \<and>
      map hb_url (lb_backends b') = urls s \<and> currentBackendIndex b' < length (urls s)"
proof (cases "urls s = []")
  case True
  then show ?thesis using us
    by (simp add: balanced_ValidateAccessList_def preflightChecksAndCleanupAccessList_def NextBackend_def split: sum.splits option.splits)
next
  case False
  have len: "length (lb_backends b) = length (urls s)" using us by (metis length_map)
  obtain e1 r where pre: "preflightChecksAndCleanupAccessList W V s e acl = Some (Return (e1, r))"
    using preflight_returns [OF assms(1)] by blast
  let ?in = "case r of Inl err \<Rightarrow> Return (e1, b, Some err) | Inr None \<Rightarrow> Return (e1, b, None)
      | Inr (Some acl1) \<Rightarrow> obind (GetBackend b) (\<lambda>i. lb_loop W V acl1 (lb_Size b) e1 b i)"
  obtain e2 b2 err where i: "?in = Return (e2, b2, err)" "map hb_url (lb_backends b2) = urls s"
  proof (cases "\<exists>acl1. r = Inr (Some acl1)")
    case True
    then obtain acl1 where r: "r = Inr (Some acl1)" by blast
    have "currentBackendIndex b < length (lb_backends b)" using assms(3) False len by simp
    then show ?thesis using that r us lb_loop_returns [of W V acl1 "currentBackendIndex b" b "lb_Size b" e1] assms(4)
      by (auto simp: GetBackend_def)
  next
    case other: False
    have "\<exists>err. ?in = Return (e1, b, err)"
    proof (cases r)
      case (Inr x)
      then show ?thesis using other by (cases x) auto
    qed simp
    then show ?thesis using that us by blast
  qed
  have "lb_backends b2 \<noteq> []" "length (lb_backends b2) = length (urls s)" using i(2) False by (auto simp flip: i(2))
  then obtain b3 j where "NextBackend b2 = Return (b3, j)" "lb_backends b3 = lb_backends b2" "j < length (urls s)" "currentBackendIndex b3 = j"
    using NextBackend_returns [of b2] by auto
  then show ?thesis using False pre i by (auto simp: balanced_ValidateAccessList_def)
qed

theorem balanced_returns_iff_supervisors_witness:
  "balanced_ValidateAccessList idle_world (ref_supervisor (\<lambda>_. None)) (NewCommonInteropStrategy [] [WithSkipOnNoSupervisorBackend True]) idle
     (NewLoadBalancingBuffer [] time_Second) access_1 = Some (Panic ''integer divide by zero'')"
proof -
  have "\<forall>e acl u. returns (performCheckAccessListOp idle_world (ref_supervisor (\<lambda>_. None)) e acl u)"
    by (simp add: performCheckAccessListOp_def ref_supervisor_def)
  from balanced_returns_iff_supervisors [OF ref_access.access_parser_axioms _ _ this,
      where b = "NewLoadBalancingBuffer [] time_Second" and s = "NewCommonInteropStrategy [] [WithSkipOnNoSupervisorBackend True]" and e = idle and acl = access_1]
  show ?thesis by (simp add: NewLoadBalancingBuffer_def NewCommonInteropStrategy_def WithSkipOnNoSupervisorBackend_def)
qed

end
