(* ===== verification/Server.thy ===== *)
theory Server
  imports Backend_Group Cache Rate_Limiter Interop
begin

section \<open>The server\<close>

text \<open>
  Models \<^verbatim>\<open>src/server.go\<close>: the configuration and the construction of a server, the context of a request, the rate limits, the
  handling of transactions, the splitting of a batch into batches for the backends with the cache in front of them, the HTTP handler for
  RPC, and the check of Flashbots signatures. What changes while requests are served is the record \<open>srv\<close>. The text of requests
  is read by functions that are parameters, as are the transactions of go-ethereum, its cryptography and compiled regular expressions.
\<close>

subsection \<open>Runs\<close>

text \<open>A computation that may not return (\<open>None\<close>) or panic.\<close>

type_synonym 'a run = "'a outcome option"

definition rbind :: "'a run \<Rightarrow> ('a \<Rightarrow> 'b run) \<Rightarrow> 'b run" where
  "rbind m f = (case m of None \<Rightarrow> None | Some (Panic s) \<Rightarrow> Some (Panic s) | Some (Return x) \<Rightarrow> f x)"

abbreviation rreturn :: "'a \<Rightarrow> 'a run" where
  "rreturn x \<equiv> Some (Return x)"

lemma rbind_simps [simp]:
  "rbind None f = None" "rbind (Some (Panic s)) f = Some (Panic s)" "rbind (rreturn x) f = f x"
  by (simp_all add: rbind_def)

lemma rbind_eq_return: "rbind m f = rreturn y \<longleftrightarrow> (\<exists>x. m = rreturn x \<and> f x = rreturn y)"
  by (auto simp: rbind_def split: option.splits outcome.splits)

subsection \<open>Parameters and state\<close>

text \<open>
  Transactions: the decoding of the hexadecimal text and of the bytes, and what is read from a transaction. \<open>tx_Sender\<close> is told
  whether to use the homestead signer and gives the address as text.
\<close>

record 'tx txlib =
  Bytes_UnmarshalText :: "string \<Rightarrow> err + string"
  tx_UnmarshalBinary :: "string \<Rightarrow> err + 'tx"
  tx_ChainId :: "'tx \<Rightarrow> int"
  tx_Sender :: "bool \<Rightarrow> 'tx \<Rightarrow> err + string"
  tx_Nonce :: "'tx \<Rightarrow> nat"
  TxToInteropAccessList :: "'tx \<Rightarrow> string list"
  tx_MarshalJSON :: "'tx \<Rightarrow> err + string"
  ErrInvalidSender :: err

text \<open>How the text of a request, of a batch and of a single element is read.\<close>

record req_text =
  json_RPCReq :: "string \<Rightarrow> RPCReq option"
  json_RawMessages :: "string \<Rightarrow> string list option"

definition ParseRPCReq :: "req_text \<Rightarrow> string \<Rightarrow> err + RPCReq" where
  "ParseRPCReq P body = (case json_RPCReq P body of None \<Rightarrow> Inl (RpcE ErrParseErr) | Some req \<Rightarrow> Inr req)"

definition ParseBatchRPCReq :: "req_text \<Rightarrow> string \<Rightarrow> err + string list" where
  "ParseBatchRPCReq P body = (case json_RawMessages P body of None \<Rightarrow> Inl (Errorf ''invalid batch'') | Some reqs \<Rightarrow> Inr reqs)"

record ('e, 'm, 'c, 'l, 'i) srv =
  sv_env :: 'e
  sv_backends :: "string \<Rightarrow> 'm Backend"
  sv_cache :: 'c
  sv_lims :: 'l
  sv_interop :: 'i

text \<open>
  The configuration. All rate limiters work on one state, in which each has its own part; the backend groups come with their pollers.
\<close>

record ('e, 't, 'c, 'l, 'i) Server =
  BackendGroups :: "string \<rightharpoonup> (BackendGroup \<times> ('e, 't) ConsensusPoller option)"
  rpcMethodMappings :: "string \<rightharpoonup> string"
  maxBodySize :: int
  authenticatedPaths :: "string \<rightharpoonup> string"
  timeout :: Duration
  maxUpstreamBatchSize :: int
  maxBatchSize :: int
  enableServedByHeader :: bool
  mainLim :: "'l limiter_take"
  highPrioSigners :: "string list"
  overrideLims :: "string \<rightharpoonup> 'l limiter_take"
  highPrioOverrideLims :: "string \<rightharpoonup> 'l limiter_take"
  senderLim :: "'l limiter_take option"
  interopSenderLim :: "'l limiter_take option"
  allowedChainIds :: "int list"
  limExemptOrigins :: "(string \<Rightarrow> bool) list"
  limExemptUserAgents :: "(string \<Rightarrow> bool) list"
  globallyLimitedMethods :: "string list"
  srv_cache :: "'c RPCCache"
  rateLimitHeader :: string
  interopReqSizeLimit :: int
  interopStrategy :: "Ctx \<Rightarrow> string list \<Rightarrow> 'e \<Rightarrow> 'i \<Rightarrow> ('e \<times> 'i \<times> err option) run"
  allowedDynamicHeaders :: "string list"

subsection \<open>Construction\<close>

definition defaultBodySizeLimit :: int where
  "defaultBodySizeLimit = 256 * 1024"

definition defaultRPCTimeout :: Duration where
  "defaultRPCTimeout = 10 * time_Second"

definition defaultMaxUpstreamBatchSize :: int where
  "defaultMaxUpstreamBatchSize = 10"

definition DefaultMaxBatchRPCCallsLimit :: int where
  "DefaultMaxBatchRPCCallsLimit = 100"

definition MaxBatchRPCCallsHardLimit :: int where
  "MaxBatchRPCCallsHardLimit = 1000"

definition defaultRateLimitHeader :: string where
  "defaultRateLimitHeader = ''X-Forwarded-For''"

record RateLimitMethodOverride =
  ov_Limit :: int
  ov_Interval :: Duration
  ov_Global :: bool

record RateLimitConfig =
  UseRedis :: bool
  BaseRate :: int
  BaseInterval :: Duration
  ExemptOrigins :: "string list"
  ExemptUserAgents :: "string list"
  rl_ErrorMessage :: string
  MethodOverrides :: "(string \<times> RateLimitMethodOverride) list"
  IPHeaderOverride :: string

record SenderRateLimitConfig =
  Enabled :: bool
  sl_Interval :: Duration
  sl_Limit :: int
  AllowedChainIds :: "int list"

text \<open>
  Every call of the factory makes a new limiter; the slot says which of the limiters of the server it is, and so which part of their state is its own.
\<close>

datatype limiter_slot = MainLim | OverrideLim string | HighPrioLim string | SenderLim | InteropSenderLim

type_synonym 'l limiterFactoryFunc = "limiter_slot \<Rightarrow> Duration \<Rightarrow> int \<Rightarrow> string \<Rightarrow> 'l limiter_take"

text \<open>\<open>regexp.Compile\<close> gives the matcher of a pattern or an error.\<close>

fun compile_all :: "(string \<Rightarrow> err + (string \<Rightarrow> bool)) \<Rightarrow> string list \<Rightarrow> err + (string \<Rightarrow> bool) list" where
  "compile_all compile [] = Inr []"
| "compile_all compile (p # ps) =
     (case compile p of
        Inl err \<Rightarrow> Inl err
      | Inr m \<Rightarrow> (case compile_all compile ps of Inl err \<Rightarrow> Inl err | Inr ms \<Rightarrow> Inr (m # ms)))"

definition override_limiters ::
  "'l limiterFactoryFunc \<Rightarrow> (string \<Rightarrow> limiter_slot) \<Rightarrow> (string \<times> RateLimitMethodOverride) list \<Rightarrow> string \<rightharpoonup> 'l limiter_take" where
  "override_limiters factory slot ovs method =
     (case map_of ovs method of None \<Rightarrow> None | Some ov \<Rightarrow> Some (factory (slot method) (ov_Interval ov) (ov_Limit ov) method))"

definition sender_limiter ::
  "'l limiterFactoryFunc \<Rightarrow> limiter_slot \<Rightarrow> SenderRateLimitConfig \<Rightarrow> string \<Rightarrow> 'l limiter_take option" where
  "sender_limiter factory slot cfg name = (if Enabled cfg then Some (factory slot (sl_Interval cfg) (sl_Limit cfg) name) else None)"

definition or_default :: "int \<Rightarrow> int \<Rightarrow> int" where
  "or_default d n = (if n = 0 then d else n)"

definition NewServer ::
  "(string \<Rightarrow> err + (string \<Rightarrow> bool)) \<Rightarrow> (string \<rightharpoonup> (BackendGroup \<times> ('e, 't) ConsensusPoller option)) \<Rightarrow> (string \<rightharpoonup> string) \<Rightarrow> int
    \<Rightarrow> (string \<rightharpoonup> string) \<Rightarrow> Duration \<Rightarrow> int \<Rightarrow> bool \<Rightarrow> 'c RPCCache option \<Rightarrow> RateLimitConfig \<Rightarrow> RateLimitConfig \<Rightarrow> string list
    \<Rightarrow> SenderRateLimitConfig \<Rightarrow> SenderRateLimitConfig \<Rightarrow> int \<Rightarrow> 'l limiterFactoryFunc \<Rightarrow> int
    \<Rightarrow> (Ctx \<Rightarrow> string list \<Rightarrow> 'e \<Rightarrow> 'i \<Rightarrow> ('e \<times> 'i \<times> err option) run) \<Rightarrow> string list \<Rightarrow> err + ('e, 't, 'c, 'l, 'i) Server" where
  "NewServer compile backendGroups methodMappings bodySize authPaths tmo upstreamBatchSize servedByHeader cache rateLimitConfig
     highPrioRateLimitConfig highPrioSigners' senderRateLimitConfig interopSenderRateLimitConfig batchSize limiterFactory
     interopReqSize strategy dynamicHeaders =
     (case (if BaseRate rateLimitConfig > 0 then
              (case compile_all compile (ExemptOrigins rateLimitConfig) of
                 Inl err \<Rightarrow> Inl err
               | Inr origins \<Rightarrow>
                   (case compile_all compile (ExemptUserAgents rateLimitConfig) of
                      Inl err \<Rightarrow> Inl err
                    | Inr agents \<Rightarrow>
                        Inr (limiterFactory MainLim (BaseInterval rateLimitConfig) (BaseRate rateLimitConfig) ''main'', origins, agents)))
            else Inr (Noop_Take, [], [])) of
        Inl err \<Rightarrow> Inl err
      | Inr (limiter, origins, agents) \<Rightarrow>
          Inr \<lparr>BackendGroups = backendGroups, rpcMethodMappings = methodMappings,
            maxBodySize = or_default defaultBodySizeLimit bodySize, authenticatedPaths = authPaths,
            timeout = or_default defaultRPCTimeout tmo,
            maxUpstreamBatchSize = or_default defaultMaxUpstreamBatchSize upstreamBatchSize,
            maxBatchSize = min MaxBatchRPCCallsHardLimit (or_default DefaultMaxBatchRPCCallsLimit batchSize),
            enableServedByHeader = servedByHeader, mainLim = limiter, highPrioSigners = highPrioSigners',
            overrideLims = override_limiters limiterFactory OverrideLim (MethodOverrides rateLimitConfig),
            highPrioOverrideLims = override_limiters limiterFactory HighPrioLim (MethodOverrides highPrioRateLimitConfig),
            senderLim = sender_limiter limiterFactory SenderLim senderRateLimitConfig ''senders'',
            interopSenderLim = sender_limiter limiterFactory InteropSenderLim interopSenderRateLimitConfig ''interop_senders'',
            allowedChainIds = AllowedChainIds senderRateLimitConfig, limExemptOrigins = origins, limExemptUserAgents = agents,
            globallyLimitedMethods =
              map fst (filter (\<lambda>(m, ov). ov_Global ov) (MethodOverrides rateLimitConfig @ MethodOverrides highPrioRateLimitConfig)),
            srv_cache = (case cache of None \<Rightarrow> NoopRPCCache | Some c \<Rightarrow> c),
            rateLimitHeader = (if IPHeaderOverride rateLimitConfig \<noteq> [] then IPHeaderOverride rateLimitConfig else defaultRateLimitHeader),
            interopReqSizeLimit = interopReqSize, interopStrategy = strategy, allowedDynamicHeaders = dynamicHeaders\<rparr>)"

subsection \<open>The context of a request\<close>

text \<open>
  An HTTP request: its headers under their canonical names, the address of the peer, the URL, the variables that the router matched in the path, and the
  body. The route of the RPC server matches the whole path as \<open>path\<close>; the routes of the websocket server match \<open>authorization\<close>.
\<close>

record http_in =
  in_header :: http_header
  RemoteAddr :: string
  in_path :: string
  in_query :: string
  in_vars :: "string \<rightharpoonup> string"
  in_body :: http_response

definition rpc_route :: "string \<Rightarrow> string \<rightharpoonup> string" where
  "rpc_route path = [''path'' \<mapsto> drop 1 path]"

definition header_Get :: "http_header \<Rightarrow> string \<Rightarrow> string" where
  "header_Get h k = (case header_values h (CanonicalHeaderKey k) of [] \<Rightarrow> [] | v # _ \<Rightarrow> v)"

definition header_Values :: "http_header \<Rightarrow> string \<Rightarrow> string list" where
  "header_Values h k = header_values h (CanonicalHeaderKey k)"

definition remote_xff :: "('e, 't, 'c, 'l, 'i) Server \<Rightarrow> http_in \<Rightarrow> string" where
  "remote_xff s r =
     (let xff = header_Get (in_header r) (rateLimitHeader s)
      in if xff = [] then (let ipPort = split_on CHR '':'' (RemoteAddr r) in if length ipPort = 2 then hd ipPort else [])
         else xff)"

definition filtered_headers :: "('e, 't, 'c, 'l, 'i) Server \<Rightarrow> http_in \<Rightarrow> http_header" where
  "filtered_headers s r =
     fold (\<lambda>h acc. let vs = header_Values (in_header r) h in if vs \<noteq> [] then AList.update h vs acc else acc)
       (allowedDynamicHeaders s) []"

text \<open>The context, or nothing after the answer 401; \<open>reqID\<close> is the random string.\<close>

definition populateContext :: "('e, 't, 'c, 'l, 'i) Server \<Rightarrow> string \<Rightarrow> http_in \<Rightarrow> Ctx option" where
  "populateContext s reqID r =
     (let authorization = (case in_vars r ''authorization'' of None \<Rightarrow> [] | Some a \<Rightarrow> a);
          alias = (case authenticatedPaths s authorization of None \<Rightarrow> [] | Some a \<Rightarrow> a);
          opTxProxyAuth = header_Get (in_header r) DefaultOpTxProxyAuthHeader;
          filtered = filtered_headers s r
      in if authenticatedPaths s \<noteq> Map.empty \<and> (authorization = [] \<or> alias = []) then None
         else Some \<lparr>ctx_Auth = (if authenticatedPaths s \<noteq> Map.empty then Some alias else None), ctx_ReqID = Some reqID,
           ctx_XForwardedFor = Some (remote_xff s r),
           ctx_OpTxProxyAuth = (if opTxProxyAuth \<noteq> [] then Some opTxProxyAuth else None),
           ctx_HeadersToForward = (if filtered \<noteq> [] then Some filtered else None),
           ctx_Path = Some (in_path r), ctx_RawQuery = Some (in_query r)\<rparr>)"

subsection \<open>Rate limits\<close>

definition isUnlimitedOrigin :: "('e, 't, 'c, 'l, 'i) Server \<Rightarrow> string \<Rightarrow> bool" where
  "isUnlimitedOrigin s origin = list_ex (\<lambda>pat. pat origin) (limExemptOrigins s)"

definition isUnlimitedUserAgent :: "('e, 't, 'c, 'l, 'i) Server \<Rightarrow> string \<Rightarrow> bool" where
  "isUnlimitedUserAgent s agent = list_ex (\<lambda>pat. pat agent) (limExemptUserAgents s)"

definition isGlobalLimit :: "('e, 't, 'c, 'l, 'i) Server \<Rightarrow> string \<Rightarrow> bool" where
  "isGlobalLimit s method \<longleftrightarrow> method \<in> set (globallyLimitedMethods s)"

text \<open>Taking from a limiter changes its state; the closure of \<open>HandleRPC\<close> knows the exemptions, the signer and the address of the client.\<close>

definition take_limit ::
  "'e World \<Rightarrow> 'l limiter_take \<Rightarrow> string \<Rightarrow> ('e, 'm, 'c, 'l, 'i) srv \<Rightarrow> ('e, 'm, 'c, 'l, 'i) srv \<times> bool \<times> err option" where
  "take_limit W limiter key st =
     (case limiter (w_now W (sv_env st)) (sv_lims st) key of (l, r) \<Rightarrow> (st\<lparr>sv_lims := l\<rparr>, r))"

definition isLimited ::
  "'e World \<Rightarrow> ('e, 't, 'c, 'l, 'i) Server \<Rightarrow> bool \<Rightarrow> string \<Rightarrow> string \<Rightarrow> string \<Rightarrow> ('e, 'm, 'c, 'l, 'i) srv
    \<Rightarrow> ('e, 'm, 'c, 'l, 'i) srv \<times> bool" where
  "isLimited W s isUnlimited signer xff method st =
     (if \<not> isGlobalLimit s method \<and> isUnlimited then (st, False)
      else case (if method = [] then Some (mainLim s)
                 else if signer \<in> set (highPrioSigners s) then highPrioOverrideLims s method
                 else overrideLims s method) of
        None \<Rightarrow> (st, False)
      | Some limiter \<Rightarrow>
          (case take_limit W limiter xff st of
             (st', ok, Some err) \<Rightarrow> (st', True)
           | (st', ok, None) \<Rightarrow> (st', \<not> ok)))"

definition isAllowedChainId :: "('e, 't, 'c, 'l, 'i) Server \<Rightarrow> int \<Rightarrow> bool" where
  "isAllowedChainId s chainId \<longleftrightarrow> allowedChainIds s = [] \<or> chainId \<in> set (allowedChainIds s)"

definition genericRateLimitSender ::
  "'e World \<Rightarrow> 'tx txlib \<Rightarrow> ('e, 't, 'c, 'l, 'i) Server \<Rightarrow> 'tx \<Rightarrow> 'l limiter_take \<Rightarrow> ('e, 'm, 'c, 'l, 'i) srv
    \<Rightarrow> ('e, 'm, 'c, 'l, 'i) srv \<times> err option" where
  "genericRateLimitSender W B s tx limiter st =
     (if \<not> isAllowedChainId s (tx_ChainId B tx) then (st, Some (ErrInvalidSender B))
      else case tx_Sender B (tx_ChainId B tx = 0) tx of
        Inl err \<Rightarrow> (st, Some (RpcE (ErrInvalidParams (err_text err))))
      | Inr from \<Rightarrow>
          (case take_limit W limiter (from @ '':'' @ fmt_nat (tx_Nonce B tx)) st of
             (st', ok, Some err) \<Rightarrow> (st', Some (RpcE ErrInternal))
           | (st', ok, None) \<Rightarrow> (st', if ok then None else Some (RpcE ErrOverSenderRateLimit))))"

definition rateLimitSender ::
  "'e World \<Rightarrow> 'tx txlib \<Rightarrow> ('e, 't, 'c, 'l, 'i) Server \<Rightarrow> 'tx \<Rightarrow> ('e, 'm, 'c, 'l, 'i) srv \<Rightarrow> ('e, 'm, 'c, 'l, 'i) srv \<times> err option" where
  "rateLimitSender W B s tx st = (case senderLim s of None \<Rightarrow> (st, None) | Some limiter \<Rightarrow> genericRateLimitSender W B s tx limiter st)"

definition rateLimitInteropSender ::
  "'e World \<Rightarrow> 'tx txlib \<Rightarrow> ('e, 't, 'c, 'l, 'i) Server \<Rightarrow> 'tx \<Rightarrow> ('e, 'm, 'c, 'l, 'i) srv \<Rightarrow> ('e, 'm, 'c, 'l, 'i) srv \<times> err option" where
  "rateLimitInteropSender W B s tx st =
     (case interopSenderLim s of None \<Rightarrow> (st, None) | Some limiter \<Rightarrow> genericRateLimitSender W B s tx limiter st)"

subsection \<open>Transactions\<close>

definition convertSendReqToSendTx :: "'tx txlib \<Rightarrow> RPCReq \<Rightarrow> err + 'tx" where
  "convertSendReqToSendTx B req =
     (case unmarshal_slice (Params req) of
        None \<Rightarrow> Inl (RpcE ErrParseErr)
      | Some params \<Rightarrow>
          if Method req = ''eth_sendRawTransaction'' \<and> length params \<noteq> 1
          then Inl (RpcE (ErrInvalidParams ''missing value for required argument 0''))
          else if Method req = ''eth_sendRawTransactionConditional'' \<and> length params \<noteq> 2
          then Inl (RpcE (ErrInvalidParams ''missing value for required argument 0 or 1''))
          else case params ! 0 of
            JStr address \<Rightarrow>
              (case Bytes_UnmarshalText B address of
                 Inl err \<Rightarrow> Inl (RpcE (ErrInvalidParams (err_text err)))
               | Inr data \<Rightarrow>
                   (case tx_UnmarshalBinary B data of
                      Inl err \<Rightarrow> Inl (RpcE (ErrInvalidParams (err_text err)))
                    | Inr tx \<Rightarrow> Inr tx))
          | _ \<Rightarrow> Inl (RpcE ErrParseErr))"

definition reqSizeLimitCheck :: "'tx txlib \<Rightarrow> 'tx \<Rightarrow> int \<Rightarrow> err option" where
  "reqSizeLimitCheck B tx maxSize =
     (if maxSize \<le> 0 then None
      else case tx_MarshalJSON B tx of
        Inl err \<Rightarrow> Some (RpcE ErrInternal)
      | Inr reqBytes \<Rightarrow> if int (length reqBytes) > maxSize then Some (RpcE ErrRequestBodyTooLarge) else None)"

definition validateInteropSendRpcRequest ::
  "'e World \<Rightarrow> 'tx txlib \<Rightarrow> ('e, 't, 'c, 'l, 'i) Server \<Rightarrow> Ctx \<Rightarrow> 'tx \<Rightarrow> ('e, 'm, 'c, 'l, 'i) srv
    \<Rightarrow> (('e, 'm, 'c, 'l, 'i) srv \<times> err option) run" where
  "validateInteropSendRpcRequest W B s ctx tx st =
     (let interopAccessList = TxToInteropAccessList B tx
      in if interopAccessList = [] then rreturn (st, None)
         else case rateLimitInteropSender W B s tx st of
           (st1, Some err) \<Rightarrow> rreturn (st1, Some err)
         | (st1, None) \<Rightarrow>
             (case reqSizeLimitCheck B tx (interopReqSizeLimit s) of
                Some err \<Rightarrow> rreturn (st1, Some err)
              | None \<Rightarrow>
                  rbind (interopStrategy s ctx interopAccessList (sv_env st1) (sv_interop st1)) (\<lambda>(e, i, err).
                    rreturn (st1\<lparr>sv_env := e, sv_interop := i\<rparr>, err))))"

definition check_transaction ::
  "'e World \<Rightarrow> 'tx txlib \<Rightarrow> ('e, 't, 'c, 'l, 'i) Server \<Rightarrow> Ctx \<Rightarrow> RPCReq \<Rightarrow> ('e, 'm, 'c, 'l, 'i) srv
    \<Rightarrow> (('e, 'm, 'c, 'l, 'i) srv \<times> err option) run" where
  "check_transaction W B s ctx req st =
     (if Method req = ''eth_sendRawTransaction'' \<or> Method req = ''eth_sendRawTransactionConditional'' then
        (case convertSendReqToSendTx B req of
           Inl err \<Rightarrow> rreturn (st, Some err)
         | Inr tx \<Rightarrow>
             (case rateLimitSender W B s tx st of
                (st1, Some err) \<Rightarrow> rreturn (st1, Some err)
              | (st1, None) \<Rightarrow> validateInteropSendRpcRequest W B s ctx tx st1))
      else rreturn (st, None))"

subsection \<open>Batches\<close>

record batchElem =
  be_Req :: RPCReq
  be_Index :: nat

definition createBatchRequest :: "batchElem list \<Rightarrow> RPCReq list" where
  "createBatchRequest elems = map be_Req elems"

type_synonym batchGroup = "nat \<times> string"

definition proxydHealthzMethod :: string where
  "proxydHealthzMethod = ''proxyd_healthz''"

text \<open>What becomes of one request: an answer at once, the answer to a health check, or its backend group.\<close>

datatype decision = Respond RPCRes | Health RPCRes | Admit RPCReq string

definition admit ::
  "'e World \<Rightarrow> req_text \<Rightarrow> 'tx txlib \<Rightarrow> ('e, 't, 'c, 'l, 'i) Server \<Rightarrow> Ctx
    \<Rightarrow> (string \<Rightarrow> ('e, 'm, 'c, 'l, 'i) srv \<Rightarrow> ('e, 'm, 'c, 'l, 'i) srv \<times> bool) \<Rightarrow> nat \<Rightarrow> string \<Rightarrow> ('e, 'm, 'c, 'l, 'i) srv
    \<Rightarrow> (('e, 'm, 'c, 'l, 'i) srv \<times> decision) run" where
  "admit W P B s ctx limited n raw st =
     (case ParseRPCReq P raw of
        Inl err \<Rightarrow> rreturn (st, Respond (NewRPCErrorRes [] err))
      | Inr req \<Rightarrow>
          if n = 1 \<and> Method req = proxydHealthzMethod then rreturn (st, Health (NewRPCRes (ID req) (Val (JStr ''OK''))))
          else case ValidateRPCReq req of
            Some err \<Rightarrow> rreturn (st, Respond (NewRPCErrorRes [] (RpcE err)))
          | None \<Rightarrow>
              if Method req = ''eth_accounts'' then rreturn (st, Respond (NewRPCRes (ID req) (Raw ''[]'')))
              else let grp = (case rpcMethodMappings s (Method req) of None \<Rightarrow> [] | Some g \<Rightarrow> g)
                in if grp = [] then rreturn (st, Respond (NewRPCErrorRes (ID req) (RpcE ErrMethodNotWhitelisted)))
                   else case limited [] st of
                     (st1, True) \<Rightarrow> rreturn (st1, Respond (NewRPCErrorRes (ID req) (RpcE ErrOverRateLimit)))
                   | (st1, False) \<Rightarrow>
                       (case (if overrideLims s (Method req) \<noteq> None then limited (Method req) st1 else (st1, False)) of
                          (st2, True) \<Rightarrow> rreturn (st2, Respond (NewRPCErrorRes (ID req) (RpcE ErrOverRateLimit)))
                        | (st2, False) \<Rightarrow>
                            rbind (check_transaction W B s ctx req st2) (\<lambda>(st3, err).
                              rreturn (st3, case err of Some er \<Rightarrow> Respond (NewRPCErrorRes (ID req) er) | None \<Rightarrow> Admit req grp))))"

text \<open>
  The loop over the requests: the responses so far, the batches so far, and how often each id was seen. A request whose id was seen \<open>k\<close> times
  before goes into the batch number \<open>k + 1\<close> of its backend group.
\<close>

definition add_elem :: "batchGroup \<Rightarrow> batchElem \<Rightarrow> (batchGroup \<times> batchElem list) list \<Rightarrow> (batchGroup \<times> batchElem list) list" where
  "add_elem k el batches = AList.update k ((case map_of batches k of None \<Rightarrow> [] | Some els \<Rightarrow> els) @ [el]) batches"

fun admit_all ::
  "'e World \<Rightarrow> req_text \<Rightarrow> 'tx txlib \<Rightarrow> ('e, 't, 'c, 'l, 'i) Server \<Rightarrow> Ctx
    \<Rightarrow> (string \<Rightarrow> ('e, 'm, 'c, 'l, 'i) srv \<Rightarrow> ('e, 'm, 'c, 'l, 'i) srv \<times> bool) \<Rightarrow> nat \<Rightarrow> nat \<Rightarrow> string list
    \<Rightarrow> (string \<Rightarrow> nat) \<Rightarrow> RPCRes option list \<Rightarrow> (batchGroup \<times> batchElem list) list \<Rightarrow> ('e, 'm, 'c, 'l, 'i) srv
    \<Rightarrow> (('e, 'm, 'c, 'l, 'i) srv \<times> (RPCRes + RPCRes option list \<times> (batchGroup \<times> batchElem list) list)) run" where
  "admit_all W P B s ctx limited n i [] ids responses batches st = rreturn (st, Inr (responses, batches))"
| "admit_all W P B s ctx limited n i (raw # raws) ids responses batches st =
     rbind (admit W P B s ctx limited n raw st) (\<lambda>(st1, d).
       case d of
         Health res \<Rightarrow> rreturn (st1, Inl res)
       | Respond res \<Rightarrow> admit_all W P B s ctx limited n (Suc i) raws ids (responses[i := Some res]) batches st1
       | Admit req grp \<Rightarrow>
           let k = ids (ID req) + 1
           in admit_all W P B s ctx limited n (Suc i) raws (ids(ID req := k)) responses
                (add_elem (k, grp) \<lparr>be_Req = req, be_Index = i\<rparr> batches) st1)"

text \<open>The cache in front of a batch: the responses found, and the requests that were not.\<close>

fun cache_lookups ::
  "'e World \<Rightarrow> ('e, 't, 'c, 'l, 'i) Server \<Rightarrow> Ctx \<Rightarrow> batchElem list \<Rightarrow> ('e, 'm, 'c, 'l, 'i) srv \<Rightarrow> RPCRes option list \<Rightarrow> bool
    \<Rightarrow> ('e, 'm, 'c, 'l, 'i) srv \<times> RPCRes option list \<times> bool \<times> batchElem list" where
  "cache_lookups W s ctx [] st responses cached = (st, responses, cached, [])"
| "cache_lookups W s ctx (el # els) st responses cached =
     (case rpc_Get (srv_cache s) (w_now W (sv_env st)) ctx (be_Req el) (sv_cache st) of (c, r) \<Rightarrow>
        (case r of
           Inr (Some res) \<Rightarrow>
             cache_lookups W s ctx els (st\<lparr>sv_cache := c\<rparr>) (responses[be_Index el := Some res]) True
         | _ \<Rightarrow>
             (case cache_lookups W s ctx els (st\<lparr>sv_cache := c\<rparr>) responses cached of
                (st1, responses1, cached1, misses) \<Rightarrow> (st1, responses1, cached1, el # misses))))"

text \<open>The batches for the backends. Go computes their number with floating point numbers, exactly for these sizes.\<close>

definition minibatches :: "int \<Rightarrow> 'a list \<Rightarrow> 'a list list" where
  "minibatches mx xs =
     (let n = \<lceil>of_nat (length xs) / of_int mx :: rat\<rceil>
      in map (\<lambda>i. let start = int i * mx; stop = min (start + mx) (int (length xs))
                  in take (nat (stop - start)) (drop (nat start) xs)) [0..<nat n])"

text \<open>The responses of one batch go to their places and, if they are results, into the cache.\<close>

fun store_results ::
  "'e World \<Rightarrow> ('e, 't, 'c, 'l, 'i) Server \<Rightarrow> Ctx \<Rightarrow> batchElem list \<Rightarrow> RPCReq list \<Rightarrow> RPCRes list \<Rightarrow> ('e, 'm, 'c, 'l, 'i) srv
    \<Rightarrow> RPCRes option list \<Rightarrow> (('e, 'm, 'c, 'l, 'i) srv \<times> RPCRes option list) run" where
  "store_results W s ctx [] reqs res st responses = rreturn (st, responses)"
| "store_results W s ctx (el # els) reqs res st responses =
     (case res of
        [] \<Rightarrow> Some (Panic ''index out of range'')
      | r # rs \<Rightarrow>
          let st1 = (if Error r = None \<and> Result r \<noteq> NilVal
                     then st\<lparr>sv_cache := fst (rpc_Put (srv_cache s) (w_now W (sv_env st)) ctx (hd reqs) r (sv_cache st))\<rparr> else st)
          in store_results W s ctx els (tl reqs) rs st1 (responses[be_Index el := Some r]))"

definition receipts_error :: "err \<Rightarrow> bool" where
  "receipts_error err \<longleftrightarrow> err_is err ErrConsensusGetReceiptsCantBeBatched \<or> err_is err ErrConsensusGetReceiptsInvalidTarget"

fun forward_batches ::
  "'e World \<Rightarrow> 'e Shuffler \<Rightarrow> 'm lhm \<Rightarrow> geth \<Rightarrow> 't ConsensusTracker \<Rightarrow> ('e, 't, 'c, 'l, 'i) Server \<Rightarrow> Ctx \<Rightarrow> ('e \<Rightarrow> bool) \<Rightarrow> bool \<Rightarrow> string
    \<Rightarrow> batchElem list list \<Rightarrow> ('e, 'm, 'c, 'l, 'i) srv \<Rightarrow> RPCRes option list \<Rightarrow> string list
    \<Rightarrow> (('e, 'm, 'c, 'l, 'i) srv \<times> (err + RPCRes option list \<times> string list)) run" where
  "forward_batches W S L G T s ctx expired isBatch grp [] st responses servedBy = rreturn (st, Inr (responses, servedBy))"
| "forward_batches W S L G T s ctx expired isBatch grp (elems # rest) st responses servedBy =
     (if expired (sv_env st) then rreturn (st, Inl context_DeadlineExceeded)
      else case BackendGroups s grp of
        None \<Rightarrow> Some (Panic ''nil pointer dereference'')
      | Some (bg, con) \<Rightarrow>
          rbind (Some (group_Forward W S L G T ctx bg con (sv_env st) (sv_backends st) (createBatchRequest elems) isBatch))
            (\<lambda>(e, bes, reqs, resp).
              let st1 = st\<lparr>sv_env := e, sv_backends := bes\<rparr>;
                  res = (case bgr_error resp of
                           Some err \<Rightarrow> map (\<lambda>el. NewRPCErrorRes (ID (be_Req el)) err) elems
                         | None \<Rightarrow> bgr_RPCRes resp)
              in if (case bgr_error resp of Some err \<Rightarrow> receipts_error err | None \<Rightarrow> False)
                 then rreturn (st1, Inl (the (bgr_error resp)))
                 else rbind (store_results W s ctx elems reqs res st1 responses) (\<lambda>(st2, responses2).
                   forward_batches W S L G T s ctx expired isBatch grp rest st2 responses2 (List.insert (ServedBy resp) servedBy))))"

fun serve_batches ::
  "'e World \<Rightarrow> 'e Shuffler \<Rightarrow> 'm lhm \<Rightarrow> geth \<Rightarrow> 't ConsensusTracker \<Rightarrow> ('e, 't, 'c, 'l, 'i) Server \<Rightarrow> Ctx \<Rightarrow> ('e \<Rightarrow> bool) \<Rightarrow> bool
    \<Rightarrow> (batchGroup \<times> batchElem list) list \<Rightarrow> ('e, 'm, 'c, 'l, 'i) srv \<Rightarrow> RPCRes option list \<Rightarrow> bool \<Rightarrow> string list
    \<Rightarrow> (('e, 'm, 'c, 'l, 'i) srv \<times> (err + RPCRes option list \<times> bool \<times> string list)) run" where
  "serve_batches W S L G T s ctx expired isBatch [] st responses cached servedBy = rreturn (st, Inr (responses, cached, servedBy))"
| "serve_batches W S L G T s ctx expired isBatch ((grp, batch) # batches) st responses cached servedBy =
     (case cache_lookups W s ctx batch st responses cached of (st1, responses1, cached1, cacheMisses) \<Rightarrow>
        rbind (forward_batches W S L G T s ctx expired isBatch (snd grp)
                 (minibatches (maxUpstreamBatchSize s) cacheMisses) st1 responses1 servedBy)
          (\<lambda>(st2, r).
            case r of
              Inl err \<Rightarrow> rreturn (st2, Inl err)
            | Inr (responses2, servedBy2) \<Rightarrow>
                serve_batches W S L G T s ctx expired isBatch batches st2 responses2 cached1 servedBy2))"

definition join_served :: "string list \<Rightarrow> string" where
  "join_served sbs = fold (\<lambda>sb acc. (if acc \<noteq> [] then acc @ '', '' else acc) @ sb) sbs []"

text \<open>\<open>order\<close> is the order in which Go visits the map of batches.\<close>

definition handleBatchRPC ::
  "'e World \<Rightarrow> 'e Shuffler \<Rightarrow> 'm lhm \<Rightarrow> geth \<Rightarrow> 't ConsensusTracker \<Rightarrow> req_text \<Rightarrow> 'tx txlib \<Rightarrow> ('e \<Rightarrow> batchGroup list \<Rightarrow> 'e \<times> batchGroup list)
    \<Rightarrow> ('e, 't, 'c, 'l, 'i) Server \<Rightarrow> Ctx \<Rightarrow> ('e \<Rightarrow> bool) \<Rightarrow> string list
    \<Rightarrow> (string \<Rightarrow> ('e, 'm, 'c, 'l, 'i) srv \<Rightarrow> ('e, 'm, 'c, 'l, 'i) srv \<times> bool) \<Rightarrow> bool \<Rightarrow> ('e, 'm, 'c, 'l, 'i) srv
    \<Rightarrow> (('e, 'm, 'c, 'l, 'i) srv \<times> (err + RPCRes option list \<times> bool \<times> string)) run" where
  "handleBatchRPC W S L G T P B order s ctx expired reqs limited isBatch st =
     rbind (admit_all W P B s ctx limited (length reqs) 0 reqs (\<lambda>_. 0) (replicate (length reqs) None) [] st) (\<lambda>(st1, r).
       case r of
         Inl res \<Rightarrow> rreturn (st1, Inr ([Some res], False, []))
       | Inr (responses, batches) \<Rightarrow>
           (case order (sv_env st1) (map fst batches) of (e, keys) \<Rightarrow>
              rbind (serve_batches W S L G T s ctx expired isBatch (map (\<lambda>k. (k, the (map_of batches k))) keys)
                       (st1\<lparr>sv_env := e\<rparr>) responses False [])
                (\<lambda>(st2, r2).
                  case r2 of
                    Inl err \<Rightarrow> rreturn (st2, Inl err)
                  | Inr (responses2, cached, servedBy) \<Rightarrow>
                      (case w_order W (sv_env st2) servedBy of (e2, sbs) \<Rightarrow>
                         rreturn (st2\<lparr>sv_env := e2\<rparr>, Inr (responses2, cached, join_served sbs))))))"

subsection \<open>Flashbots signatures\<close>

text \<open>
  What is used of the cryptography of go-ethereum. Bytes are strings and addresses their text; \<open>Ecrecover\<close> gives the bytes of a public
  key, \<open>pubkey_address\<close> reads such bytes and gives the address of the key.
\<close>

record crypto =
  hexutil_Decode :: "string \<Rightarrow> err + string"
  Keccak256Hash_Hex :: "string \<Rightarrow> string"
  TextHash :: "string \<Rightarrow> string"
  Ecrecover :: "string \<Rightarrow> string \<Rightarrow> err + string"
  pubkey_address :: "string \<Rightarrow> err + string"
  HexToAddress :: "string \<Rightarrow> string"
  VerifySignature :: "string \<Rightarrow> string \<Rightarrow> string \<Rightarrow> bool"

definition ErrNoSignature :: err where
  "ErrNoSignature = Sentinel ''no signature provided''"

definition ErrInvalidSignature :: err where
  "ErrInvalidSignature = Sentinel ''invalid signature provided''"

definition invalid_signature :: "string \<Rightarrow> err" where
  "invalid_signature why = Wrapped why (Some ErrInvalidSignature)"

text \<open>\<open>strings.Cut\<close> at the first separator.\<close>

definition strings_Cut :: "char \<Rightarrow> string \<Rightarrow> (string \<times> string) option" where
  "strings_Cut c s = (if c \<in> set s then Some (takeWhile (\<lambda>x. x \<noteq> c) s, tl (dropWhile (\<lambda>x. x \<noteq> c) s)) else None)"

definition recovery_id :: "char \<Rightarrow> char" where
  "recovery_id c = (if (of_char c :: nat) \<ge> 27 then char_of ((of_char c :: nat) - 27) else c)"

definition VerifyFlashbotsAuth :: "crypto \<Rightarrow> string \<Rightarrow> string \<Rightarrow> err + string" where
  "VerifyFlashbotsAuth K header body =
     (if header = [] then Inl ErrNoSignature
      else case strings_Cut CHR '':'' header of
        None \<Rightarrow> Inl (invalid_signature ''missing separator'')
      | Some (parsedSignerStr, parsedSignatureStr) \<Rightarrow>
          (case hexutil_Decode K parsedSignatureStr of
             Inl err \<Rightarrow> Inl (invalid_signature (err_text err))
           | Inr sig \<Rightarrow>
               if sig = [] then Inl (invalid_signature ''%!w(<nil>)'')
               else
                 let parsedSignature = butlast sig @ [recovery_id (last sig)];
                     messageHash = TextHash K (Keccak256Hash_Hex K body)
                 in if (of_char (last parsedSignature) :: nat) > 1 then Inl (invalid_signature ''invalid recovery id'')
                    else case Ecrecover K messageHash parsedSignature of
                      Inl err \<Rightarrow> Inl (invalid_signature (err_text err))
                    | Inr recoveredPublicKeyBytes \<Rightarrow>
                        (case pubkey_address K recoveredPublicKeyBytes of
                           Inl err \<Rightarrow> Inl (invalid_signature (err_text err))
                         | Inr recoveredSigner \<Rightarrow>
                             if recoveredSigner \<noteq> HexToAddress K parsedSignerStr then Inl (invalid_signature ''signing address mismatch'')
                             else if \<not> VerifySignature K recoveredPublicKeyBytes messageHash (butlast parsedSignature)
                             then Inl (invalid_signature ''%!w(<nil>)'')
                             else Inr recoveredSigner)))"

subsection \<open>The RPC handler\<close>

datatype out_body = NoBody | TextBody string | OneRes RPCRes | ManyRes "RPCRes option list"

record http_out =
  out_status :: int
  out_header :: http_header
  out_body :: out_body

definition setCacheHeader :: "bool \<Rightarrow> http_header \<Rightarrow> http_header" where
  "setCacheHeader cached h = Header_Set ''X-Proxyd-Cache-Status'' (if cached then ''HIT'' else ''MISS'') h"

definition writeRPCRes :: "http_header \<Rightarrow> RPCRes \<Rightarrow> http_out" where
  "writeRPCRes h res =
     \<lparr>out_status = (case Error res of Some er \<Rightarrow> if HTTPErrorCode er \<noteq> 0 then HTTPErrorCode er else 200 | None \<Rightarrow> 200),
      out_header = Header_Set ''content-type'' ''application/json'' h, out_body = OneRes res\<rparr>"

definition writeRPCError :: "string \<Rightarrow> err \<Rightarrow> http_out" where
  "writeRPCError i err = writeRPCRes [] (NewRPCErrorRes i (case err of RpcE r \<Rightarrow> RpcE r | _ \<Rightarrow> RpcE ErrInternal))"

definition writeBatchRPCRes :: "http_header \<Rightarrow> RPCRes option list \<Rightarrow> http_out" where
  "writeBatchRPCRes h res = \<lparr>out_status = 200, out_header = Header_Set ''content-type'' ''application/json'' h, out_body = ManyRes res\<rparr>"

definition HandleHealthz :: http_out where
  "HandleHealthz = \<lparr>out_status = 200, out_header = [], out_body = TextBody ''OK''\<rparr>"

definition nullAddress :: string where
  "nullAddress = ''0x0000000000000000000000000000000000000000''"

definition FlashbotsAuthHeader :: string where
  "FlashbotsAuthHeader = ''X-Flashbots-Signature''"

definition served_headers :: "('e, 't, 'c, 'l, 'i) Server \<Rightarrow> string \<Rightarrow> bool \<Rightarrow> http_header" where
  "served_headers s servedBy cached =
     setCacheHeader cached (if enableServedByHeader s then Header_Set ''x-served-by'' servedBy [] else [])"

text \<open>What is written after \<open>handleBatchRPC\<close>, for a batch and for a single request.\<close>

definition write_batch :: "('e, 't, 'c, 'l, 'i) Server \<Rightarrow> err + RPCRes option list \<times> bool \<times> string \<Rightarrow> http_out" where
  "write_batch s r =
     (case r of
        Inl err \<Rightarrow>
          if err = context_DeadlineExceeded then writeRPCError [] (RpcE ErrGatewayTimeout)
          else if receipts_error err then writeRPCError [] (RpcE (ErrInvalidRequest (err_text err)))
          else writeRPCError [] (RpcE ErrInternal)
      | Inr (res, cached, servedBy) \<Rightarrow> writeBatchRPCRes (served_headers s servedBy cached) res)"

definition write_single :: "('e, 't, 'c, 'l, 'i) Server \<Rightarrow> err + RPCRes option list \<times> bool \<times> string \<Rightarrow> http_out outcome" where
  "write_single s r =
     (case r of
        Inl err \<Rightarrow>
          Return (if receipts_error err then writeRPCError [] (RpcE (ErrInvalidRequest (err_text err))) else writeRPCError [] (RpcE ErrInternal))
      | Inr (res, cached, servedBy) \<Rightarrow>
          (case res of
             Some res0 # _ \<Rightarrow> Return (writeRPCRes (served_headers s servedBy cached) res0)
           | None # _ \<Rightarrow> Panic ''nil pointer dereference''
           | [] \<Rightarrow> Panic ''index out of range''))"

definition serve_body ::
  "'e World \<Rightarrow> 'e Shuffler \<Rightarrow> 'm lhm \<Rightarrow> geth \<Rightarrow> 't ConsensusTracker \<Rightarrow> req_text \<Rightarrow> 'tx txlib \<Rightarrow> ('e \<Rightarrow> batchGroup list \<Rightarrow> 'e \<times> batchGroup list)
    \<Rightarrow> ('e, 't, 'c, 'l, 'i) Server \<Rightarrow> Ctx \<Rightarrow> ('e \<Rightarrow> bool) \<Rightarrow> (string \<Rightarrow> ('e, 'm, 'c, 'l, 'i) srv \<Rightarrow> ('e, 'm, 'c, 'l, 'i) srv \<times> bool) \<Rightarrow> string
    \<Rightarrow> ('e, 'm, 'c, 'l, 'i) srv \<Rightarrow> (('e, 'm, 'c, 'l, 'i) srv \<times> http_out) run" where
  "serve_body W S L G T P B order s ctx expired limited body st =
     (if IsBatch body then
        (case ParseBatchRPCReq P body of
           Inl err \<Rightarrow> rreturn (st, writeRPCError [] (RpcE ErrParseErr))
         | Inr reqs \<Rightarrow>
             if int (length reqs) > maxBatchSize s then rreturn (st, writeRPCError [] (RpcE ErrTooManyBatchRequests))
             else if reqs = [] then rreturn (st, writeRPCError [] (RpcE (ErrInvalidRequest ''must specify at least one batch call'')))
             else rbind (handleBatchRPC W S L G T P B order s ctx expired reqs limited True st) (\<lambda>(st1, r).
               rreturn (st1, write_batch s r)))
      else
        rbind (handleBatchRPC W S L G T P B order s ctx expired [body] limited False st) (\<lambda>(st1, r).
          rbind (Some (write_single s r)) (\<lambda>out. rreturn (st1, out))))"

definition HandleRPC ::
  "'e World \<Rightarrow> 'e Shuffler \<Rightarrow> 'm lhm \<Rightarrow> geth \<Rightarrow> 't ConsensusTracker \<Rightarrow> req_text \<Rightarrow> 'tx txlib \<Rightarrow> crypto
    \<Rightarrow> ('e \<Rightarrow> batchGroup list \<Rightarrow> 'e \<times> batchGroup list) \<Rightarrow> ('e, 't, 'c, 'l, 'i) Server \<Rightarrow> string \<Rightarrow> http_in \<Rightarrow> ('e, 'm, 'c, 'l, 'i) srv
    \<Rightarrow> (('e, 'm, 'c, 'l, 'i) srv \<times> http_out) run" where
  "HandleRPC W S L G T P B K order s reqID r st =
     (case populateContext s reqID r of
        None \<Rightarrow> rreturn (st, \<lparr>out_status = 401, out_header = [], out_body = NoBody\<rparr>)
      | Some ctx \<Rightarrow>
          let deadline = w_now W (sv_env st) + timeout s;
              xff = stripXFF (GetXForwardedFor ctx);
              isUnlimited = (isUnlimitedOrigin s (header_Get (in_header r) ''Origin'') \<or>
                             isUnlimitedUserAgent s (header_Get (in_header r) ''User-Agent''));
              flashbotsAuth = header_Get (in_header r) FlashbotsAuthHeader
          in if xff = [] then rreturn (st, writeRPCError [] (RpcE (ErrInvalidRequest ''request does not include a remote IP'')))
             else case ReadAll_limited (maxBodySize s) (in_body r) of
               Inl err \<Rightarrow>
                 rreturn (st, writeRPCError [] (RpcE (if err_is err ErrLimitReaderOverLimit then ErrRequestBodyTooLarge else ErrInternal)))
             | Inr body \<Rightarrow>
                 (case (if flashbotsAuth \<noteq> [] then VerifyFlashbotsAuth K flashbotsAuth body else Inr nullAddress) of
                    Inl err \<Rightarrow> rreturn (st, writeRPCError [] (RpcE ErrFlashbotsSignature))
                  | Inr signer \<Rightarrow>
                      serve_body W S L G T P B order s ctx (\<lambda>e. deadline \<le> w_now W e) (isLimited W s isUnlimited signer xff) body st))"

subsection \<open>Lemmas on batches\<close>

text \<open>The id a response to a request has: that of the request if it is well formed, else none.\<close>

definition response_id :: "req_text \<Rightarrow> nat \<Rightarrow> string \<Rightarrow> string" where
  "response_id P n raw =
     (case json_RPCReq P raw of
        None \<Rightarrow> []
      | Some req \<Rightarrow> if ValidateRPCReq req = None \<or> n = 1 \<and> Method req = proxydHealthzMethod then ID req else [])"

definition answered :: "(nat \<Rightarrow> string) \<Rightarrow> RPCRes option list \<Rightarrow> nat \<Rightarrow> bool" where
  "answered rid responses i \<longleftrightarrow> i < length responses \<and> (\<exists>r. responses ! i = Some r \<and> rs_ID r = rid i)"

definition extends :: "(nat \<Rightarrow> string) \<Rightarrow> RPCRes option list \<Rightarrow> RPCRes option list \<Rightarrow> bool" where
  "extends rid r r' \<longleftrightarrow> length r' = length r \<and> (\<forall>i. answered rid r i \<longrightarrow> answered rid r' i)"

lemma extends_refl [simp]: "extends rid r r" by (simp add: extends_def)

lemma extends_length: "extends rid r r' \<Longrightarrow> length r' = length r" by (simp add: extends_def)

lemma extends_answered: "extends rid r r' \<Longrightarrow> answered rid r i \<Longrightarrow> answered rid r' i" by (simp add: extends_def)

lemma extends_trans: "extends rid r r' \<Longrightarrow> extends rid r' r'' \<Longrightarrow> extends rid r r''" by (simp add: extends_def)

lemma extends_update: "rs_ID res = rid i \<Longrightarrow> extends rid r (r[i := Some res])"
  by (cases "i < length r") (simp_all add: extends_def answered_def nth_list_update list_update_beyond)

lemma answered_update: "i < length r \<Longrightarrow> rs_ID res = rid i \<Longrightarrow> answered rid (r[i := Some res]) i"
  by (simp add: answered_def)

definition elem_ok :: "(nat \<Rightarrow> string) \<Rightarrow> nat \<Rightarrow> batchElem \<Rightarrow> bool" where
  "elem_ok rid n el \<longleftrightarrow> be_Index el < n \<and> ID (be_Req el) = rid (be_Index el)"

lemma admit_decision:
  assumes "admit W P B s ctx limited n raw st = rreturn (st', d)"
  shows "case d of
      Respond r \<Rightarrow> rs_ID r = response_id P n raw
    | Health r \<Rightarrow> n = 1 \<and> rs_ID r = response_id P n raw
    | Admit req grp \<Rightarrow> json_RPCReq P raw = Some req \<and> ID req = response_id P n raw \<and> rpcMethodMappings s (Method req) = Some grp \<and> grp \<noteq> []"
proof (cases "json_RPCReq P raw")
  case None
  then show ?thesis using assms by (auto simp: admit_def ParseRPCReq_def response_id_def)
next
  case (Some req)
  consider (health) "n = 1" "Method req = proxydHealthzMethod"
    | (invalid) er where "\<not> (n = 1 \<and> Method req = proxydHealthzMethod)" "ValidateRPCReq req = Some er"
    | (valid) "\<not> (n = 1 \<and> Method req = proxydHealthzMethod)" "ValidateRPCReq req = None" by blast
  then show ?thesis
  proof cases
    case health
    then show ?thesis using assms Some by (auto simp: admit_def ParseRPCReq_def response_id_def)
  next
    case invalid
    then show ?thesis using assms Some by (auto simp: admit_def ParseRPCReq_def response_id_def)
  next
    case valid
    then have rid: "response_id P n raw = ID req" using Some by (simp add: response_id_def)
    show ?thesis using assms Some valid rid
      by (auto simp: admit_def ParseRPCReq_def Let_def rbind_eq_return split: if_splits prod.splits bool.splits option.splits)
  qed
qed

lemma add_elem_map_of: "map_of (add_elem k el batches) k' =
    (if k' = k then Some ((case map_of batches k of None \<Rightarrow> [] | Some els \<Rightarrow> els) @ [el]) else map_of batches k')"
  by (simp add: add_elem_def update_conv')

lemma add_elem_keys: "distinct (map fst batches) \<Longrightarrow> distinct (map fst (add_elem k el batches))"
  by (simp add: add_elem_def distinct_update)

text \<open>
  What is true of the batches while they are built: an element has its place and its id, goes to the group of its method, and the number of its
  batch is how often its id was seen; a batch has no id twice.
\<close>

definition batches_ok ::
  "('e, 't, 'c, 'l, 'i) Server \<Rightarrow> (nat \<Rightarrow> string) \<Rightarrow> nat \<Rightarrow> (string \<Rightarrow> nat) \<Rightarrow> (batchGroup \<times> batchElem list) list \<Rightarrow> bool" where
  "batches_ok s rid n ids batches \<longleftrightarrow> distinct (map fst batches) \<and>
     (\<forall>k els. map_of batches k = Some els \<longrightarrow> distinct (map (\<lambda>el. ID (be_Req el)) els) \<and>
       (\<forall>el\<in>set els. elem_ok rid n el \<and> rpcMethodMappings s (Method (be_Req el)) = Some (snd k) \<and> snd k \<noteq> [] \<and> fst k \<le> ids (ID (be_Req el))))"

lemma batches_ok_add:
  assumes "batches_ok s rid n ids batches" and "elem_ok rid n el" and "rpcMethodMappings s (Method (be_Req el)) = Some grp" and "grp \<noteq> []"
    and k: "k = ids (ID (be_Req el)) + 1"
  shows "batches_ok s rid n (ids(ID (be_Req el) := k)) (add_elem (k, grp) el batches)"
  unfolding batches_ok_def
proof (intro conjI allI impI)
  show "distinct (map fst (add_elem (k, grp) el batches))" using assms(1) by (simp add: batches_ok_def add_elem_keys)
  fix key els assume m: "map_of (add_elem (k, grp) el batches) key = Some els"
  have old: "distinct (map (\<lambda>el. ID (be_Req el)) els') \<and> (\<forall>el\<in>set els'. elem_ok rid n el \<and> rpcMethodMappings s (Method (be_Req el)) = Some (snd key) \<and>
      snd key \<noteq> [] \<and> fst key \<le> ids (ID (be_Req el)))" if "map_of batches key = Some els'" for els'
    using assms(1) that unfolding batches_ok_def by blast
  have mono: "ids x \<le> (ids(ID (be_Req el) := k)) x" for x using k by simp
  show "distinct (map (\<lambda>el. ID (be_Req el)) els)"
  proof (cases "key = (k, grp)")
    case True
    obtain els' where e: "els = els' @ [el]" "map_of batches key = Some els' \<or> els' = []"
      using m True by (auto simp: add_elem_map_of split: option.splits)
    have "ID (be_Req el) \<notin> (\<lambda>el. ID (be_Req el)) ` set els'"
    proof
      assume "ID (be_Req el) \<in> (\<lambda>el. ID (be_Req el)) ` set els'"
      then obtain x where "x \<in> set els'" "ID (be_Req x) = ID (be_Req el)" by auto
      then show False using e(2) old [of els'] True k by fastforce
    qed
    then show ?thesis using e old [of els'] by auto
  next
    case False
    then show ?thesis using m old by (simp add: add_elem_map_of)
  qed
  show "\<forall>x\<in>set els. elem_ok rid n x \<and> rpcMethodMappings s (Method (be_Req x)) = Some (snd key) \<and> snd key \<noteq> [] \<and>
      fst key \<le> (ids(ID (be_Req el) := k)) (ID (be_Req x))"
  proof
    fix x assume x: "x \<in> set els"
    show "elem_ok rid n x \<and> rpcMethodMappings s (Method (be_Req x)) = Some (snd key) \<and> snd key \<noteq> [] \<and>
      fst key \<le> (ids(ID (be_Req el) := k)) (ID (be_Req x))"
    proof (cases "x = el \<and> key = (k, grp)")
      case True
      then show ?thesis using assms by simp
    next
      case False
      then obtain els' where "map_of batches key = Some els'" "x \<in> set els'"
        using m x by (auto simp: add_elem_map_of split: if_splits option.splits)
      then show ?thesis using old [of els'] mono [of "ID (be_Req x)"] by (meson order_trans)
    qed
  qed
qed

definition batched :: "(batchGroup \<times> batchElem list) list \<Rightarrow> nat \<Rightarrow> bool" where
  "batched batches j \<longleftrightarrow> (\<exists>k els el. map_of batches k = Some els \<and> el \<in> set els \<and> be_Index el = j)"

lemma batched_add: "batched (add_elem k el batches) j \<longleftrightarrow> j = be_Index el \<or> batched batches j"
proof
  assume "batched (add_elem k el batches) j"
  then show "j = be_Index el \<or> batched batches j"
    unfolding batched_def by (force simp: add_elem_map_of split: if_splits option.splits)
next
  assume a: "j = be_Index el \<or> batched batches j"
  show "batched (add_elem k el batches) j"
  proof (cases "j = be_Index el")
    case True
    have "map_of (add_elem k el batches) k = Some ((case map_of batches k of None \<Rightarrow> [] | Some els \<Rightarrow> els) @ [el])" by (simp add: add_elem_map_of)
    then show ?thesis using True unfolding batched_def by (metis in_set_conv_decomp)
  next
    case False
    then obtain k' els el' where b: "map_of batches k' = Some els" "el' \<in> set els" "be_Index el' = j" using a unfolding batched_def by blast
    then have "\<exists>els'. map_of (add_elem k el batches) k' = Some els' \<and> el' \<in> set els'" by (cases "k' = k") (auto simp: add_elem_map_of)
    then show ?thesis using b(3) unfolding batched_def by blast
  qed
qed

text \<open>What the loop over the requests leaves: every request is answered or is in a batch.\<close>

lemma admit_all_batches:
  assumes "admit_all W P B s ctx limited n i raws ids responses batches st = rreturn (st', Inr (responses', batches'))"
    and "length responses = n" and "i + length raws = n" and "\<And>j. j < length raws \<Longrightarrow> rid (i + j) = response_id P n (raws ! j)"
    and "batches_ok s rid n ids batches"
    and "\<And>j. j < i \<Longrightarrow> answered rid responses j \<or> batched batches j"
  shows "length responses' = n \<and> (\<exists>ids'. batches_ok s rid n ids' batches') \<and>
    (\<forall>j<n. answered rid responses' j \<or> batched batches' j)"
  using assms
proof (induction raws arbitrary: i ids responses batches st)
  case Nil
  then show ?case by auto
next
  case (Cons raw raws)
  obtain st1 d where a: "admit W P B s ctx limited n raw st = rreturn (st1, d)"
    using Cons.prems(1) by (auto simp: rbind_eq_return)
  note dec = admit_decision [OF a]
  have rid: "rid i = response_id P n raw" using Cons.prems(4) [of 0] by simp
  have rid': "rid (Suc i + j) = response_id P n (raws ! j)" if "j < length raws" for j using Cons.prems(4) [of "Suc j"] that by simp
  have i: "i < n" "Suc i + length raws = n" using Cons.prems(3) by simp_all
  show ?case
  proof (cases d)
    case (Health res)
    then show ?thesis using Cons.prems(1) a by simp
  next
    case (Respond res)
    have r: "rs_ID res = rid i" using dec Respond rid by simp
    have "answered rid (responses[i := Some res]) j \<or> batched batches j" if "j < Suc i" for j
    proof (cases "j = i")
      case True
      then show ?thesis using answered_update [of i responses res rid] r i Cons.prems(2) by simp
    next
      case False
      then show ?thesis using Cons.prems(6) [of j] that extends_update [of res rid i responses, OF r] by (auto simp: extends_def)
    qed
    moreover have "admit_all W P B s ctx limited n (Suc i) raws ids (responses[i := Some res]) batches st1 = rreturn (st', Inr (responses', batches'))"
      using Cons.prems(1) a Respond by simp
    ultimately show ?thesis using Cons.IH [of "Suc i" ids "responses[i := Some res]" batches st1] Cons.prems(2,5) i(2) rid' by simp
  next
    case (Admit req grp)
    let ?k = "ids (ID req) + 1" and ?el = "\<lparr>be_Req = req, be_Index = i\<rparr>"
    have ok: "batches_ok s rid n (ids(ID req := ?k)) (add_elem (?k, grp) ?el batches)"
      using batches_ok_add [OF Cons.prems(5), of ?el grp ?k] dec Admit rid i by (simp add: elem_ok_def)
    have cov: "answered rid responses j \<or> batched (add_elem (?k, grp) ?el batches) j"
      if j: "j < Suc i" for j
      using Cons.prems(6) [of j] j by (auto simp: batched_add less_Suc_eq)
    have "admit_all W P B s ctx limited n (Suc i) raws (ids(ID req := ?k)) responses (add_elem (?k, grp) ?el batches) st1 = rreturn (st', Inr (responses', batches'))"
      using Cons.prems(1) a Admit by (simp add: Let_def)
    from Cons.IH [OF this Cons.prems(2) i(2) rid' ok cov] show ?thesis .
  qed
qed

lemma admit_all_health:
  assumes "admit_all W P B s ctx limited n i raws ids responses batches st = rreturn (st', Inl res)" and "i + length raws = n"
  shows "n = 1 \<and> i = 0 \<and> rs_ID res = response_id P n (raws ! 0)"
  using assms
proof (induction raws arbitrary: i ids responses batches st)
  case (Cons raw raws)
  obtain st1 d where a: "admit W P B s ctx limited n raw st = rreturn (st1, d)"
    using Cons.prems(1) by (auto simp: rbind_eq_return)
  show ?case
  proof (cases d)
    case (Health r)
    then show ?thesis using Cons.prems a admit_decision [OF a] by auto
  next
    case (Respond r)
    then show ?thesis using Cons.prems a Cons.IH [of "Suc i" ids "responses[i := Some r]" batches st1] by simp
  next
    case (Admit req grp)
    have "admit_all W P B s ctx limited n (Suc i) raws (ids(ID req := ids (ID req) + 1)) responses
        (add_elem (ids (ID req) + 1, grp) \<lparr>be_Req = req, be_Index = i\<rparr> batches) st1 = rreturn (st', Inl res)"
      using Cons.prems(1) a Admit by (simp add: Let_def)
    from Cons.IH [OF this] show ?thesis using Cons.prems(2) by simp
  qed
qed simp

text \<open>Minibatches cut a list into pieces of at most the given size, in order.\<close>

lemma minibatches_eq:
  assumes "0 < mx"
  shows "minibatches mx xs = map (\<lambda>i. take (nat mx) (drop (i * nat mx) xs)) [0..<nat \<lceil>of_nat (length xs) / of_int mx :: rat\<rceil>]"
proof -
  have "take (nat (min (int i * mx + mx) (int (length xs)) - int i * mx)) (drop (nat (int i * mx)) xs) = take (nat mx) (drop (i * nat mx) xs)" for i
  proof -
    obtain m where m: "mx = int m" "nat mx = m" using assms by (metis nat_int zero_less_imp_eq_int)
    have "nat (min (int i * mx + mx) (int (length xs)) - int i * mx) = min m (length xs - i * m)"
    proof -
      have "nat (min (int q + int m) (int l) - int q) = min m (l - q)" for q l by (auto simp: min_def)
      from this [of "i * m" "length xs"] show ?thesis by (simp add: m)
    qed
    moreover have "nat (int i * mx) = i * m" using nat_int [of "i * m"] by (simp add: m)
    ultimately show ?thesis using m(2) by (simp add: min_def)
  qed
  then show ?thesis by (simp add: minibatches_def Let_def)
qed

lemma minibatches_concat:
  assumes "0 < mx"
  shows "concat (minibatches mx xs) = xs"
proof -
  obtain m where m: "mx = int m" "0 < m" using assms by (metis zero_less_imp_eq_int)
  have pieces: "concat (map (\<lambda>i. take m (drop (i * m) xs)) [0..<n]) = take (n * m) xs" for n
  proof (induction n)
    case (Suc n)
    then show ?case using take_add [of "n * m" m xs] by (simp add: add.commute)
  qed simp
  let ?n = "nat \<lceil>of_nat (length xs) / of_int mx :: rat\<rceil>"
  have "(of_nat (length xs) :: rat) / of_nat m \<le> of_nat ?n" using m by (simp add: of_nat_nat)
  then have "(of_nat (length xs) :: rat) \<le> of_nat (?n * m)" using m(2) by (simp add: divide_le_eq)
  then have "length xs \<le> ?n * m" by (simp only: of_nat_le_iff)
  then show ?thesis using pieces [of ?n] m minibatches_eq [OF assms, of xs] by simp
qed

lemma minibatches_size:
  assumes "0 < mx" and "mb \<in> set (minibatches mx xs)"
  shows "int (length mb) \<le> mx \<and> (\<exists>us vs. xs = us @ mb @ vs)"
proof -
  obtain i where i: "mb = take (nat mx) (drop (i * nat mx) xs)" using assms minibatches_eq [OF assms(1), of xs] by auto
  have "xs = take (i * nat mx) xs @ mb @ drop (nat mx) (drop (i * nat mx) xs)" unfolding i by (metis append_take_drop_id)
  then show ?thesis using i assms(1) by auto
qed

lemma cache_lookups_spec:
  assumes "cache_lookups W s ctx els st responses cached = (st', responses', cached', misses)" and "\<forall>el\<in>set els. elem_ok rid (length responses) el"
    and "\<forall>now req c c' r. rpc_Get (srv_cache s) now ctx req c = (c', Inr (Some r)) \<longrightarrow> rs_ID r = ID req"
  shows "extends rid responses responses' \<and> subseq misses els \<and> (\<forall>el\<in>set els. el \<in> set misses \<or> answered rid responses' (be_Index el)) \<and>
    sv_backends st' = sv_backends st \<and> sv_env st' = sv_env st"
  using assms(1,2)
proof (induction els arbitrary: st responses cached st' responses' cached' misses)
  case Nil
  then show ?case by simp
next
  case (Cons el els)
  obtain c r where g: "rpc_Get (srv_cache s) (w_now W (sv_env st)) ctx (be_Req el) (sv_cache st) = (c, r)" by (metis surj_pair)
  have ok: "be_Index el < length responses" "ID (be_Req el) = rid (be_Index el)" using Cons.prems(2) by (simp_all add: elem_ok_def)
  show ?case
  proof (cases "\<exists>res. r = Inr (Some res)")
    case True
    then obtain res where r: "r = Inr (Some res)" by blast
    have id: "rs_ID res = rid (be_Index el)" using assms(3) g r ok(2) by metis
    have ih: "cache_lookups W s ctx els (st\<lparr>sv_cache := c\<rparr>) (responses[be_Index el := Some res]) True = (st', responses', cached', misses)"
      using Cons.prems(1) g r by simp
    have "extends rid responses (responses[be_Index el := Some res])" by (rule extends_update) (fact id)
    moreover have "answered rid (responses[be_Index el := Some res]) (be_Index el)" using ok(1) id by (simp add: answered_def)
    ultimately show ?thesis using Cons.IH [OF ih] Cons.prems(2) by (auto simp: extends_def)
  next
    case False
    obtain st1 responses1 cached1 misses1 where ih: "cache_lookups W s ctx els (st\<lparr>sv_cache := c\<rparr>) responses cached = (st1, responses1, cached1, misses1)"
      by (metis surj_pair)
    have "st' = st1 \<and> responses' = responses1 \<and> misses = el # misses1"
      using Cons.prems(1) g False ih by (auto split: sum.splits option.splits)
    then show ?thesis using Cons.IH [OF ih] Cons.prems(2) by auto
  qed
qed

lemma store_results_spec:
  assumes "length res = length els" and "map rs_ID res = map (\<lambda>el. ID (be_Req el)) els" and "\<forall>el\<in>set els. elem_ok rid (length responses) el"
  shows "\<exists>st' responses'. store_results W s ctx els reqs res st responses = rreturn (st', responses') \<and> extends rid responses responses' \<and>
    (\<forall>el\<in>set els. answered rid responses' (be_Index el))"
  using assms
proof (induction els arbitrary: res reqs st responses)
  case Nil
  then show ?case by simp
next
  case (Cons el els)
  obtain r rs where res: "res = r # rs" using Cons.prems(1) by (cases res) auto
  have ok: "be_Index el < length responses" "rs_ID r = rid (be_Index el)" using Cons.prems res by (simp_all add: elem_ok_def)
  let ?responses = "responses[be_Index el := Some r]"
  let ?st = "if Error r = None \<and> Result r \<noteq> NilVal
    then st\<lparr>sv_cache := fst (rpc_Put (srv_cache s) (w_now W (sv_env st)) ctx (hd reqs) r (sv_cache st))\<rparr> else st"
  have e: "extends rid responses ?responses" by (rule extends_update) (fact ok(2))
  have a: "answered rid ?responses (be_Index el)" using ok by (simp add: answered_def)
  obtain st' responses' where "store_results W s ctx els (tl reqs) rs ?st ?responses = rreturn (st', responses')"
    "extends rid ?responses responses'" "\<forall>el\<in>set els. answered rid responses' (be_Index el)"
    using Cons.IH [of rs ?responses "tl reqs" ?st] Cons.prems res by auto
  then show ?case using res e a by (auto simp: Let_def extends_def)
qed

text \<open>The answers of the backends to the requests with the ids in \<open>R\<close>, and the groups that do not race.\<close>

definition backends_answer :: "'e World \<Rightarrow> 'm lhm \<Rightarrow> geth \<Rightarrow> Ctx \<Rightarrow> bool \<Rightarrow> string set \<Rightarrow> bool" where
  "backends_answer W L G ctx isBatch R \<longleftrightarrow>
     (\<forall>e b qs e' b' qs' rs. Forward W L G ctx e (b :: 'm Backend) qs isBatch = Return (e', b', qs', Inr rs) \<and> set (map ID qs) \<subseteq> R \<longrightarrow>
        mset (map rs_ID rs) = mset (map ID qs))"

lemma backends_answer_mono: "backends_answer W L G ctx isBatch R \<Longrightarrow> R' \<subseteq> R \<Longrightarrow> backends_answer W L G ctx isBatch R'"
  unfolding backends_answer_def by (meson order_trans)

definition no_race :: "('e, 't, 'c, 'l, 'i) Server \<Rightarrow> bool \<Rightarrow> bool" where
  "no_race s isBatch \<longleftrightarrow> (\<forall>grp bg con. BackendGroups s grp = Some (bg, con) \<longrightarrow> isBatch \<or> routingStrategy bg \<noteq> MulticallRoutingStrategy)"

lemma forward_batches_spec:
  assumes "forward_batches W S L G T s ctx expired isBatch grp mbs st responses servedBy = rreturn (st', Inr (responses', servedBy'))"
    and "\<forall>mb\<in>set mbs. \<forall>el\<in>set mb. elem_ok rid n el" and "n = length responses"
    and answers: "backends_answer W L G ctx isBatch (rid ` {..<n})" and race: "no_race s isBatch"
  shows "extends rid responses responses' \<and> (\<forall>mb\<in>set mbs. \<forall>el\<in>set mb. answered rid responses' (be_Index el))"
  using assms(1-3)
proof (induction mbs arbitrary: st responses servedBy)
  case Nil
  then show ?case by simp
next
  case (Cons mb mbs)
  obtain bg con where g: "BackendGroups s grp = Some (bg, con)"
    using Cons.prems(1) by (auto split: if_splits option.splits)
  let ?f = "group_Forward W S L G T ctx bg con (sv_env st) (sv_backends st) (createBatchRequest mb) isBatch"
  obtain e bes reqs resp where f: "?f = Return (e, bes, reqs, resp)"
    using Cons.prems(1) g by (cases ?f) (auto split: if_splits)
  let ?res = "case bgr_error resp of Some err \<Rightarrow> map (\<lambda>el. NewRPCErrorRes (ID (be_Req el)) err) mb | None \<Rightarrow> bgr_RPCRes resp"
  have ids: "map rs_ID ?res = map (\<lambda>el. ID (be_Req el)) mb"
  proof (cases "bgr_error resp")
    case None
    have sub: "set (map ID (createBatchRequest mb)) \<subseteq> rid ` {..<n}" using Cons.prems(2) by (auto simp: createBatchRequest_def elem_ok_def)
    have strategy: "isBatch \<or> routingStrategy bg \<noteq> MulticallRoutingStrategy" using race g unfolding no_race_def by blast
    have "map rs_ID (bgr_RPCRes resp) = map ID (createBatchRequest mb)"
      using group_align [OF f None strategy] backends_answer_mono [OF answers sub, unfolded backends_answer_def] by blast
    then show ?thesis using None by (simp add: createBatchRequest_def)
  qed (simp add: comp_def)
  have len: "length ?res = length mb" using arg_cong [OF ids, of length] by simp
  have ok: "\<forall>el\<in>set mb. elem_ok rid (length responses) el" using Cons.prems(2,3) by simp
  obtain st2 responses2 where s: "store_results W s ctx mb reqs ?res (st\<lparr>sv_env := e, sv_backends := bes\<rparr>) responses = rreturn (st2, responses2)"
    "extends rid responses responses2" "\<forall>el\<in>set mb. answered rid responses2 (be_Index el)"
    using store_results_spec [OF len ids ok] by blast
  have "forward_batches W S L G T s ctx expired isBatch grp mbs st2 responses2 (List.insert (ServedBy resp) servedBy) = rreturn (st', Inr (responses', servedBy'))"
    using Cons.prems(1) g f s(1) by (simp add: Let_def split: if_splits)
  moreover have "\<forall>mb\<in>set mbs. \<forall>el\<in>set mb. elem_ok rid n el" "n = length responses2" using Cons.prems(2,3) extends_length [OF s(2)] by simp_all
  ultimately have ih: "extends rid responses2 responses'" "\<forall>mb\<in>set mbs. \<forall>el\<in>set mb. answered rid responses' (be_Index el)" using Cons.IH by blast+
  show ?case using extends_trans [OF s(2) ih(1)] ih(2) s(3) extends_answered [OF ih(1)] by simp
qed

definition cache_answers :: "('e, 't, 'c, 'l, 'i) Server \<Rightarrow> Ctx \<Rightarrow> bool" where
  "cache_answers s ctx \<longleftrightarrow> (\<forall>now req c c' r. rpc_Get (srv_cache s) now ctx req c = (c', Inr (Some r)) \<longrightarrow> rs_ID r = ID req)"

lemma serve_batches_spec:
  assumes "serve_batches W S L G T s ctx expired isBatch batches st responses cached servedBy = rreturn (st', Inr (responses', cached', servedBy'))"
    and "\<forall>b\<in>set batches. \<forall>el\<in>set (snd b). elem_ok rid n el" and "n = length responses" and "0 < maxUpstreamBatchSize s" and "cache_answers s ctx"
    and "backends_answer W L G ctx isBatch (rid ` {..<n})" and "no_race s isBatch"
  shows "extends rid responses responses' \<and> (\<forall>b\<in>set batches. \<forall>el\<in>set (snd b). answered rid responses' (be_Index el))"
  using assms(1-3)
proof (induction batches arbitrary: st responses cached servedBy)
  case Nil
  then show ?case by simp
next
  case (Cons b batches)
  obtain grp batch where b: "b = (grp, batch)" by fastforce
  obtain st1 responses1 cached1 misses where c: "cache_lookups W s ctx batch st responses cached = (st1, responses1, cached1, misses)" by (metis surj_pair)
  have ok: "\<forall>el\<in>set batch. elem_ok rid (length responses) el" using Cons.prems(2,3) b by simp
  note c1 = cache_lookups_spec [OF c ok assms(5) [unfolded cache_answers_def]]
  let ?mbs = "minibatches (maxUpstreamBatchSize s) misses"
  let ?f = "forward_batches W S L G T s ctx expired isBatch (snd grp) ?mbs st1 responses1 servedBy"
  obtain st2 responses2 servedBy2 where f: "?f = rreturn (st2, Inr (responses2, servedBy2))"
    and r: "serve_batches W S L G T s ctx expired isBatch batches st2 responses2 cached1 servedBy2 = rreturn (st', Inr (responses', cached', servedBy'))"
  proof -
    obtain st2 x where x: "?f = rreturn (st2, x)" using Cons.prems(1) b c by (auto simp: rbind_eq_return)
    then show ?thesis using that [of st2] Cons.prems(1) b c by (cases x) auto
  qed
  have n1: "n = length responses1" using c1 Cons.prems(3) by (simp add: extends_def)
  have mbs: "concat ?mbs = misses" by (rule minibatches_concat [OF assms(4)])
  have sub: "set misses \<subseteq> set batch" using c1 by (auto dest: list_emb_set)
  have "\<forall>mb\<in>set ?mbs. \<forall>el\<in>set mb. elem_ok rid n el"
  proof (intro ballI)
    fix mb el assume "mb \<in> set ?mbs" "el \<in> set mb"
    then have "el \<in> set (concat ?mbs)" by auto
    then show "elem_ok rid n el" using mbs sub ok Cons.prems(3) by auto
  qed
  from forward_batches_spec [OF f this n1 assms(6,7)]
  have f2: "extends rid responses1 responses2" "\<forall>el\<in>set (concat ?mbs). answered rid responses2 (be_Index el)" by auto
  have "\<forall>b\<in>set batches. \<forall>el\<in>set (snd b). elem_ok rid n el" "n = length responses2" using Cons.prems(2) n1 extends_length [OF f2(1)] by simp_all
  then have ih: "extends rid responses2 responses'" "\<forall>b\<in>set batches. \<forall>el\<in>set (snd b). answered rid responses' (be_Index el)"
    using Cons.IH [OF r] by blast+
  have "answered rid responses' (be_Index el)" if el: "el \<in> set batch" for el
  proof -
    have "el \<in> set misses \<or> answered rid responses1 (be_Index el)" using c1 el by simp
    then have "answered rid responses2 (be_Index el)" using f2(2) mbs extends_answered [OF f2(1)] by auto
    then show ?thesis by (rule extends_answered [OF ih(1)])
  qed
  moreover have "extends rid responses responses'" using c1 extends_trans [OF _ extends_trans [OF f2(1) ih(1)]] by simp
  ultimately show ?case using ih(2) b by simp
qed

text \<open>The loop over the requests starts with no batches.\<close>

lemma admitted_batches:
  assumes "admit_all W P B s ctx limited (length reqs) 0 reqs (\<lambda>_. 0) (replicate (length reqs) None) [] st = rreturn (st', Inr (responses, batches))"
  defines "rid \<equiv> \<lambda>i. response_id P (length reqs) (reqs ! i)"
  shows "length responses = length reqs" and "\<exists>ids. batches_ok s rid (length reqs) ids batches"
    and "j < length reqs \<Longrightarrow> answered rid responses j \<or> batched batches j"
proof -
  have "batches_ok s rid (length reqs) (\<lambda>_. 0) []" by (simp add: batches_ok_def)
  note a = admit_all_batches [OF assms(1) length_replicate _ _ this]
  have "length responses = length reqs \<and> (\<exists>ids'. batches_ok s rid (length reqs) ids' batches) \<and>
    (\<forall>j<length reqs. answered rid responses j \<or> batched batches j)" by (rule a) (simp_all add: rid_def)
  then show "length responses = length reqs" and "\<exists>ids. batches_ok s rid (length reqs) ids batches"
    and "j < length reqs \<Longrightarrow> answered rid responses j \<or> batched batches j" by blast+
qed

lemma handleBatchRPC_cases:
  assumes "handleBatchRPC W S L G T P B order s ctx expired reqs limited isBatch st = rreturn (st', Inr (responses, cached, served))"
  obtains (health) res where "admit_all W P B s ctx limited (length reqs) 0 reqs (\<lambda>_. 0) (replicate (length reqs) None) [] st = rreturn (st', Inl res)"
      "responses = [Some res]"
  | (served) st1 responses1 batches e keys st2 servedBy where
      "admit_all W P B s ctx limited (length reqs) 0 reqs (\<lambda>_. 0) (replicate (length reqs) None) [] st = rreturn (st1, Inr (responses1, batches))"
      "order (sv_env st1) (map fst batches) = (e, keys)"
      "serve_batches W S L G T s ctx expired isBatch (map (\<lambda>k. (k, the (map_of batches k))) keys) (st1\<lparr>sv_env := e\<rparr>) responses1 False [] =
        rreturn (st2, Inr (responses, cached, servedBy))"
proof -
  obtain st1 r where a: "admit_all W P B s ctx limited (length reqs) 0 reqs (\<lambda>_. 0) (replicate (length reqs) None) [] st = rreturn (st1, r)"
    using assms by (auto simp: handleBatchRPC_def rbind_eq_return)
  show ?thesis
  proof (cases r)
    case (Inl res)
    then show ?thesis using health [of res] assms a by (auto simp: handleBatchRPC_def)
  next
    case (Inr p)
    obtain responses1 batches where p: "p = (responses1, batches)" by fastforce
    obtain e keys where o: "order (sv_env st1) (map fst batches) = (e, keys)" by fastforce
    obtain st2 x where x: "serve_batches W S L G T s ctx expired isBatch (map (\<lambda>k. (k, the (map_of batches k))) keys) (st1\<lparr>sv_env := e\<rparr>)
        responses1 False [] = rreturn (st2, x)"
      using assms a Inr p o by (auto simp: handleBatchRPC_def rbind_eq_return)
    then show ?thesis using served [of st1 responses1 batches e keys st2] assms a Inr p o
      by (cases x) (auto simp: handleBatchRPC_def split: prod.splits)
  qed
qed

lemma cache_lookups_misses: "cache_lookups W s ctx els st responses cached = (st', responses', cached', misses) \<Longrightarrow> subseq misses els"
  by (induction els arbitrary: st responses cached st' responses' cached' misses) (auto split: prod.splits sum.splits option.splits)

lemma subseq_middle: "subseq (us @ mb @ vs) xs \<Longrightarrow> subseq mb xs"
proof -
  have "subseq ([] @ mb @ []) (us @ mb @ vs)" by (intro list_emb_append_mono) simp_all
  then show "subseq (us @ mb @ vs) xs \<Longrightarrow> subseq mb xs" using subseq_order.order_trans by auto
qed

lemma subseq_distinct_map: "subseq xs ys \<Longrightarrow> distinct (map f ys) \<Longrightarrow> distinct (map f xs)"
proof (induction rule: list_emb.induct)
  case (list_emb_Cons2 x y xs ys)
  then have "set xs \<subseteq> set ys" by (auto dest: list_emb_set)
  then show ?case using list_emb_Cons2 by auto
qed simp_all

subsection \<open>Priority\<close>

text \<open>Nothing but the closure of the handler reads the limits for signers of high priority.\<close>

lemma high_prio_fields:
  "BackendGroups (s\<lparr>highPrioOverrideLims := X\<rparr>) = BackendGroups s" "rpcMethodMappings (s\<lparr>highPrioOverrideLims := X\<rparr>) = rpcMethodMappings s"
  "maxUpstreamBatchSize (s\<lparr>highPrioOverrideLims := X\<rparr>) = maxUpstreamBatchSize s" "overrideLims (s\<lparr>highPrioOverrideLims := X\<rparr>) = overrideLims s"
  "senderLim (s\<lparr>highPrioOverrideLims := X\<rparr>) = senderLim s" "interopSenderLim (s\<lparr>highPrioOverrideLims := X\<rparr>) = interopSenderLim s"
  "allowedChainIds (s\<lparr>highPrioOverrideLims := X\<rparr>) = allowedChainIds s" "srv_cache (s\<lparr>highPrioOverrideLims := X\<rparr>) = srv_cache s"
  "interopReqSizeLimit (s\<lparr>highPrioOverrideLims := X\<rparr>) = interopReqSizeLimit s" "interopStrategy (s\<lparr>highPrioOverrideLims := X\<rparr>) = interopStrategy s"
  "enableServedByHeader (s\<lparr>highPrioOverrideLims := X\<rparr>) = enableServedByHeader s" "maxBatchSize (s\<lparr>highPrioOverrideLims := X\<rparr>) = maxBatchSize s"
  "maxBodySize (s\<lparr>highPrioOverrideLims := X\<rparr>) = maxBodySize s" "timeout (s\<lparr>highPrioOverrideLims := X\<rparr>) = timeout s"
  by simp_all

lemma admit_high_prio: "admit W P B (s\<lparr>highPrioOverrideLims := X\<rparr>) ctx limited n raw st = admit W P B s ctx limited n raw st"
proof -
  have g: "genericRateLimitSender W B (s\<lparr>highPrioOverrideLims := X\<rparr>) tx l st = genericRateLimitSender W B s tx l st" for tx l st
    by (simp add: genericRateLimitSender_def isAllowedChainId_def)
  have c: "check_transaction W B (s\<lparr>highPrioOverrideLims := X\<rparr>) ctx req st = check_transaction W B s ctx req st" for req st
    unfolding check_transaction_def rateLimitSender_def validateInteropSendRpcRequest_def rateLimitInteropSender_def g high_prio_fields ..
  show ?thesis unfolding admit_def high_prio_fields c ..
qed

lemma admit_all_high_prio:
  "admit_all W P B (s\<lparr>highPrioOverrideLims := X\<rparr>) ctx limited n i raws ids responses batches st = admit_all W P B s ctx limited n i raws ids responses batches st"
proof (induction raws arbitrary: i ids responses batches st)
  case (Cons raw raws)
  show ?case unfolding admit_all.simps Cons.IH admit_high_prio ..
qed simp

lemma cache_lookups_high_prio:
  "cache_lookups W (s\<lparr>highPrioOverrideLims := X\<rparr>) ctx els st responses cached = cache_lookups W s ctx els st responses cached"
proof (induction els arbitrary: st responses cached)
  case (Cons el els)
  show ?case unfolding cache_lookups.simps Cons.IH high_prio_fields ..
qed simp

lemma store_results_high_prio:
  "store_results W (s\<lparr>highPrioOverrideLims := X\<rparr>) ctx els reqs res st responses = store_results W s ctx els reqs res st responses"
proof (induction els arbitrary: reqs res st responses)
  case (Cons el els)
  show ?case unfolding store_results.simps Cons.IH high_prio_fields ..
qed simp

lemma forward_high_prio:
  "forward_batches W S L G T (s\<lparr>highPrioOverrideLims := X\<rparr>) ctx expired isBatch grp mbs st responses servedBy =
   forward_batches W S L G T s ctx expired isBatch grp mbs st responses servedBy"
proof (induction mbs arbitrary: st responses servedBy)
  case (Cons mb mbs)
  show ?case unfolding forward_batches.simps Cons.IH high_prio_fields store_results_high_prio ..
qed simp

lemma serve_high_prio:
  "serve_batches W S L G T (s\<lparr>highPrioOverrideLims := X\<rparr>) ctx expired isBatch batches st responses cached servedBy =
   serve_batches W S L G T s ctx expired isBatch batches st responses cached servedBy"
proof (induction batches arbitrary: st responses cached servedBy)
  case (Cons b batches)
  show ?case by (cases b, simp only: serve_batches.simps Cons.IH) (unfold Cons.IH high_prio_fields cache_lookups_high_prio forward_high_prio, simp)
qed simp

lemma serve_body_high_prio:
  "serve_body W S L G T P B order (s\<lparr>highPrioOverrideLims := X\<rparr>) ctx expired limited body st = serve_body W S L G T P B order s ctx expired limited body st"
  unfolding serve_body_def handleBatchRPC_def admit_all_high_prio serve_high_prio high_prio_fields write_batch_def write_single_def served_headers_def ..

lemma isLimited_high_prio:
  "signer \<notin> set (highPrioSigners s) \<Longrightarrow> isLimited W (s\<lparr>highPrioOverrideLims := X\<rparr>) u signer xff = isLimited W s u signer xff"
  by (intro ext) (simp add: isLimited_def isGlobalLimit_def)

lemma populate_high_prio: "populateContext (s\<lparr>highPrioOverrideLims := X\<rparr>) reqID r = populateContext s reqID r"
  by (simp add: populateContext_def remote_xff_def filtered_headers_def Let_def)

subsection \<open>Authentication\<close>

text \<open>What a valid header says: the address before the colon signed the hash of the body.\<close>

definition signed_by :: "crypto \<Rightarrow> string \<Rightarrow> string \<Rightarrow> string \<Rightarrow> bool" where
  "signed_by K header body a \<longleftrightarrow>
     (\<exists>addr sigtext sig pk. header = addr @ CHR '':'' # sigtext \<and> CHR '':'' \<notin> set addr \<and> hexutil_Decode K sigtext = Inr sig \<and> sig \<noteq> [] \<and>
        (of_char (recovery_id (last sig)) :: nat) \<le> 1 \<and>
        Ecrecover K (TextHash K (Keccak256Hash_Hex K body)) (butlast sig @ [recovery_id (last sig)]) = Inr pk \<and>
        pubkey_address K pk = Inr a \<and> HexToAddress K addr = a \<and> VerifySignature K pk (TextHash K (Keccak256Hash_Hex K body)) (butlast sig))"

lemma strings_Cut_Some: "strings_Cut c s = Some (a, b) \<longleftrightarrow> s = a @ c # b \<and> c \<notin> set a"
proof
  assume s: "strings_Cut c s = Some (a, b)"
  then have c: "c \<in> set s" and a: "a = takeWhile (\<lambda>x. x \<noteq> c) s" and b: "b = tl (dropWhile (\<lambda>x. x \<noteq> c) s)"
    by (simp_all add: strings_Cut_def split: if_splits)
  have d: "dropWhile (\<lambda>x. x \<noteq> c) s \<noteq> []" using c by simp
  have "hd (dropWhile (\<lambda>x. x \<noteq> c) s) = c" using hd_dropWhile [OF d] by simp
  then have "dropWhile (\<lambda>x. x \<noteq> c) s = c # b" using d b by (metis list.collapse)
  then show "s = a @ c # b \<and> c \<notin> set a" using a by (metis (mono_tags) set_takeWhileD takeWhile_dropWhile_id)
next
  assume s: "s = a @ c # b \<and> c \<notin> set a"
  have "c \<notin> set a \<Longrightarrow> takeWhile (\<lambda>x. x \<noteq> c) (a @ c # b) = a \<and> dropWhile (\<lambda>x. x \<noteq> c) (a @ c # b) = c # b" by (induction a) auto
  then show "strings_Cut c s = Some (a, b)" using s by (simp add: strings_Cut_def)
qed

lemma VerifyFlashbotsAuth_iff: "VerifyFlashbotsAuth K header body = Inr a \<longleftrightarrow> signed_by K header body a"
proof
  assume v: "VerifyFlashbotsAuth K header body = Inr a"
  then obtain addr sigtext where c: "strings_Cut CHR '':'' header = Some (addr, sigtext)"
    by (auto simp: VerifyFlashbotsAuth_def split: if_splits option.splits)
  obtain sig pk where "hexutil_Decode K sigtext = Inr sig" "sig \<noteq> []" "(of_char (recovery_id (last sig)) :: nat) \<le> 1"
    "Ecrecover K (TextHash K (Keccak256Hash_Hex K body)) (butlast sig @ [recovery_id (last sig)]) = Inr pk" "pubkey_address K pk = Inr a"
    "HexToAddress K addr = a" "VerifySignature K pk (TextHash K (Keccak256Hash_Hex K body)) (butlast sig)"
    using v c by (auto simp: VerifyFlashbotsAuth_def Let_def split: if_splits sum.splits)
  then show "signed_by K header body a" using c unfolding signed_by_def strings_Cut_Some by blast
next
  assume "signed_by K header body a"
  then show "VerifyFlashbotsAuth K header body = Inr a"
    unfolding signed_by_def by (auto simp: VerifyFlashbotsAuth_def strings_Cut_Some [THEN iffD2])
qed

subsection \<open>Admission\<close>

text \<open>How a request gets through the admission.\<close>

lemma admit_cases:
  assumes "admit W P B s ctx limited n raw st = rreturn (st', d)"
  obtains (early) "st' = st" "\<And>req g. d \<noteq> Admit req g"
  | (over) "limited [] st = (st', True)" "\<And>req g. d \<noteq> Admit req g"
  | (over_method) m st1 where "limited [] st = (st1, False)" "limited m st1 = (st', True)" "\<And>req g. d \<noteq> Admit req g"
  | (checked) req st1 st2 er where "limited [] st = (st1, False)" "st2 = st1 \<or> (\<exists>m. limited m st1 = (st2, False))"
      "check_transaction W B s ctx req st2 = rreturn (st', er)" "\<And>req' g. d = Admit req' g \<Longrightarrow> req' = req \<and> er = None"
proof (cases "\<exists>req. ParseRPCReq P raw = Inr req \<and> \<not> (n = 1 \<and> Method req = proxydHealthzMethod) \<and> ValidateRPCReq req = None \<and>
    Method req \<noteq> ''eth_accounts'' \<and> (case rpcMethodMappings s (Method req) of None \<Rightarrow> [] | Some g \<Rightarrow> g) \<noteq> []")
  case False
  then show ?thesis using assms early by (cases "ParseRPCReq P raw") (auto simp: admit_def Let_def split: if_splits option.splits)
next
  case True
  then obtain req where r: "ParseRPCReq P raw = Inr req" "\<not> (n = 1 \<and> Method req = proxydHealthzMethod)" "ValidateRPCReq req = None"
    "Method req \<noteq> ''eth_accounts''" "(case rpcMethodMappings s (Method req) of None \<Rightarrow> [] | Some g \<Rightarrow> g) \<noteq> []" by blast
  obtain st1 b1 where l1: "limited [] st = (st1, b1)" by fastforce
  obtain st2 b2 where l2: "(if overrideLims s (Method req) \<noteq> None then limited (Method req) st1 else (st1, False)) = (st2, b2)" by fastforce
  show ?thesis
  proof (cases b1)
    case True
    then show ?thesis using assms r l1 by (intro over) (auto simp: admit_def Let_def)
  next
    case b1: False
    show ?thesis
    proof (cases b2)
      case True
      then have "limited (Method req) st1 = (st2, True)" "st' = st2" "\<And>req g. d \<noteq> Admit req g"
        using assms r l1 l2 b1 by (auto simp: admit_def Let_def split: if_splits)
      then show ?thesis using over_method l1 b1 by simp
    next
      case False
      then obtain er where "check_transaction W B s ctx req st2 = rreturn (st', er)" "\<And>req' g. d = Admit req' g \<Longrightarrow> req' = req \<and> er = None"
        using assms r l1 l2 b1 unfolding admit_def Let_def by (auto simp: rbind_eq_return split: option.splits)
      moreover have "st2 = st1 \<or> (\<exists>m. limited m st1 = (st2, False))" using l2 False by (auto split: if_splits)
      ultimately show ?thesis using checked [of st1 st2 req er] l1 b1 by simp
    qed
  qed
qed

lemma admit_all_invariant:
  assumes "admit_all W P B s ctx limited n i raws ids responses batches st = rreturn (st', Inr (responses', batches'))" and "I batches st"
    and respond: "\<And>raw batches st st' r. I batches st \<Longrightarrow> admit W P B s ctx limited n raw st = rreturn (st', Respond r) \<Longrightarrow> I batches st'"
    and admitted: "\<And>raw batches st st' req g k j. I batches st \<Longrightarrow> admit W P B s ctx limited n raw st = rreturn (st', Admit req g) \<Longrightarrow>
      I (add_elem (k, g) \<lparr>be_Req = req, be_Index = j\<rparr> batches) st'"
  shows "I batches' st'"
  using assms(1,2)
proof (induction raws arbitrary: i ids responses batches st)
  case (Cons raw raws)
  obtain st1 d where a: "admit W P B s ctx limited n raw st = rreturn (st1, d)"
    using Cons.prems(1) by (auto simp: rbind_eq_return)
  show ?case
  proof (cases d)
    case (Respond r)
    then show ?thesis using Cons.IH [of "Suc i" ids "responses[i := Some r]" batches st1] Cons.prems a respond by simp
  next
    case (Admit req g)
    let ?k = "ids (ID req) + 1"
    have "admit_all W P B s ctx limited n (Suc i) raws (ids(ID req := ?k)) responses (add_elem (?k, g) \<lparr>be_Req = req, be_Index = i\<rparr> batches) st1
        = rreturn (st', Inr (responses', batches'))" using Cons.prems(1) a Admit by (simp add: Let_def)
    then show ?thesis by (rule Cons.IH) (rule admitted [OF Cons.prems(2) a [unfolded Admit]])
  qed (use Cons.prems(1) a in simp)
qed simp

text \<open>The checks of a transaction take from the limiters of senders and ask the supervisors.\<close>

lemma genericRateLimitSender_cases:
  "fst (genericRateLimitSender W B s tx limiter st) = st \<or>
     (\<exists>key. fst (genericRateLimitSender W B s tx limiter st) = st\<lparr>sv_lims := fst (limiter (w_now W (sv_env st)) (sv_lims st) key)\<rparr>)"
proof (cases "isAllowedChainId s (tx_ChainId B tx) \<and> (\<exists>a. tx_Sender B (tx_ChainId B tx = 0) tx = Inr a)")
  case True
  then obtain a where a: "isAllowedChainId s (tx_ChainId B tx)" "tx_Sender B (tx_ChainId B tx = 0) tx = Inr a" by blast
  obtain l ok er where lim: "limiter (w_now W (sv_env st)) (sv_lims st) (a @ '':'' @ fmt_nat (tx_Nonce B tx)) = (l, ok, er)" by (metis surj_pair)
  have "fst (genericRateLimitSender W B s tx limiter st) = st\<lparr>sv_lims := l\<rparr>"
    using a lim by (cases er) (simp_all add: genericRateLimitSender_def take_limit_def)
  then show ?thesis using lim by (metis fst_conv)
next
  case False
  then show ?thesis by (auto simp: genericRateLimitSender_def split: sum.split)
qed

lemma sender_steps:
  assumes "\<And>l key. senderLim s = Some l \<Longrightarrow> J (st\<lparr>sv_lims := fst (l (w_now W (sv_env st)) (sv_lims st) key)\<rparr>)" and "J st"
  shows "J (fst (rateLimitSender W B s tx st))"
  using assms genericRateLimitSender_cases [of W B s tx "the (senderLim s)" st] by (cases "senderLim s") (auto simp: rateLimitSender_def)

lemma interop_sender_steps:
  assumes "\<And>l key. interopSenderLim s = Some l \<Longrightarrow> J (st\<lparr>sv_lims := fst (l (w_now W (sv_env st)) (sv_lims st) key)\<rparr>)" and "J st"
  shows "J (fst (rateLimitInteropSender W B s tx st))"
  using assms genericRateLimitSender_cases [of W B s tx "the (interopSenderLim s)" st] by (cases "interopSenderLim s") (auto simp: rateLimitInteropSender_def)

lemma check_transaction_invariant:
  assumes "check_transaction W B s ctx req st = rreturn (st', er)" and "J st"
    and takes: "\<And>st l key. J st \<Longrightarrow> senderLim s = Some l \<or> interopSenderLim s = Some l \<Longrightarrow> J (st\<lparr>sv_lims := fst (l (w_now W (sv_env st)) (sv_lims st) key)\<rparr>)"
    and asks: "\<And>st acl e i r. J st \<Longrightarrow> interopStrategy s ctx acl (sv_env st) (sv_interop st) = rreturn (e, i, r) \<Longrightarrow> J (st\<lparr>sv_env := e, sv_interop := i\<rparr>)"
  shows "J st'"
proof (cases "(Method req = ''eth_sendRawTransaction'' \<or> Method req = ''eth_sendRawTransactionConditional'') \<and> (\<exists>tx. convertSendReqToSendTx B req = Inr tx)")
  case True
  then obtain tx where tx: "convertSendReqToSendTx B req = Inr tx" by blast
  obtain st1 er1 where l1: "rateLimitSender W B s tx st = (st1, er1)" by fastforce
  have j1: "J st1" using sender_steps [where s = s and J = J and st = st and W = W and B = B and tx = tx] takes assms(2) l1 by simp
  obtain st2 er2 where l2: "rateLimitInteropSender W B s tx st1 = (st2, er2)" by fastforce
  have j2: "J st2" using interop_sender_steps [where s = s and J = J and st = st1 and W = W and B = B and tx = tx] takes j1 l2 by simp
  show ?thesis using assms(1) True tx l1 l2 j1 j2 asks [OF j2]
    by (auto simp: check_transaction_def validateInteropSendRpcRequest_def Let_def rbind_eq_return split: if_splits option.splits)
next
  case False
  then show ?thesis using assms(1,2) by (auto simp: check_transaction_def split: if_splits sum.splits)
qed

lemma check_transaction_passed:
  assumes "check_transaction W B s ctx req st = rreturn (st', None)" and "Method req = ''eth_sendRawTransaction'' \<or> Method req = ''eth_sendRawTransactionConditional''"
  obtains tx where "convertSendReqToSendTx B req = Inr tx"
    "TxToInteropAccessList B tx = [] \<or> (\<exists>e e' i'. interopStrategy s ctx (TxToInteropAccessList B tx) e (sv_interop st) = rreturn (e', i', None))"
proof -
  obtain tx where tx: "convertSendReqToSendTx B req = Inr tx"
    using assms by (cases "convertSendReqToSendTx B req") (auto simp: check_transaction_def)
  obtain st1 er1 where l1: "rateLimitSender W B s tx st = (st1, er1)" by fastforce
  have i1: "sv_interop st1 = sv_interop st" using sender_steps [where s = s and J = "\<lambda>x. sv_interop x = sv_interop st" and st = st and W = W and B = B and tx = tx] l1 by simp
  obtain st2 er2 where l2: "rateLimitInteropSender W B s tx st1 = (st2, er2)" by fastforce
  have i2: "sv_interop st2 = sv_interop st" using interop_sender_steps [where s = s and J = "\<lambda>x. sv_interop x = sv_interop st" and st = st1 and W = W and B = B and tx = tx] l2 i1 by simp
  have "TxToInteropAccessList B tx = [] \<or> (\<exists>e e' i'. interopStrategy s ctx (TxToInteropAccessList B tx) e (sv_interop st) = rreturn (e', i', None))"
    using assms tx l1 l2 i2
    by (auto simp: check_transaction_def validateInteropSendRpcRequest_def Let_def rbind_eq_return split: if_splits option.splits)
  then show ?thesis using that tx by blast
qed

lemma add_elem_elems:
  assumes "(k', els) \<in> set (add_elem k el batches)" and "x \<in> set els"
  shows "x = el \<or> (\<exists>k els. (k, els) \<in> set batches \<and> x \<in> set els)"
proof -
  have u: "b \<in> set (AList.update k v bs) \<Longrightarrow> b = (k, v) \<or> b \<in> set bs" for b v and bs :: "(batchGroup \<times> batchElem list) list"
    by (induction bs) (auto split: if_splits)
  show ?thesis using u [OF assms(1) [unfolded add_elem_def]] assms(2) map_of_SomeD [of batches k] by (cases "map_of batches k") fastforce+
qed

lemma add_elem_length: "length (concat (map snd (add_elem k el batches))) = Suc (length (concat (map snd batches)))"
proof -
  have "length (concat (map snd (AList.update k v bs))) + length (case map_of bs k of None \<Rightarrow> [] | Some els \<Rightarrow> els) = length (concat (map snd bs)) + length v"
    for v and bs :: "(batchGroup \<times> batchElem list) list" by (induction bs) auto
  from this [of "(case map_of batches k of None \<Rightarrow> [] | Some els \<Rightarrow> els) @ [el]" batches] show ?thesis by (simp add: add_elem_def)
qed

subsection \<open>Counting what is admitted\<close>

text \<open>
  What the admission relies on to respect a limit: a counter that no step lowers, and that the main limit raises for every request that it lets pass
  as long as it is below the maximum.
\<close>

locale counted_admission =
  fixes W :: "'e World" and B :: "'tx txlib" and s :: "('e, 't, 'c, 'l, 'i) Server" and ctx :: Ctx
    and limited :: "string \<Rightarrow> ('e, 'm, 'c, 'l, 'i) srv \<Rightarrow> ('e, 'm, 'c, 'l, 'i) srv \<times> bool"
    and inv :: "'l \<Rightarrow> bool" and used :: "'l \<Rightarrow> int" and mx :: int
  assumes limited_counts: "inv (sv_lims st) \<Longrightarrow> limited m st = (st', r) \<Longrightarrow> inv (sv_lims st') \<and> used (sv_lims st) \<le> used (sv_lims st')"
    and main_counts: "inv (sv_lims st) \<Longrightarrow> limited [] st = (st', False) \<Longrightarrow> used (sv_lims st) < mx \<and> used (sv_lims st) < used (sv_lims st')"
    and check_counts: "inv (sv_lims st) \<Longrightarrow> check_transaction W B s ctx req st = rreturn (st', er) \<Longrightarrow> inv (sv_lims st') \<and> used (sv_lims st) \<le> used (sv_lims st')"
begin

lemma admit_counted:
  assumes "inv (sv_lims st)" and a: "admit W P B s ctx limited n raw st = rreturn (st', d)"
  shows "inv (sv_lims st')" "used (sv_lims st) \<le> used (sv_lims st')"
    "d = Admit req g \<Longrightarrow> used (sv_lims st) < mx \<and> used (sv_lims st) < used (sv_lims st')"
proof -
  have "inv (sv_lims st') \<and> used (sv_lims st) \<le> used (sv_lims st') \<and> (d = Admit req g \<longrightarrow> used (sv_lims st) < mx \<and> used (sv_lims st) < used (sv_lims st'))"
    using a
  proof (cases rule: admit_cases)
    case over
    then show ?thesis using limited_counts [OF assms(1) over(1)] by simp
  next
    case (over_method m st1)
    note l1 = limited_counts [OF assms(1) over_method(1)]
    show ?thesis using l1 limited_counts [OF conjunct1 [OF l1] over_method(2)] over_method(3) by auto
  next
    case (checked rq st1 st2 er)
    note l1 = limited_counts [OF assms(1) checked(1)]
    have l2: "inv (sv_lims st2) \<and> used (sv_lims st1) \<le> used (sv_lims st2)" using checked(2) l1 limited_counts by blast
    show ?thesis using l2 main_counts [OF assms(1) checked(1)] check_counts [OF conjunct1 [OF l2] checked(3)] by auto
  qed (use assms(1) in auto)
  then show "inv (sv_lims st')" "used (sv_lims st) \<le> used (sv_lims st')"
    "d = Admit req g \<Longrightarrow> used (sv_lims st) < mx \<and> used (sv_lims st) < used (sv_lims st')" by blast+
qed

lemma admit_all_counted:
  assumes "inv (sv_lims st)" and a: "admit_all W P B s ctx limited n i raws ids responses [] st = rreturn (st', Inr (responses', batches))"
  shows "inv (sv_lims st') \<and> used (sv_lims st) + int (length (concat (map snd batches))) \<le> used (sv_lims st') \<and>
    (concat (map snd batches) \<noteq> [] \<longrightarrow> used (sv_lims st) + int (length (concat (map snd batches))) \<le> mx)"
proof -
  let ?I = "\<lambda>bs x. inv (sv_lims x) \<and> used (sv_lims st) + int (length (concat (map snd bs))) \<le> used (sv_lims x) \<and>
    (concat (map snd bs) \<noteq> [] \<longrightarrow> used (sv_lims st) + int (length (concat (map snd bs))) \<le> mx)"
  show "?I batches st'"
  proof (rule admit_all_invariant [OF a, where I = ?I])
    show "?I [] st" using assms(1) by simp
    show "?I bs x'" if "?I bs x" "admit W P B s ctx limited n raw x = rreturn (x', Respond r)" for raw bs x x' r
      using that(1) admit_counted(1,2) [OF _ that(2)] by auto
    show "?I (add_elem (k, g) \<lparr>be_Req = req, be_Index = j\<rparr> bs) x'" if "?I bs x" "admit W P B s ctx limited n raw x = rreturn (x', Admit req g)"
      for raw bs x x' req g k j
      using that(1) admit_counted(1) [OF _ that(2)] admit_counted(3) [OF _ that(2) refl] add_elem_length [of "(k, g)" "\<lparr>be_Req = req, be_Index = j\<rparr>" bs] by auto
  qed
qed

end

subsection \<open>Properties\<close>

text \<open>
  C5. One response per request, in order. For a single request as for a batch, whatever is answered by the proxy itself, from the cache, or by which
  backend, and however the requests are split for the backends: if the server returns responses, there is one for every request, with the id of
  that request (none for requests that cannot be read or are invalid), in the order of the requests. The backends have to answer each call once and the
  cache has to keep ids; races of multicall are excluded.
\<close>

theorem batch_responses_match:
  assumes h: "handleBatchRPC W S L G T P B order s ctx expired reqs limited isBatch st = rreturn (st', Inr (responses, cached, served))"
    and mx: "0 < maxUpstreamBatchSize s" and order: "\<forall>e ks. set (snd (order e ks)) = set ks"
    and "cache_answers s ctx" and "no_race s isBatch"
    and "backends_answer W L G ctx isBatch (response_id P (length reqs) ` set reqs)"
  shows "map (map_option rs_ID) responses = map (\<lambda>raw. Some (response_id P (length reqs) raw)) reqs"
  using h
proof (cases rule: handleBatchRPC_cases)
  case (health res)
  note hl = admit_all_health [OF health(1)]
  then show ?thesis using health(2) by (cases reqs) auto
next
  case (served st1 responses1 batches e keys st2 servedBy)
  let ?n = "length reqs" and ?rid = "\<lambda>i. response_id P (length reqs) (reqs ! i)"
  note a = admitted_batches [OF served(1)]
  obtain ids where bk: "batches_ok s ?rid ?n ids batches" using a(2) by blast
  have keys: "set keys = set (map fst batches)" using order served(2) by (metis snd_conv)
  have elems: "\<forall>b\<in>set (map (\<lambda>k. (k, the (map_of batches k))) keys). \<forall>el\<in>set (snd b). elem_ok ?rid ?n el"
  proof (intro ballI)
    fix b el assume b: "b \<in> set (map (\<lambda>k. (k, the (map_of batches k))) keys)" and el: "el \<in> set (snd b)"
    obtain k where k: "k \<in> set keys" "b = (k, the (map_of batches k))" using b by auto
    then obtain els where "map_of batches k = Some els" using keys by (metis map_of_eq_None_iff not_None_eq set_map)
    then show "elem_ok ?rid ?n el" using bk el k(2) unfolding batches_ok_def by (metis option.sel snd_conv)
  qed
  have rids: "?rid ` {..<?n} = response_id P ?n ` set reqs" by (force simp: in_set_conv_nth image_iff)
  have sv: "extends ?rid responses1 responses" "\<forall>b\<in>set (map (\<lambda>k. (k, the (map_of batches k))) keys). \<forall>el\<in>set (snd b). answered ?rid responses (be_Index el)"
    using serve_batches_spec [OF served(3) elems a(1) [symmetric] mx assms(4)] assms(5,6) rids by simp_all
  have ans: "answered ?rid responses j" if j: "j < ?n" for j
  proof (cases "answered ?rid responses1 j")
    case True
    then show ?thesis using sv(1) by (simp add: extends_def)
  next
    case False
    then obtain k els el where b: "map_of batches k = Some els" "el \<in> set els" "be_Index el = j" using a(3) [OF j] unfolding batched_def by blast
    have "k \<in> set keys" using keys b(1) by (metis map_of_eq_None_iff option.distinct(1) set_map)
    then show ?thesis using sv(2) b by force
  qed
  have len: "length responses = ?n" using sv(1) a(1) by (simp add: extends_def)
  show ?thesis
  proof (rule nth_equalityI)
    show "length (map (map_option rs_ID) responses) = length (map (\<lambda>raw. Some (response_id P ?n raw)) reqs)" using len by simp
    fix i assume "i < length (map (map_option rs_ID) responses)"
    then show "map (map_option rs_ID) responses ! i = map (\<lambda>raw. Some (response_id P ?n raw)) reqs ! i" using ans [of i] len by (auto simp: answered_def)
  qed
qed

text \<open>A server with one group for three methods, and the text of requests for it: one character, the id.\<close>

definition plain_limits :: RateLimitConfig where
  "plain_limits = \<lparr>UseRedis = False, BaseRate = 0, BaseInterval = 0, ExemptOrigins = [], ExemptUserAgents = [], rl_ErrorMessage = [], MethodOverrides = [], IPHeaderOverride = []\<rparr>"

definition no_sender_limit :: SenderRateLimitConfig where
  "no_sender_limit = \<lparr>Enabled = False, sl_Interval = 0, sl_Limit = 0, AllowedChainIds = []\<rparr>"

definition example_server :: "(unit, ConsensusTrackerState, unit, 'l, unit) Server" where
  "example_server =
     (case NewServer (\<lambda>p. Inr (\<lambda>s. s = p)) [''main'' \<mapsto> (one_group, Some consensus_100)]
        [''eth_chainId'' \<mapsto> ''main'', ''eth_blockNumber'' \<mapsto> ''main'', ''eth_gasPrice'' \<mapsto> ''main''] 0 Map.empty 0 0 True None plain_limits plain_limits []
        no_sender_limit no_sender_limit 0 (\<lambda>slot dur mx prefix. Noop_Take) 0 (\<lambda>ctx l e i. rreturn (e, i, None)) [] of Inr s \<Rightarrow> s)"

definition example_text :: req_text where
  "example_text = \<lparr>json_RPCReq = (\<lambda>raw.
       if raw = ''1'' then Some (call ''1'' ''eth_chainId'') else if raw = ''2'' then Some (call ''2'' ''eth_blockNumber'')
       else if raw = ''3'' then Some (call ''3'' ''eth_gasPrice'') else if raw = ''4'' then Some (call ''4'' ''debug_dump'') else None),
     json_RawMessages = (\<lambda>raw. None)\<rparr>"

definition example_txlib :: "unit txlib" where
  "example_txlib = \<lparr>Bytes_UnmarshalText = Inr, tx_UnmarshalBinary = \<lambda>_. Inr (), tx_ChainId = \<lambda>_. 1, tx_Sender = \<lambda>_ _. Inr ''0x1'',
     tx_Nonce = \<lambda>_. 0, TxToInteropAccessList = \<lambda>_. [], tx_MarshalJSON = \<lambda>_. Inr [], ErrInvalidSender = Sentinel ''invalid sender''\<rparr>"

definition example_srv :: "'l \<Rightarrow> (unit, (Time \<times> bucket) list, unit, 'l, unit) srv" where
  "example_srv l = \<lparr>sv_env = (), sv_backends = example_backend, sv_cache = (), sv_lims = l, sv_interop = ()\<rparr>"

lemma admit_all_Admit:
  "admit W P B s ctx limited n raw st = rreturn (st1, Admit req grp) \<Longrightarrow>
   admit_all W P B s ctx limited n i (raw # raws) ids responses batches st =
     admit_all W P B s ctx limited n (Suc i) raws (ids(ID req := ids (ID req) + 1)) responses
       (add_elem (ids (ID req) + 1, grp) \<lparr>be_Req = req, be_Index = i\<rparr> batches) st1"
  by (simp add: Let_def)

lemma admit_all_Respond:
  "admit W P B s ctx limited n raw st = rreturn (st1, Respond res) \<Longrightarrow>
   admit_all W P B s ctx limited n i (raw # raws) ids responses batches st =
     admit_all W P B s ctx limited n (Suc i) raws ids (responses[i := Some res]) batches st1"
  by simp

lemma example_server_fields:
  "BackendGroups example_server = [''main'' \<mapsto> (one_group, Some consensus_100)]"
  "rpcMethodMappings example_server = [''eth_chainId'' \<mapsto> ''main'', ''eth_blockNumber'' \<mapsto> ''main'', ''eth_gasPrice'' \<mapsto> ''main'']"
  "maxUpstreamBatchSize example_server = 10" "maxBodySize example_server = 262144" "authenticatedPaths example_server = Map.empty"
  "overrideLims example_server = Map.empty" "highPrioOverrideLims example_server = Map.empty" "highPrioSigners example_server = []"
  "srv_cache example_server = NoopRPCCache" "mainLim example_server = Noop_Take" "globallyLimitedMethods example_server = []"
  "limExemptOrigins example_server = []" "limExemptUserAgents example_server = []" "rateLimitHeader example_server = ''X-Forwarded-For''"
  "allowedDynamicHeaders example_server = []" "timeout example_server = 10 * time_Second"
  "senderLim example_server = None" "interopSenderLim example_server = None" "maxBatchSize example_server = 100" "enableServedByHeader example_server"
  by (auto simp: example_server_def NewServer_def plain_limits_def no_sender_limit_def or_default_def defaultBodySizeLimit_def defaultMaxUpstreamBatchSize_def
      override_limiters_def defaultRateLimitHeader_def defaultRPCTimeout_def DefaultMaxBatchRPCCallsLimit_def MaxBatchRPCCallsHardLimit_def sender_limiter_def)

lemma example_minibatch: "minibatches 10 [a, b, c] = [[a, b, c]]"
proof -
  have "\<lceil>3 / 10 :: rat\<rceil> = 1" by (rule ceiling_unique) simp_all
  then show ?thesis by (simp add: minibatches_def Let_def)
qed

lemma example_valid: "i \<in> {''1'', ''2'', ''3'', ''4''} \<Longrightarrow> m \<noteq> [] \<Longrightarrow> ValidateRPCReq (call i m) = None"
  by (auto simp: ValidateRPCReq_def call_def JSONRPCVersion_def IsValidID_def quote_def)

lemma call_fields: "ID (call i m) = i" "Method (call i m) = m" by (simp_all add: call_def)

lemma example_texts:
  "json_RPCReq example_text ''1'' = Some (call ''1'' ''eth_chainId'')" "json_RPCReq example_text ''2'' = Some (call ''2'' ''eth_blockNumber'')"
  "json_RPCReq example_text ''3'' = Some (call ''3'' ''eth_gasPrice'')" "json_RPCReq example_text ''4'' = Some (call ''4'' ''debug_dump'')"
  by (simp_all add: example_text_def)

lemma example_admit:
  assumes "json_RPCReq example_text raw = Some (call i m)" and "i \<in> {''1'', ''2'', ''3'', ''4''}" and "m \<in> {''eth_chainId'', ''eth_blockNumber'', ''eth_gasPrice''}"
  shows "admit echo_world example_text example_txlib example_server no_ctx (\<lambda>m st. (st, False)) n raw st = rreturn (st, Admit (call i m) ''main'')"
proof -
  have m: "m \<noteq> []" "m \<noteq> proxydHealthzMethod" "m \<noteq> ''eth_accounts''" "m \<noteq> ''eth_sendRawTransaction''" "m \<noteq> ''eth_sendRawTransactionConditional''"
    "rpcMethodMappings example_server m = Some ''main''"
    using assms(3) by (auto simp: example_server_fields proxydHealthzMethod_def)
  show ?thesis
    by (simp add: admit_def ParseRPCReq_def assms(1) example_valid [OF assms(2) m(1)] call_fields m check_transaction_def example_server_fields(6))
qed

lemma example_refused:
  "admit echo_world example_text example_txlib example_server no_ctx (\<lambda>m st. (st, False)) n ''4'' st =
     rreturn (st, Respond (NewRPCErrorRes ''4'' (RpcE ErrMethodNotWhitelisted)))"
  by (simp add: admit_def ParseRPCReq_def example_texts example_valid call_fields example_server_fields proxydHealthzMethod_def)

lemma example_admitted:
  "admit_all echo_world example_text example_txlib example_server no_ctx (\<lambda>m st. (st, False)) 4 0 [''1'', ''2'', ''4'', ''3''] (\<lambda>_. 0) [None, None, None, None] []
     st =
   rreturn (st, Inr ([None, None, Some (NewRPCErrorRes ''4'' (RpcE ErrMethodNotWhitelisted)), None],
     [((1, ''main''), [\<lparr>be_Req = call ''1'' ''eth_chainId'', be_Index = 0\<rparr>, \<lparr>be_Req = call ''2'' ''eth_blockNumber'', be_Index = 1\<rparr>,
       \<lparr>be_Req = call ''3'' ''eth_gasPrice'', be_Index = 3\<rparr>])]))"
proof -
  let ?admit = "\<lambda>raw st. admit echo_world example_text example_txlib example_server no_ctx (\<lambda>m st. (st, False)) 4 raw st"
  have a: "?admit ''1'' st = rreturn (st, Admit (call ''1'' ''eth_chainId'') ''main'')" "?admit ''2'' st = rreturn (st, Admit (call ''2'' ''eth_blockNumber'') ''main'')"
    "?admit ''3'' st = rreturn (st, Admit (call ''3'' ''eth_gasPrice'') ''main'')" for st
    using example_admit [OF example_texts(1)] example_admit [OF example_texts(2)] example_admit [OF example_texts(3)] by simp_all
  show ?thesis
    unfolding admit_all_Admit [OF a(1)] admit_all_Admit [OF a(2)] admit_all_Respond [OF example_refused] admit_all_Admit [OF a(3)] admit_all.simps(1)
    by (simp add: call_fields add_elem_def numeral_eq_Suc)
qed

lemma example_ids:
  "response_id example_text n ''1'' = ''1''" "response_id example_text n ''2'' = ''2''" "response_id example_text n ''3'' = ''3''"
  "response_id example_text n ''4'' = ''4''"
  by (simp_all add: response_id_def example_texts example_valid call_fields)

theorem batch_responses_match_witness:
  "\<exists>st' responses cached served.
     handleBatchRPC echo_world rev_shuffler alist_lhm geth_ref memory_tracker example_text example_txlib (\<lambda>e ks. (e, ks)) example_server no_ctx
       (\<lambda>e. False) [''1'', ''2'', ''4'', ''3''] (\<lambda>m st. (st, False)) True (example_srv ()) = rreturn (st', Inr (responses, cached, served)) \<and>
     map (map_option rs_ID) responses = [Some ''1'', Some ''2'', Some ''4'', Some ''3'']"
proof -
  let ?reqs = "[''1'', ''2'', ''4'', ''3'']"
  have len: "length ?reqs = 4" "replicate 4 None = [None, None, None, None]" by (simp_all add: numeral_eq_Suc)
  obtain sbs where o: "w_order echo_world () [''main/a''] = ((), sbs)" by (metis old.unit.exhaust surj_pair)
  obtain e' bes' reqs' where f: "group_Forward echo_world rev_shuffler alist_lhm geth_ref memory_tracker no_ctx one_group (Some consensus_100) ()
     example_backend example_batch True =
   Return (e', bes', reqs', \<lparr>bgr_RPCRes = [NewRPCRes ''1'' (Val (JStr ''1'')), (NewRPCRes ''2'' (Uint64 100)), NewRPCRes ''3'' (Val (JStr ''3''))],
     ServedBy = ''main/a'', bgr_error = None\<rparr>)" using example_batch_served by blast
  have "\<exists>st' responses cached served.
     handleBatchRPC echo_world rev_shuffler alist_lhm geth_ref memory_tracker example_text example_txlib (\<lambda>e ks. (e, ks)) example_server no_ctx
       (\<lambda>e. False) ?reqs (\<lambda>m st. (st, False)) True (example_srv ()) = rreturn (st', Inr (responses, cached, served))"
    unfolding handleBatchRPC_def len example_admitted
    using f by (simp add: example_server_fields NoopRPCCache_def example_minibatch createBatchRequest_def
        example_batch_def [symmetric] Let_def example_srv_def NewRPCRes_def o) blast
  then obtain st' responses cached served where h:
     "handleBatchRPC echo_world rev_shuffler alist_lhm geth_ref memory_tracker example_text example_txlib (\<lambda>e ks. (e, ks)) example_server no_ctx
       (\<lambda>e. False) ?reqs (\<lambda>m st. (st, False)) True (example_srv ()) = rreturn (st', Inr (responses, cached, served))" by blast
  have "backends_answer echo_world alist_lhm geth_ref no_ctx True (set ?reqs)"
    unfolding backends_answer_def
  proof (intro allI impI, elim conjE)
    fix e b qs e' b' qs' rs assume f: "Forward echo_world alist_lhm geth_ref no_ctx e b qs True = Return (e', b', qs', Inr rs)" and i: "set (map ID qs) \<subseteq> set ?reqs"
    show "mset (map rs_ID rs) = mset (map ID qs)"
    proof (rule echo_world_answers [OF f])
      show "\<forall>q\<in>set qs. length (ID q) = 1" using i by auto
    qed
  qed
  then have "map (map_option rs_ID) responses = map (\<lambda>raw. Some (response_id example_text (length ?reqs) raw)) ?reqs"
    using batch_responses_match [OF h] by (simp add: example_server_fields cache_answers_def NoopRPCCache_def no_race_def example_ids)
  then show ?thesis using h by (auto simp: example_ids)
qed

text \<open>
  C18. Upstream batches. Every batch sent to a backend group has at most the configured size, no request id twice, and only requests whose method is
  mapped to that group; so the responses of a backend can be told apart by their ids.
\<close>

theorem upstream_batches_wellformed:
  assumes "admit_all W P B s ctx limited (length reqs) 0 reqs (\<lambda>_. 0) (replicate (length reqs) None) [] st = rreturn (st', Inr (responses, batches))"
    and "0 < maxUpstreamBatchSize s" and "map_of batches (k, grp) = Some batch"
    and "cache_lookups W s ctx batch st1 responses1 cached1 = (st2, responses2, cached2, misses)"
    and mb: "mb \<in> set (minibatches (maxUpstreamBatchSize s) misses)"
  shows "distinct (map ID (createBatchRequest mb)) \<and> int (length mb) \<le> maxUpstreamBatchSize s \<and>
    (\<forall>q\<in>set (createBatchRequest mb). rpcMethodMappings s (Method q) = Some grp)"
proof -
  obtain ids where ok: "batches_ok s (\<lambda>i. response_id P (length reqs) (reqs ! i)) (length reqs) ids batches"
    using admitted_batches(2) [OF assms(1)] by blast
  have b: "distinct (map (\<lambda>el. ID (be_Req el)) batch)" "\<forall>el\<in>set batch. rpcMethodMappings s (Method (be_Req el)) = Some grp"
    using ok assms(3) unfolding batches_ok_def by fastforce+
  obtain us vs where m: "misses = us @ mb @ vs" "int (length mb) \<le> maxUpstreamBatchSize s" using minibatches_size [OF assms(2) mb] by blast
  have "subseq mb batch" using cache_lookups_misses [OF assms(4)] unfolding m(1) by (rule subseq_middle)
  then show ?thesis using m(2) b subseq_distinct_map [of mb batch "\<lambda>el. ID (be_Req el)"]
    by (auto simp: createBatchRequest_def comp_def dest: list_emb_set)
qed

theorem upstream_batches_wellformed_witness:
  "minibatches 10 [\<lparr>be_Req = call ''1'' ''eth_chainId'', be_Index = 0\<rparr>, \<lparr>be_Req = call ''2'' ''eth_blockNumber'', be_Index = 1\<rparr>,
      \<lparr>be_Req = call ''3'' ''eth_gasPrice'', be_Index = 3\<rparr>] = [[\<lparr>be_Req = call ''1'' ''eth_chainId'', be_Index = 0\<rparr>,
      \<lparr>be_Req = call ''2'' ''eth_blockNumber'', be_Index = 1\<rparr>, \<lparr>be_Req = call ''3'' ''eth_gasPrice'', be_Index = 3\<rparr>]] \<and>
   distinct (map ID example_batch) \<and>
   list_all (\<lambda>q. rpcMethodMappings (example_server :: (unit, ConsensusTrackerState, unit, unit, unit) Server) (Method q) = Some ''main'') example_batch"
proof -
  let ?b = "[\<lparr>be_Req = call ''1'' ''eth_chainId'', be_Index = 0\<rparr>, \<lparr>be_Req = call ''2'' ''eth_blockNumber'', be_Index = 1\<rparr>,
      \<lparr>be_Req = call ''3'' ''eth_gasPrice'', be_Index = 3\<rparr>]" and ?reqs = "[''1'', ''2'', ''4'', ''3'']"
  have len: "length ?reqs = 4" "replicate 4 None = [None, None, None, None]" by (simp_all add: numeral_eq_Suc)
  have mb: "minibatches 10 ?b = [?b]" by (rule example_minibatch)
  have c: "cache_lookups echo_world example_server no_ctx ?b (example_srv ()) [] False = (example_srv (), [], False, ?b)"
    by (simp add: example_server_fields NoopRPCCache_def example_srv_def)
  have a: "admit_all echo_world example_text example_txlib example_server no_ctx (\<lambda>m st. (st, False)) (length ?reqs) 0 ?reqs (\<lambda>_. 0)
      (replicate (length ?reqs) None) [] (example_srv ()) =
    rreturn (example_srv (), Inr ([None, None, Some (NewRPCErrorRes ''4'' (RpcE ErrMethodNotWhitelisted)), None], [((1, ''main''), ?b)]))"
    unfolding len by (rule example_admitted)
  from upstream_batches_wellformed [OF a _ _ c, where k = 1 and grp = "''main''" and mb = ?b] mb
  have "distinct (map ID (createBatchRequest ?b)) \<and>
      (\<forall>q\<in>set (createBatchRequest ?b). rpcMethodMappings (example_server :: (unit, ConsensusTrackerState, unit, unit, unit) Server) (Method q) = Some ''main'')"
    by (simp add: example_server_fields(3))
  moreover have "createBatchRequest ?b = example_batch" by (simp add: createBatchRequest_def example_batch_def)
  ultimately show ?thesis using mb by (simp add: list_all_iff)
qed

text \<open>A request of nobody in particular, and cryptography under which a signature is the signer and the hash in clear.\<close>

definition plain_crypto :: crypto where
  "plain_crypto = \<lparr>hexutil_Decode = Inr, Keccak256Hash_Hex = \<lambda>b. b, TextHash = \<lambda>b. b,
     Ecrecover = \<lambda>h sig. if sig = ''alice'' @ [CHR 0x00] then Inr ''alice'' else Inl (Errorf ''recovery failed''),
     pubkey_address = Inr, HexToAddress = \<lambda>a. a, VerifySignature = \<lambda>k h sig. sig = k\<rparr>"

definition example_request :: "http_header \<Rightarrow> http_in" where
  "example_request h = \<lparr>in_header = (''X-Forwarded-For'', [''1.2.3.4'']) # h, RemoteAddr = ''1.2.3.4:80'', in_path = ''/'', in_query = [],
     in_vars = rpc_route ''/'', in_body = \<lparr>StatusCode = 0, body_bytes = ''{}'', body_err = None, body_eager = True\<rparr>\<rparr>"


lemma example_no_auth: "header_Get (in_header (example_request [])) FlashbotsAuthHeader = []"
  by code_simp


text \<open>
  A limit that only signers of high priority have is ignored: for a method without an ordinary override, the limits for high priority make no
  difference to any request, since the loop looks for an ordinary override before it asks for the limit.
\<close>

theorem high_prio_only_limit_ignored:
  assumes "\<forall>req. json_RPCReq P raw = Some req \<longrightarrow> overrideLims s (Method req) = None"
  shows "admit W P B s ctx (isLimited W s unlimited signer xff) n raw st =
    admit W P B (s\<lparr>highPrioOverrideLims := X\<rparr>) ctx (isLimited W (s\<lparr>highPrioOverrideLims := X\<rparr>) unlimited signer xff) n raw st"
proof -
  have "isLimited W (s\<lparr>highPrioOverrideLims := X\<rparr>) unlimited signer xff [] st = isLimited W s unlimited signer xff [] st"
    by (simp add: isLimited_def isGlobalLimit_def)
  then show ?thesis using assms unfolding admit_high_prio by (auto simp: admit_def ParseRPCReq_def split: option.split)
qed


definition deny_high_prio :: "(unit, ConsensusTrackerState, unit, unit, unit) Server" where
  "deny_high_prio = example_server\<lparr>highPrioSigners := [''alice''], highPrioOverrideLims := [''eth_chainId'' \<mapsto> \<lambda>t l k. (l, False, None)]\<rparr>"

theorem high_prio_only_limit_ignored_witness:
  "overrideLims deny_high_prio ''eth_chainId'' = None \<and> highPrioOverrideLims deny_high_prio ''eth_chainId'' \<noteq> None \<and>
   admit echo_world example_text example_txlib deny_high_prio no_ctx (isLimited echo_world deny_high_prio False ''alice'' ''1.2.3.4'') 1 ''1'' (example_srv ()) =
     rreturn (example_srv (), Admit (call ''1'' ''eth_chainId'') ''main'')"
proof -
  have f: "rpcMethodMappings deny_high_prio = rpcMethodMappings (example_server :: (unit, ConsensusTrackerState, unit, unit, unit) Server)"
    "overrideLims deny_high_prio = Map.empty" "mainLim deny_high_prio = Noop_Take" "globallyLimitedMethods deny_high_prio = []"
    by (simp_all add: deny_high_prio_def example_server_fields)
  have "admit echo_world example_text example_txlib deny_high_prio no_ctx (isLimited echo_world deny_high_prio False ''alice'' ''1.2.3.4'') 1 ''1'' (example_srv ()) =
      admit echo_world example_text example_txlib (deny_high_prio\<lparr>highPrioOverrideLims := Map.empty\<rparr>) no_ctx
        (isLimited echo_world (deny_high_prio\<lparr>highPrioOverrideLims := Map.empty\<rparr>) False ''alice'' ''1.2.3.4'') 1 ''1'' (example_srv ())"
    by (rule high_prio_only_limit_ignored) (simp add: f)
  also have "\<dots> = rreturn (example_srv (), Admit (call ''1'' ''eth_chainId'') ''main'')"
    by (simp add: admit_def ParseRPCReq_def example_texts example_valid call_fields f example_server_fields(2) isLimited_def isGlobalLimit_def
        take_limit_def Noop_Take_def check_transaction_def proxydHealthzMethod_def example_srv_def)
  finally show ?thesis by (simp add: f) (simp add: deny_high_prio_def)
qed

text \<open>
  C17. Forged signatures have no effect. A request with a signature header that is not a signature of its body by the address it names changes
  nothing, takes from no rate limit, and is answered with an error status.
\<close>

theorem forged_request_no_effect:
  assumes "header_Get (in_header r) FlashbotsAuthHeader \<noteq> []"
    and "\<forall>a. \<not> signed_by K (header_Get (in_header r) FlashbotsAuthHeader) (body_bytes (in_body r)) a"
  shows "\<exists>out. HandleRPC W S L G T P B K order s reqID r st = rreturn (st, out) \<and> 400 \<le> out_status out"
proof -
  have "VerifyFlashbotsAuth K (header_Get (in_header r) FlashbotsAuthHeader) (body_bytes (in_body r)) \<noteq> Inr a" for a
    using assms(2) by (simp add: VerifyFlashbotsAuth_iff)
  then obtain err where v: "VerifyFlashbotsAuth K (header_Get (in_header r) FlashbotsAuthHeader) (body_bytes (in_body r)) = Inl err"
    by (metis sum.exhaust)
  have b: "body = body_bytes (in_body r)" if "ReadAll_limited n (in_body r) = Inr body" for n body
    using that by (auto simp: ReadAll_limited_def Let_def split: if_splits option.splits)
  have status: "400 \<le> out_status (writeRPCError [] (RpcE er))" if "400 \<le> HTTPErrorCode er" for er
    using that by (simp add: writeRPCError_def writeRPCRes_def NewRPCErrorRes_def)
  have codes: "400 \<le> HTTPErrorCode ErrFlashbotsSignature" "400 \<le> HTTPErrorCode ErrInternal" "400 \<le> HTTPErrorCode ErrRequestBodyTooLarge"
    "400 \<le> HTTPErrorCode (ErrInvalidRequest m)" for m by (simp_all add: err_defs)
  show ?thesis
    using assms(1) v b status codes by (auto simp: HandleRPC_def Let_def split: option.split sum.split)
qed

lemma example_forged: "header_Get (in_header (example_request [(''X-Flashbots-Signature'', [''bob:x''])])) FlashbotsAuthHeader = ''bob:x''"
  by code_simp

theorem forged_request_no_effect_witness:
  "\<exists>out. HandleRPC echo_world rev_shuffler alist_lhm geth_ref memory_tracker example_text example_txlib plain_crypto (\<lambda>e ks. (e, ks)) example_server
     ''id'' (example_request [(''X-Flashbots-Signature'', [''bob:x''])]) (example_srv ()) = rreturn (example_srv (), out) \<and> 400 \<le> out_status out"
proof (rule forged_request_no_effect)
  show "header_Get (in_header (example_request [(''X-Flashbots-Signature'', [''bob:x''])])) FlashbotsAuthHeader \<noteq> []" by (simp add: example_forged)
  have "VerifyFlashbotsAuth plain_crypto ''bob:x'' b \<noteq> Inr a" for a b
    by (simp add: VerifyFlashbotsAuth_def plain_crypto_def strings_Cut_def recovery_id_def Let_def)
  then show "\<forall>a. \<not> signed_by plain_crypto (header_Get (in_header (example_request [(''X-Flashbots-Signature'', [''bob:x''])])) FlashbotsAuthHeader)
      (body_bytes (in_body (example_request [(''X-Flashbots-Signature'', [''bob:x''])]))) a"
    by (simp add: example_forged VerifyFlashbotsAuth_iff [symmetric])
qed

text \<open>
  C35. With authenticated paths configured, every RPC request is refused, the right secret in its path included: the RPC route names the path
  \<open>path\<close>, and the secret is looked for under \<open>authorization\<close>, which only the websocket route has.
\<close>

theorem authenticated_rpc_blocked:
  assumes "authenticatedPaths s \<noteq> Map.empty" and "in_vars r = rpc_route path"
  shows "HandleRPC W S L G T P B K order s reqID r st = rreturn (st, \<lparr>out_status = 401, out_header = [], out_body = NoBody\<rparr>)"
  using assms by (simp add: HandleRPC_def populateContext_def rpc_route_def Let_def)

theorem authenticated_rpc_blocked_witness:
  "HandleRPC echo_world rev_shuffler alist_lhm geth_ref memory_tracker example_text example_txlib plain_crypto (\<lambda>e ks. (e, ks))
     (example_server\<lparr>authenticatedPaths := [''secret'' \<mapsto> ''alice'']\<rparr>) ''id'' (example_request []\<lparr>in_path := ''/secret'', in_vars := rpc_route ''/secret''\<rparr>)
     (example_srv ()) = rreturn (example_srv (), \<lparr>out_status = 401, out_header = [], out_body = NoBody\<rparr>)"
  by (rule authenticated_rpc_blocked [where path = "''/secret''"]) simp_all

end
