(* ===== verification/Websocket.thy ===== *)
theory Websocket
  imports Server
begin

section \<open>The websocket proxy\<close>

text \<open>
  Models the websocket side: \<^verbatim>\<open>HandleWS\<close> of \<^verbatim>\<open>src/server.go\<close>, \<^verbatim>\<open>ProxyWS\<close> of a group and of a
  backend and the type \<^verbatim>\<open>WSProxier\<close> of \<^verbatim>\<open>src/backend.go\<close>. The connections of gorilla/websocket are a parameter with
  their documented laws. The two pumps and the goroutine that closes the connections are a step relation; one step of a pump is one turn of
  its loop.
\<close>

subsection \<open>Connections\<close>

text \<open>
  What is used of a connection. Which message or error \<open>ReadMessage\<close> returns is up to the network, so reading is a relation: the type of the
  message, its bytes, the error. \<open>as_CloseError\<close> is the type assertion to \<open>*websocket.CloseError\<close>, its code and text.
\<close>

record 'k websocket =
  ws_ReadMessage :: "'k \<Rightarrow> int \<Rightarrow> string \<Rightarrow> err option \<Rightarrow> 'k \<Rightarrow> bool"
  ws_SetWriteDeadline :: "Time \<Rightarrow> 'k \<Rightarrow> 'k \<times> err option"
  ws_WriteMessage :: "int \<Rightarrow> string \<Rightarrow> 'k \<Rightarrow> 'k \<times> err option"
  ws_Close :: "'k \<Rightarrow> 'k"
  ws_SetReadLimit :: "int \<Rightarrow> 'k \<Rightarrow> 'k"
  FormatCloseMessage :: "int \<Rightarrow> string \<Rightarrow> string"
  as_CloseError :: "err \<Rightarrow> (int \<times> string) option"

text \<open>The numbers of RFC 6455.\<close>

abbreviation TextMessage :: int where "TextMessage \<equiv> 1"
abbreviation BinaryMessage :: int where "BinaryMessage \<equiv> 2"
abbreviation CloseMessage :: int where "CloseMessage \<equiv> 8"
abbreviation CloseNormalClosure :: int where "CloseNormalClosure \<equiv> 1000"
abbreviation CloseNoStatusReceived :: int where "CloseNoStatusReceived \<equiv> 1005"

text \<open>The text of responses.\<close>

record res_text =
  json_RPCRes :: "string \<Rightarrow> RPCRes option"
  res_Marshal :: "RPCRes \<Rightarrow> string"

subsection \<open>The proxier\<close>

definition defaultWSReadTimeout :: Duration where
  "defaultWSReadTimeout = 2 * 60 * time_Second"

definition defaultWSWriteTimeout :: Duration where
  "defaultWSWriteTimeout = 10 * time_Second"

record 'k WSProxier =
  wp_backend :: string
  clientConn :: 'k
  backendConn :: 'k
  methodWhitelist :: StringSet
  readTimeout :: Duration
  writeTimeout :: Duration

definition NewWSProxier :: "string \<Rightarrow> 'k \<Rightarrow> 'k \<Rightarrow> StringSet \<Rightarrow> 'k WSProxier" where
  "NewWSProxier b client back wl =
     \<lparr>wp_backend = b, clientConn = client, backendConn = back, methodWhitelist = wl, readTimeout = defaultWSReadTimeout,
      writeTimeout = defaultWSWriteTimeout\<rparr>"

definition ws_write :: "'k websocket \<Rightarrow> Time \<Rightarrow> int \<Rightarrow> string \<Rightarrow> 'k \<Rightarrow> 'k \<times> err option" where
  "ws_write X deadline msgType msg k =
     (case ws_SetWriteDeadline X deadline k of
        (k1, Some err) \<Rightarrow> (k1, Some err)
      | (k1, None) \<Rightarrow> ws_WriteMessage X msgType msg k1)"

definition writeClientConn :: "'k websocket \<Rightarrow> Time \<Rightarrow> int \<Rightarrow> string \<Rightarrow> 'k WSProxier \<Rightarrow> 'k WSProxier \<times> err option" where
  "writeClientConn X now msgType msg w =
     (case ws_write X (now + writeTimeout w) msgType msg (clientConn w) of (k, err) \<Rightarrow> (w\<lparr>clientConn := k\<rparr>, err))"

definition writeBackendConn :: "'k websocket \<Rightarrow> Time \<Rightarrow> int \<Rightarrow> string \<Rightarrow> 'k WSProxier \<Rightarrow> 'k WSProxier \<times> err option" where
  "writeBackendConn X now msgType msg w =
     (case ws_write X (now + writeTimeout w) msgType msg (backendConn w) of (k, err) \<Rightarrow> (w\<lparr>backendConn := k\<rparr>, err))"

definition formatWSError :: "'k websocket \<Rightarrow> err \<Rightarrow> string" where
  "formatWSError X err =
     (case as_CloseError X err of
        Some (code, txt) \<Rightarrow>
          if code \<noteq> CloseNoStatusReceived then FormatCloseMessage X code txt else FormatCloseMessage X CloseNormalClosure (err_text err)
      | None \<Rightarrow> FormatCloseMessage X CloseNormalClosure (err_text err))"

definition prepareClientMsg :: "req_text \<Rightarrow> StringSet \<Rightarrow> string \<Rightarrow> RPCReq option \<times> err option" where
  "prepareClientMsg P wl msg =
     (case ParseRPCReq P msg of
        Inl err \<Rightarrow> (None, Some err)
      | Inr req \<Rightarrow> if \<not> StringSet_Has wl (Method req) then (Some req, Some (RpcE ErrMethodNotWhitelisted)) else (Some req, None))"

definition parseBackendMsg :: "res_text \<Rightarrow> string \<Rightarrow> RPCRes option \<times> err option" where
  "parseBackendMsg Q msg =
     (case json_RPCRes Q msg of None \<Rightarrow> (None, Some (RpcE ErrBackendBadResponse)) | Some res \<Rightarrow> (Some res, None))"

text \<open>
  One turn of \<open>clientPump\<close> after \<open>ReadMessage\<close> returned: the new proxier, and the error that is sent to the channel before the
  goroutine ends. After a read error and a close message to the backend the turn goes on with what was read.
\<close>

definition client_message :: "'k websocket \<Rightarrow> req_text \<Rightarrow> res_text \<Rightarrow> Time \<Rightarrow> int \<Rightarrow> string \<Rightarrow> 'k WSProxier \<Rightarrow> 'k WSProxier \<times> err option" where
  "client_message X P Q now msgType msg w =
     (if msgType \<noteq> TextMessage \<and> msgType \<noteq> BinaryMessage then writeBackendConn X now msgType msg w
      else case prepareClientMsg P (methodWhitelist w) msg of
        (req, Some err) \<Rightarrow>
          writeClientConn X now msgType (res_Marshal Q (NewRPCErrorRes (case req of None \<Rightarrow> [] | Some r \<Rightarrow> ID r) err)) w
      | (req, None) \<Rightarrow>
          if Method (the req) = ''eth_accounts''
          then writeClientConn X now msgType (res_Marshal Q (NewRPCRes (ID (the req)) (Raw ''[]''))) w
          else writeBackendConn X now msgType msg w)"

definition client_turn ::
  "'k websocket \<Rightarrow> req_text \<Rightarrow> res_text \<Rightarrow> Time \<Rightarrow> int \<Rightarrow> string \<Rightarrow> err option \<Rightarrow> 'k WSProxier \<Rightarrow> 'k WSProxier \<times> err option" where
  "client_turn X P Q now msgType msg err w =
     (case err of
        Some e \<Rightarrow>
          (case writeBackendConn X now CloseMessage (formatWSError X e) w of
             (w1, Some err') \<Rightarrow> (w1, Some err')
           | (w1, None) \<Rightarrow> client_message X P Q now msgType msg w1)
      | None \<Rightarrow> client_message X P Q now msgType msg w)"

definition backend_message :: "'k websocket \<Rightarrow> res_text \<Rightarrow> Time \<Rightarrow> int \<Rightarrow> string \<Rightarrow> 'k WSProxier \<Rightarrow> 'k WSProxier \<times> err option" where
  "backend_message X Q now msgType msg w =
     (if msgType \<noteq> TextMessage \<and> msgType \<noteq> BinaryMessage then writeClientConn X now msgType msg w
      else case parseBackendMsg Q msg of
        (res, Some err) \<Rightarrow> writeClientConn X now msgType (res_Marshal Q (NewRPCErrorRes (case res of None \<Rightarrow> [] | Some r \<Rightarrow> rs_ID r) err)) w
      | (res, None) \<Rightarrow> writeClientConn X now msgType msg w)"

definition backend_turn :: "'k websocket \<Rightarrow> res_text \<Rightarrow> Time \<Rightarrow> int \<Rightarrow> string \<Rightarrow> err option \<Rightarrow> 'k WSProxier \<Rightarrow> 'k WSProxier \<times> err option" where
  "backend_turn X Q now msgType msg err w =
     (case err of
        Some e \<Rightarrow>
          (case writeClientConn X now CloseMessage (formatWSError X e) w of
             (w1, Some err') \<Rightarrow> (w1, Some err')
           | (w1, None) \<Rightarrow> backend_message X Q now msgType msg w1)
      | None \<Rightarrow> backend_message X Q now msgType msg w)"

definition ws_close :: "'k websocket \<Rightarrow> 'k WSProxier \<Rightarrow> 'k WSProxier" where
  "ws_close X w = w\<lparr>clientConn := ws_Close X (clientConn w), backendConn := ws_Close X (backendConn w)\<rparr>"

text \<open>
  The state of \<open>Proxy\<close>: which pumps run, the channel of errors, what \<open>Proxy\<close> returned; and, for the statements, what the pumps read.
\<close>

record 'k proxying =
  px_proxier :: "'k WSProxier"
  px_client :: bool
  px_backend :: bool
  px_errC :: "err list"
  px_result :: "err option"
  px_client_reads :: "(int \<times> string \<times> err option) list"
  px_backend_reads :: "(int \<times> string \<times> err option) list"

definition proxy_start :: "'k WSProxier \<Rightarrow> 'k proxying" where
  "proxy_start w = \<lparr>px_proxier = w, px_client = True, px_backend = True, px_errC = [], px_result = None, px_client_reads = [], px_backend_reads = []\<rparr>"

text \<open>A pump that ends sends its error; \<open>errC\<close> has room for both.\<close>

definition send_error :: "err option \<Rightarrow> err list \<Rightarrow> err list" where
  "send_error err q = (case err of None \<Rightarrow> q | Some e \<Rightarrow> q @ [e])"

inductive proxy_step :: "'k websocket \<Rightarrow> req_text \<Rightarrow> res_text \<Rightarrow> 'k proxying \<Rightarrow> 'k proxying \<Rightarrow> bool"
  for X P Q where
  client_pump: "px_client s \<Longrightarrow> ws_ReadMessage X (clientConn (px_proxier s)) t m err k \<Longrightarrow>
    client_turn X P Q now t m err ((px_proxier s)\<lparr>clientConn := k\<rparr>) = (w, r) \<Longrightarrow>
    proxy_step X P Q s (s\<lparr>px_proxier := w, px_client := (r = None), px_errC := send_error r (px_errC s),
      px_client_reads := px_client_reads s @ [(t, m, err)]\<rparr>)"
| backend_pump: "px_backend s \<Longrightarrow> ws_ReadMessage X (backendConn (px_proxier s)) t m err k \<Longrightarrow>
    backend_turn X Q now t m err ((px_proxier s)\<lparr>backendConn := k\<rparr>) = (w, r) \<Longrightarrow>
    proxy_step X P Q s (s\<lparr>px_proxier := w, px_backend := (r = None), px_errC := send_error r (px_errC s),
      px_backend_reads := px_backend_reads s @ [(t, m, err)]\<rparr>)"
| proxy_close: "px_result s = None \<Longrightarrow> px_errC s = err # rest \<Longrightarrow>
    proxy_step X P Q s (s\<lparr>px_proxier := ws_close X (px_proxier s), px_errC := rest, px_result := Some err\<rparr>)"

inductive proxy_reach :: "'k websocket \<Rightarrow> req_text \<Rightarrow> res_text \<Rightarrow> 'k proxying \<Rightarrow> 'k proxying \<Rightarrow> bool"
  for X P Q s0 where
  start: "proxy_reach X P Q s0 s0"
| step: "proxy_reach X P Q s0 s \<Longrightarrow> proxy_step X P Q s t \<Longrightarrow> proxy_reach X P Q s0 t"

subsection \<open>Dialling\<close>

text \<open>\<open>Dial\<close> of the dialer is a parameter.\<close>

definition backend_ProxyWS ::
  "('e \<Rightarrow> string \<Rightarrow> 'e \<times> (err + 'k)) \<Rightarrow> 'm Backend \<Rightarrow> 'k \<Rightarrow> StringSet \<Rightarrow> 'e \<Rightarrow> 'e \<times> (err + 'k WSProxier)" where
  "backend_ProxyWS dial b client wl e =
     (case dial e (wsURL b) of
        (e1, Inl err) \<Rightarrow> (e1, Inl (wrapErr (Some err) ''error dialing backend''))
      | (e1, Inr conn) \<Rightarrow> (e1, Inr (NewWSProxier (Name b) client conn wl)))"

text \<open>The loop over the backends: all errors go on to the next one, they differ in what is logged.\<close>

fun proxy_ws_loop ::
  "('e \<Rightarrow> string \<Rightarrow> 'e \<times> (err + 'k)) \<Rightarrow> (string \<Rightarrow> 'm Backend) \<Rightarrow> 'k \<Rightarrow> StringSet \<Rightarrow> string list \<Rightarrow> 'e \<Rightarrow> 'e \<times> (err + 'k WSProxier)" where
  "proxy_ws_loop dial bes client wl [] e = (e, Inl (RpcE ErrNoBackends))"
| "proxy_ws_loop dial bes client wl (b # bs) e =
     (case backend_ProxyWS dial (bes b) client wl e of
        (e1, Inl err) \<Rightarrow> proxy_ws_loop dial bes client wl bs e1
      | (e1, Inr proxier) \<Rightarrow> (e1, Inr proxier))"

definition group_ProxyWS ::
  "('e \<Rightarrow> string \<Rightarrow> 'e \<times> (err + 'k)) \<Rightarrow> BackendGroup \<Rightarrow> (string \<Rightarrow> 'm Backend) \<Rightarrow> 'k \<Rightarrow> StringSet \<Rightarrow> 'e \<Rightarrow> 'e \<times> (err + 'k WSProxier)" where
  "group_ProxyWS dial bg bes client wl e = proxy_ws_loop dial bes client wl (Backends bg) e"

text \<open>
  The websocket server has the routes \<open>/\<close> and \<open>/{authorization}\<close>. \<open>Upgrade\<close> is a parameter; without a connection it has answered
  the request. \<open>HandleWS\<close> starts a proxier, or leaves what became of the client connection.
\<close>

definition ws_route :: "string \<Rightarrow> (string \<rightharpoonup> string) option" where
  "ws_route path =
     (if path = ''/'' then Some Map.empty
      else if path \<noteq> [] \<and> hd path = CHR ''/'' \<and> CHR ''/'' \<notin> set (tl path) then Some [''authorization'' \<mapsto> tl path] else None)"

datatype 'k ws_outcome = Unauthorized | NotUpgraded | NoBackendDialled 'k | Proxying "'k WSProxier"

definition HandleWS ::
  "'k websocket \<Rightarrow> ('e \<Rightarrow> http_in \<Rightarrow> 'e \<times> (err + 'k)) \<Rightarrow> ('e \<Rightarrow> string \<Rightarrow> 'e \<times> (err + 'k)) \<Rightarrow> ('e, 't, 'c, 'l, 'i) Server \<Rightarrow> BackendGroup option \<Rightarrow> StringSet
    \<Rightarrow> string \<Rightarrow> http_in \<Rightarrow> ('e, 'm, 'c, 'l, 'i) srv \<Rightarrow> (('e, 'm, 'c, 'l, 'i) srv \<times> 'k ws_outcome) outcome" where
  "HandleWS X upgrade dial s wsBackendGroup wsMethodWhitelist reqID r st =
     (case populateContext s reqID r of
        None \<Rightarrow> Return (st, Unauthorized)
      | Some ctx \<Rightarrow>
          (case upgrade (sv_env st) r of
             (e1, Inl err) \<Rightarrow> Return (st\<lparr>sv_env := e1\<rparr>, NotUpgraded)
           | (e1, Inr conn) \<Rightarrow>
               let client = ws_SetReadLimit X (maxBodySize s) conn
               in case wsBackendGroup of
                    None \<Rightarrow> Panic ''nil pointer dereference''
                  | Some bg \<Rightarrow>
                      (case group_ProxyWS dial bg (sv_backends st) client wsMethodWhitelist e1 of
                         (e2, Inl err) \<Rightarrow> Return (st\<lparr>sv_env := e2\<rparr>, NoBackendDialled (ws_Close X client))
                       | (e2, Inr proxier) \<Rightarrow> Return (st\<lparr>sv_env := e2\<rparr>, Proxying proxier))))"

subsection \<open>What is forwarded, answered and relayed\<close>

text \<open>The messages that go to the backend, the answers the client gets from the proxy itself, and what it gets of a message of the backend.\<close>

definition forwards :: "req_text \<Rightarrow> StringSet \<Rightarrow> int \<times> string \<times> err option \<Rightarrow> bool" where
  "forwards P wl x = (case x of (t, m, err) \<Rightarrow> (t = TextMessage \<or> t = BinaryMessage) \<and>
     (case json_RPCReq P m of None \<Rightarrow> False | Some req \<Rightarrow> StringSet_Has wl (Method req) \<and> Method req \<noteq> ''eth_accounts''))"

definition forwarded :: "req_text \<Rightarrow> StringSet \<Rightarrow> (int \<times> string \<times> err option) list \<Rightarrow> (int \<times> string) list" where
  "forwarded P wl reads = map (\<lambda>(t, m, err). (t, m)) (filter (\<lambda>x. forwards P wl x \<and> snd (snd x) = None) reads)"

definition answer :: "req_text \<Rightarrow> res_text \<Rightarrow> StringSet \<Rightarrow> int \<times> string \<times> err option \<Rightarrow> (int \<times> string) list" where
  "answer P Q wl x = (case x of (t, m, err) \<Rightarrow>
     if t = TextMessage \<or> t = BinaryMessage then
       (case json_RPCReq P m of
          None \<Rightarrow> [(t, res_Marshal Q (NewRPCErrorRes [] (RpcE ErrParseErr)))]
        | Some req \<Rightarrow>
            if \<not> StringSet_Has wl (Method req) then [(t, res_Marshal Q (NewRPCErrorRes (ID req) (RpcE ErrMethodNotWhitelisted)))]
            else if Method req = ''eth_accounts'' then [(t, res_Marshal Q (NewRPCRes (ID req) (Raw ''[]'')))] else [])
     else [])"

definition relay :: "res_text \<Rightarrow> int \<times> string \<times> err option \<Rightarrow> (int \<times> string) list" where
  "relay Q x = (case x of (t, m, err) \<Rightarrow>
     if t = TextMessage \<or> t = BinaryMessage
     then [(t, case json_RPCRes Q m of None \<Rightarrow> res_Marshal Q (NewRPCErrorRes [] (RpcE ErrBackendBadResponse)) | Some res \<Rightarrow> m)] else [])"

lemma forwarded_snoc:
  "forwarded P wl (xs @ [(t, m, err)]) = forwarded P wl xs @ (if forwards P wl (t, m, err) \<and> err = None then [(t, m)] else [])"
  "forwarded P wl [] = []"
  by (cases err; simp add: forwarded_def)+

text \<open>The reads whose turn went on; the read errors.\<close>

definition turns_done :: "bool \<Rightarrow> 'a list \<Rightarrow> 'a list" where
  "turns_done running xs = (if running then xs else butlast xs)"

lemma turns_done_simps [simp]: "turns_done True xs = xs" "turns_done False (xs @ [x]) = xs" "turns_done b [] = []"
  by (simp_all add: turns_done_def)

lemma turns_done_snoc: "turns_done b (xs @ [x]) = xs @ (if b then [x] else [])"
  by (simp add: turns_done_def)

definition read_errors :: "(int \<times> string \<times> err option) list \<Rightarrow> nat" where
  "read_errors xs = length (filter (\<lambda>(t, m, err). err \<noteq> None) xs)"

lemma read_errors_simps [simp]:
  "read_errors [] = 0" "read_errors (xs @ [(t, m, err)]) = read_errors xs + (if err = None then 0 else 1)"
  by (simp_all add: read_errors_def)

lemma snoc_shuffles_single: "bs @ [x] \<in> shuffles [x] bs"
  by (induction bs) auto

lemma snoc_shuffles: "xs \<in> shuffles as bs \<Longrightarrow> xs @ [x] \<in> shuffles (as @ [x]) bs"
proof (induction as bs arbitrary: xs rule: shuffles.induct)
  case (1 bs)
  then show ?case using snoc_shuffles_single by simp
next
  case (2 as)
  then show ?case by simp
next
  case (3 a as b bs)
  then show ?case by (auto simp: Cons_in_shuffles_iff)
qed

lemma append_shuffles: "xs \<in> shuffles as bs \<Longrightarrow> xs @ zs \<in> shuffles (as @ zs) bs"
proof (induction zs arbitrary: xs as)
  case (Cons z zs)
  from Cons.IH [OF snoc_shuffles [OF Cons.prems]] show ?case by simp
qed simp

lemma append_shuffles2: "xs \<in> shuffles as bs \<Longrightarrow> xs @ zs \<in> shuffles as (bs @ zs)"
  using append_shuffles shuffles_commutes by metis

subsection \<open>The laws of connections\<close>

text \<open>
  \<open>data k\<close> are the text and binary messages written to \<open>k\<close>. A connection is \<open>finished\<close> once a close message was written to it or it was
  closed: every write fails then. It is \<open>broken\<close> once reading failed or it was closed: read errors are permanent. Reading may write control
  messages, the answers to pings and close messages.
\<close>

locale websocket_conn =
  fixes X :: "'k websocket" and data :: "'k \<Rightarrow> (int \<times> string) list" and finished :: "'k \<Rightarrow> bool" and broken :: "'k \<Rightarrow> bool"
  assumes write_ok: "ws_WriteMessage X t m k = (k', None) \<Longrightarrow>
      \<not> finished k \<and> data k' = data k @ (if t = TextMessage \<or> t = BinaryMessage then [(t, m)] else []) \<and> (t = CloseMessage \<longrightarrow> finished k') \<and>
      (broken k \<longrightarrow> broken k')"
    and write_fail: "ws_WriteMessage X t m k = (k', Some e) \<Longrightarrow> data k' = data k \<and> (finished k \<longrightarrow> finished k') \<and> (broken k \<longrightarrow> broken k')"
    and deadline: "ws_SetWriteDeadline X d k = (k', r) \<Longrightarrow> data k' = data k \<and> (finished k \<longrightarrow> finished k') \<and> (broken k \<longrightarrow> broken k')"
    and read: "ws_ReadMessage X k t m err k' \<Longrightarrow>
      data k' = data k \<and> (finished k \<longrightarrow> finished k') \<and> (err \<noteq> None \<longrightarrow> broken k') \<and> (broken k \<longrightarrow> broken k' \<and> err \<noteq> None)"
    and closed: "data (ws_Close X k) = data k \<and> finished (ws_Close X k) \<and> broken (ws_Close X k)"
begin

lemma write_cases:
  assumes "ws_write X d t m k = (k', r)"
  shows "data k' = data k @ (if r = None \<and> (t = TextMessage \<or> t = BinaryMessage) then [(t, m)] else []) \<and>
    (r = None \<longrightarrow> \<not> finished k \<and> (t = CloseMessage \<longrightarrow> finished k')) \<and> (finished k \<longrightarrow> finished k') \<and> (broken k \<longrightarrow> broken k')"
proof -
  obtain k1 r1 where d: "ws_SetWriteDeadline X d k = (k1, r1)" by (metis surj_pair)
  note dl = deadline [OF d]
  show ?thesis
  proof (cases r1)
    case (Some e)
    then show ?thesis using assms d dl by (auto simp: ws_write_def)
  next
    case None
    then have w: "ws_WriteMessage X t m k1 = (k', r)" using assms d by (simp add: ws_write_def)
    show ?thesis
    proof (cases r)
      case None
      note ok = write_ok [OF w [unfolded None]]
      then show ?thesis using dl None by auto
    next
      case (Some e)
      note fail = write_fail [OF w [unfolded Some]]
      then show ?thesis using dl Some by simp
    qed
  qed
qed

lemma write_finished: "finished k \<Longrightarrow> ws_write X d t m k = (k', r) \<Longrightarrow> r \<noteq> None"
  using write_cases by blast

text \<open>One turn of each pump, in these terms.\<close>

lemma writeClient_cases:
  assumes "writeClientConn X now t m w = (w', r)"
  shows "data (clientConn w') = data (clientConn w) @ (if r = None \<and> (t = TextMessage \<or> t = BinaryMessage) then [(t, m)] else []) \<and>
    (r = None \<longrightarrow> \<not> finished (clientConn w) \<and> (t = CloseMessage \<longrightarrow> finished (clientConn w'))) \<and>
    (finished (clientConn w) \<longrightarrow> finished (clientConn w')) \<and> (broken (clientConn w) \<longrightarrow> broken (clientConn w')) \<and>
    backendConn w' = backendConn w \<and> methodWhitelist w' = methodWhitelist w"
proof -
  obtain k e where k: "ws_write X (now + writeTimeout w) t m (clientConn w) = (k, e)" by (metis surj_pair)
  show ?thesis using write_cases [OF k] assms k by (auto simp: writeClientConn_def)
qed

lemma writeBackend_cases:
  assumes "writeBackendConn X now t m w = (w', r)"
  shows "data (backendConn w') = data (backendConn w) @ (if r = None \<and> (t = TextMessage \<or> t = BinaryMessage) then [(t, m)] else []) \<and>
    (r = None \<longrightarrow> \<not> finished (backendConn w) \<and> (t = CloseMessage \<longrightarrow> finished (backendConn w'))) \<and>
    (finished (backendConn w) \<longrightarrow> finished (backendConn w')) \<and> (broken (backendConn w) \<longrightarrow> broken (backendConn w')) \<and>
    clientConn w' = clientConn w \<and> methodWhitelist w' = methodWhitelist w"
proof -
  obtain k e where k: "ws_write X (now + writeTimeout w) t m (backendConn w) = (k, e)" by (metis surj_pair)
  show ?thesis using write_cases [OF k] assms k by (auto simp: writeBackendConn_def)
qed

definition keeps :: "'k WSProxier \<Rightarrow> 'k WSProxier \<Rightarrow> bool" where
  "keeps w w' \<longleftrightarrow> methodWhitelist w' = methodWhitelist w \<and> (finished (clientConn w) \<longrightarrow> finished (clientConn w')) \<and>
     (finished (backendConn w) \<longrightarrow> finished (backendConn w')) \<and> (broken (clientConn w) \<longrightarrow> broken (clientConn w')) \<and>
     (broken (backendConn w) \<longrightarrow> broken (backendConn w'))"

lemma client_message_spec:
  assumes "client_message X P Q now t m w = (w', r)"
  shows "keeps w w' \<and>
    data (backendConn w') = data (backendConn w) @ (if r = None \<and> forwards P (methodWhitelist w) (t, m, err) then [(t, m)] else []) \<and>
    data (clientConn w') = data (clientConn w) @ (if r = None then answer P Q (methodWhitelist w) (t, m, err) else []) \<and>
    (r = None \<longrightarrow> finished (backendConn w) \<longrightarrow> \<not> forwards P (methodWhitelist w) (t, m, err))"
proof -
  let ?data = "t = TextMessage \<or> t = BinaryMessage"
  consider (control) "\<not> ?data" | (bad) "?data" "json_RPCReq P m = None"
    | (refused) req where "?data" "json_RPCReq P m = Some req" "\<not> StringSet_Has (methodWhitelist w) (Method req)"
    | (accounts) req where "?data" "json_RPCReq P m = Some req" "StringSet_Has (methodWhitelist w) (Method req)" "Method req = ''eth_accounts''"
    | (fwd) req where "?data" "json_RPCReq P m = Some req" "StringSet_Has (methodWhitelist w) (Method req)" "Method req \<noteq> ''eth_accounts''"
    by (cases "json_RPCReq P m") blast+
  then show ?thesis
  proof cases
    case control
    then have "writeBackendConn X now t m w = (w', r)" using assms by (simp add: client_message_def)
    from writeBackend_cases [OF this] control show ?thesis by (auto simp: keeps_def answer_def forwards_def)
  next
    case bad
    then have "writeClientConn X now t (res_Marshal Q (NewRPCErrorRes [] (RpcE ErrParseErr))) w = (w', r)"
      using assms by (auto simp: client_message_def prepareClientMsg_def ParseRPCReq_def)
    from writeClient_cases [OF this] bad show ?thesis by (auto simp: keeps_def answer_def forwards_def)
  next
    case refused
    then have "writeClientConn X now t (res_Marshal Q (NewRPCErrorRes (ID req) (RpcE ErrMethodNotWhitelisted))) w = (w', r)"
      using assms by (auto simp: client_message_def prepareClientMsg_def ParseRPCReq_def)
    from writeClient_cases [OF this] refused show ?thesis by (auto simp: keeps_def answer_def forwards_def)
  next
    case accounts
    then have "writeClientConn X now t (res_Marshal Q (NewRPCRes (ID req) (Raw ''[]''))) w = (w', r)"
      using assms by (auto simp: client_message_def prepareClientMsg_def ParseRPCReq_def)
    from writeClient_cases [OF this] accounts show ?thesis by (auto simp: keeps_def answer_def forwards_def)
  next
    case fwd
    then have "writeBackendConn X now t m w = (w', r)" using assms by (auto simp: client_message_def prepareClientMsg_def ParseRPCReq_def)
    from writeBackend_cases [OF this] fwd show ?thesis by (auto simp: keeps_def answer_def forwards_def)
  qed
qed

lemma keeps_trans: "keeps a b \<Longrightarrow> keeps b c \<Longrightarrow> keeps a c" by (auto simp: keeps_def)

lemma client_turn_spec:
  assumes "client_turn X P Q now t m err w = (w', r)"
  shows "keeps w w' \<and>
    data (backendConn w') = data (backendConn w) @ (if r = None \<and> err = None \<and> forwards P (methodWhitelist w) (t, m, err) then [(t, m)] else []) \<and>
    data (clientConn w') = data (clientConn w) @ (if r = None then answer P Q (methodWhitelist w) (t, m, err) else []) \<and>
    (err \<noteq> None \<longrightarrow> r = None \<longrightarrow> \<not> finished (backendConn w) \<and> finished (backendConn w'))"
proof (cases err)
  case None
  then show ?thesis using assms client_message_spec [of P Q now t m w w' r None] by (auto simp: client_turn_def)
next
  case (Some e)
  obtain w1 r1 where w1: "writeBackendConn X now CloseMessage (formatWSError X e) w = (w1, r1)" by (metis surj_pair)
  note b = writeBackend_cases [OF w1]
  have k: "keeps w w1" using b by (auto simp: keeps_def)
  show ?thesis
  proof (cases r1)
    case None
    then have m: "client_message X P Q now t m w1 = (w', r)" using assms Some w1 by (simp add: client_turn_def)
    note c = client_message_spec [OF m, of err]
    have "finished (backendConn w1)" "\<not> finished (backendConn w)" "methodWhitelist w1 = methodWhitelist w" "clientConn w1 = clientConn w"
      "data (backendConn w1) = data (backendConn w)" using b None by auto
    then show ?thesis using c keeps_trans [OF k] Some by (auto simp: keeps_def)
  next
    case (Some e')
    then have "w' = w1" "r = Some e'" using assms \<open>err = Some e\<close> w1 by (auto simp: client_turn_def)
    then show ?thesis using b k Some by auto
  qed
qed

lemma backend_message_spec:
  assumes "backend_message X Q now t m w = (w', r)"
  shows "keeps w w' \<and> data (backendConn w') = data (backendConn w) \<and>
    data (clientConn w') = data (clientConn w) @ (if r = None then relay Q (t, m, err) else []) \<and> (r = None \<longrightarrow> \<not> finished (clientConn w))"
proof -
  have "\<exists>msg. writeClientConn X now t msg w = (w', r) \<and> (t = TextMessage \<or> t = BinaryMessage \<longrightarrow> relay Q (t, m, err) = [(t, msg)])"
    using assms by (auto simp: backend_message_def parseBackendMsg_def relay_def split: if_splits option.splits)
  then obtain msg where msg: "writeClientConn X now t msg w = (w', r)" "t = TextMessage \<or> t = BinaryMessage \<longrightarrow> relay Q (t, m, err) = [(t, msg)]" by blast
  show ?thesis
  proof (cases "t = TextMessage \<or> t = BinaryMessage")
    case True
    then show ?thesis using writeClient_cases [OF msg(1)] msg(2) by (auto simp: keeps_def)
  next
    case False
    then show ?thesis using writeClient_cases [OF msg(1)] by (auto simp: keeps_def relay_def)
  qed
qed

lemma backend_turn_spec:
  assumes "backend_turn X Q now t m err w = (w', r)"
  shows "keeps w w' \<and> data (backendConn w') = data (backendConn w) \<and>
    data (clientConn w') = data (clientConn w) @ (if r = None then relay Q (t, m, err) else []) \<and> (err \<noteq> None \<longrightarrow> r \<noteq> None)"
proof (cases err)
  case None
  then show ?thesis using assms backend_message_spec [of Q now t m w w' r None] by (auto simp: backend_turn_def)
next
  case (Some e)
  obtain w1 r1 where w1: "writeClientConn X now CloseMessage (formatWSError X e) w = (w1, r1)" by (metis surj_pair)
  note b = writeClient_cases [OF w1]
  have k: "keeps w w1" using b by (auto simp: keeps_def)
  show ?thesis
  proof (cases r1)
    case None
    then have m: "backend_message X Q now t m w1 = (w', r)" using assms Some w1 by (simp add: backend_turn_def)
    have "finished (clientConn w1)" "backendConn w1 = backendConn w" "data (clientConn w1) = data (clientConn w)" using b None by auto
    then show ?thesis using backend_message_spec [OF m, of err] keeps_trans [OF k] by auto
  next
    case (Some e')
    then have "w' = w1" "r = Some e'" using assms \<open>err = Some e\<close> w1 by (auto simp: backend_turn_def)
    then show ?thesis using b k Some by auto
  qed
qed

text \<open>The invariant of \<open>Proxy\<close>.\<close>

definition px_inv :: "req_text \<Rightarrow> res_text \<Rightarrow> StringSet \<Rightarrow> 'k proxying \<Rightarrow> bool" where
  "px_inv P Q wl s \<longleftrightarrow> methodWhitelist (px_proxier s) = wl \<and>
     data (backendConn (px_proxier s)) = forwarded P wl (turns_done (px_client s) (px_client_reads s)) \<and>
     data (clientConn (px_proxier s)) \<in> shuffles (concat (map (answer P Q wl) (turns_done (px_client s) (px_client_reads s))))
       (concat (map (relay Q) (turns_done (px_backend s) (px_backend_reads s)))) \<and>
     (px_client s \<longrightarrow> read_errors (px_client_reads s) = 0 \<or> read_errors (px_client_reads s) = 1 \<and> finished (backendConn (px_proxier s))) \<and>
     read_errors (px_client_reads s) \<le> 2 \<and> (px_backend s \<longrightarrow> read_errors (px_backend_reads s) = 0) \<and> read_errors (px_backend_reads s) \<le> 1"

lemma px_inv_client:
  assumes "px_inv P Q wl s" and "px_client s" and "ws_ReadMessage X (clientConn (px_proxier s)) t m err k"
    and "client_turn X P Q now t m err ((px_proxier s)\<lparr>clientConn := k\<rparr>) = (w, r)"
  shows "px_inv P Q wl (s\<lparr>px_proxier := w, px_client := (r = None), px_errC := q, px_client_reads := px_client_reads s @ [(t, m, err)]\<rparr>)"
proof -
  note rd = read [OF assms(3)] and tn = client_turn_spec [OF assms(4)]
  have wl: "methodWhitelist (px_proxier s) = wl" using assms(1) by (simp add: px_inv_def)
  have b: "data (backendConn w) = data (backendConn (px_proxier s)) @ (if r = None \<and> err = None \<and> forwards P wl (t, m, err) then [(t, m)] else [])"
    and c: "data (clientConn w) = data (clientConn (px_proxier s)) @ (if r = None then answer P Q wl (t, m, err) else [])"
    and e: "err \<noteq> None \<longrightarrow> r = None \<longrightarrow> \<not> finished (backendConn (px_proxier s)) \<and> finished (backendConn w)"
    and f: "finished (backendConn (px_proxier s)) \<longrightarrow> finished (backendConn w)" "methodWhitelist w = wl"
    using tn rd wl by (auto simp: keeps_def)
  have sh: "data (clientConn w) \<in> shuffles (concat (map (answer P Q wl) (px_client_reads s @ (if r = None then [(t, m, err)] else []))))
      (concat (map (relay Q) (turns_done (px_backend s) (px_backend_reads s))))"
    using assms(1,2) c append_shuffles [of "data (clientConn (px_proxier s))"] by (auto simp: px_inv_def)
  show ?thesis using assms(1,2) b sh e f unfolding px_inv_def
    by (cases err) (auto simp: turns_done_snoc forwarded_snoc)
qed

lemma px_inv_backend:
  assumes "px_inv P Q wl s" and "px_backend s" and "ws_ReadMessage X (backendConn (px_proxier s)) t m err k"
    and "backend_turn X Q now t m err ((px_proxier s)\<lparr>backendConn := k\<rparr>) = (w, r)"
  shows "px_inv P Q wl (s\<lparr>px_proxier := w, px_backend := (r = None), px_errC := q, px_backend_reads := px_backend_reads s @ [(t, m, err)]\<rparr>)"
proof -
  note rd = read [OF assms(3)] and tn = backend_turn_spec [OF assms(4)]
  have wl: "methodWhitelist (px_proxier s) = wl" using assms(1) by (simp add: px_inv_def)
  have b: "data (backendConn w) = data (backendConn (px_proxier s))"
    and c: "data (clientConn w) = data (clientConn (px_proxier s)) @ (if r = None then relay Q (t, m, err) else [])"
    and f: "err \<noteq> None \<longrightarrow> r \<noteq> None" "finished (backendConn (px_proxier s)) \<longrightarrow> finished (backendConn w)" "methodWhitelist w = wl"
    using tn rd wl by (auto simp: keeps_def)
  have sh: "data (clientConn w) \<in> shuffles (concat (map (answer P Q wl) (turns_done (px_client s) (px_client_reads s))))
      (concat (map (relay Q) (px_backend_reads s @ (if r = None then [(t, m, err)] else []))))"
    using assms(1,2) c append_shuffles2 [of "data (clientConn (px_proxier s))"] by (auto simp: px_inv_def)
  show ?thesis using assms(1,2) b sh f unfolding px_inv_def
    by (cases err) (auto simp: turns_done_snoc)
qed

lemma px_inv_step: "proxy_step X P Q s s' \<Longrightarrow> px_inv P Q wl s \<Longrightarrow> px_inv P Q wl s'"
proof (induction rule: proxy_step.induct)
  case (client_pump s t m err k now w r)
  then show ?case by (intro px_inv_client)
next
  case (backend_pump s t m err k now w r)
  then show ?case by (intro px_inv_backend)
next
  case (proxy_close s err rest)
  then show ?case using closed by (auto simp: px_inv_def ws_close_def)
qed

lemma px_inv_reach: "proxy_reach X P Q s0 s \<Longrightarrow> px_inv P Q wl s0 \<Longrightarrow> px_inv P Q wl s"
  by (induction rule: proxy_reach.induct) (auto intro: px_inv_step)

lemma px_inv_start: "data (clientConn w) = [] \<Longrightarrow> data (backendConn w) = [] \<Longrightarrow> px_inv P Q (methodWhitelist w) (proxy_start w)"
  by (simp add: px_inv_def proxy_start_def forwarded_snoc)

text \<open>Once the connections are closed, each further turn of a pump reads an error.\<close>

definition px_shut :: "nat \<Rightarrow> nat \<Rightarrow> nat \<Rightarrow> nat \<Rightarrow> 'k proxying \<Rightarrow> bool" where
  "px_shut nc ec nb eb s \<longleftrightarrow> broken (clientConn (px_proxier s)) \<and> broken (backendConn (px_proxier s)) \<and>
     length (px_client_reads s) + ec = nc + read_errors (px_client_reads s) \<and> length (px_backend_reads s) + eb = nb + read_errors (px_backend_reads s)"

lemma px_shut_step: "proxy_step X P Q s s' \<Longrightarrow> px_result s \<noteq> None \<Longrightarrow> px_shut nc ec nb eb s \<Longrightarrow> px_shut nc ec nb eb s' \<and> px_result s' \<noteq> None"
proof (induction rule: proxy_step.induct)
  case (client_pump s t m err k now w r)
  then show ?case using read [OF client_pump(2)] client_turn_spec [OF client_pump(3)] by (auto simp: px_shut_def keeps_def)
next
  case (backend_pump s t m err k now w r)
  then show ?case using read [OF backend_pump(2)] backend_turn_spec [OF backend_pump(3)] by (auto simp: px_shut_def keeps_def)
qed simp

lemma px_shut_reach:
  "proxy_reach X P Q s s' \<Longrightarrow> px_result s \<noteq> None \<Longrightarrow> px_shut nc ec nb eb s \<Longrightarrow> px_shut nc ec nb eb s' \<and> px_result s' \<noteq> None"
  by (induction rule: proxy_reach.induct) (auto dest: px_shut_step)

lemma result_broken:
  "proxy_reach X P Q (proxy_start w) s \<Longrightarrow> px_result s \<noteq> None \<Longrightarrow> broken (clientConn (px_proxier s)) \<and> broken (backendConn (px_proxier s))"
proof (induction rule: proxy_reach.induct)
  case start
  then show ?case by (simp add: proxy_start_def)
next
  case (step s s')
  from step.hyps(2) step.prems step.IH show ?case
  proof (induction rule: proxy_step.induct)
    case (client_pump s t m err k now w r)
    then show ?case using read [OF client_pump(2)] client_turn_spec [OF client_pump(3)] by (auto simp: keeps_def)
  next
    case (backend_pump s t m err k now w r)
    then show ?case using read [OF backend_pump(2)] backend_turn_spec [OF backend_pump(3)] by (auto simp: keeps_def)
  next
    case (proxy_close s err rest)
    then show ?case using closed by (simp add: ws_close_def)
  qed
qed

end

text \<open>The channel: a pump that ended has sent its error, and nothing else is sent.\<close>

lemma errC_count:
  "proxy_reach X P Q (proxy_start w) s \<Longrightarrow>
     length (px_errC s) + (if px_result s = None then 0 else 1) = (if px_client s then 0 else 1) + (if px_backend s then 0 else 1)"
proof (induction rule: proxy_reach.induct)
  case start
  then show ?case by (simp add: proxy_start_def)
next
  case (step s s')
  from step.hyps(2) step.IH show ?case
    by (induction rule: proxy_step.induct) (auto simp: send_error_def split: option.splits if_splits)
qed

subsection \<open>A connection in memory\<close>

record mem_conn =
  mc_inbox :: "(int \<times> string \<times> err option) list"
  mc_data :: "(int \<times> string) list"
  mc_finished :: bool
  mc_broken :: bool

definition new_mem_conn :: "(int \<times> string \<times> err option) list \<Rightarrow> mem_conn" where
  "new_mem_conn inbox = \<lparr>mc_inbox = inbox, mc_data = [], mc_finished = False, mc_broken = False\<rparr>"

definition mem_read :: "mem_conn \<Rightarrow> int \<Rightarrow> string \<Rightarrow> err option \<Rightarrow> mem_conn \<Rightarrow> bool" where
  "mem_read k t m err k' \<longleftrightarrow>
     (if mc_broken k then t = -1 \<and> m = [] \<and> err = Some (Sentinel ''closed'') \<and> k' = k
      else case mc_inbox k of [] \<Rightarrow> False | x # xs \<Rightarrow> (t, m, err) = x \<and> k' = k\<lparr>mc_inbox := xs, mc_broken := (err \<noteq> None)\<rparr>)"

definition mem_write :: "int \<Rightarrow> string \<Rightarrow> mem_conn \<Rightarrow> mem_conn \<times> err option" where
  "mem_write t m k =
     (if mc_finished k then (k, Some (Sentinel ''websocket: close sent''))
      else if t \<notin> {1, 2, 8, 9, 10} then (k, Some (Sentinel ''websocket: bad write message type''))
      else (k\<lparr>mc_data := mc_data k @ (if t = TextMessage \<or> t = BinaryMessage then [(t, m)] else []), mc_finished := (t = CloseMessage)\<rparr>, None))"

definition mem_websocket :: "mem_conn websocket" where
  "mem_websocket =
     \<lparr>ws_ReadMessage = mem_read, ws_SetWriteDeadline = \<lambda>d k. (k, None), ws_WriteMessage = mem_write,
      ws_Close = \<lambda>k. k\<lparr>mc_finished := True, mc_broken := True\<rparr>, ws_SetReadLimit = \<lambda>n k. k,
      FormatCloseMessage = \<lambda>code txt. txt, as_CloseError = \<lambda>err. None\<rparr>"

interpretation mem_ws: websocket_conn mem_websocket mc_data mc_finished mc_broken
  by unfold_locales
    (auto simp: mem_websocket_def mem_write_def mem_read_def split: if_splits list.splits)

subsection \<open>Properties\<close>

text \<open>
  C9. What the websocket proxy writes. Over connections that keep their documented laws, in every interleaving of the pumps and of the goroutine that
  closes: the text and binary messages written to the backend are exactly the messages of the client whose method is on the whitelist
  (\<open>eth_accounts\<close> apart), unchanged and in order, and the client gets an interleaving of the answers of the proxy to its other messages with
  the messages of the backend, unreadable ones replaced by an error. Of a pump that has ended, the last message may be missing.
\<close>

theorem ws_proxied_messages:
  assumes "websocket_conn X data finished broken" and "data (clientConn w) = []" and "data (backendConn w) = []"
    and "proxy_reach X P Q (proxy_start w) s"
  shows "data (backendConn (px_proxier s)) = forwarded P (methodWhitelist w) (turns_done (px_client s) (px_client_reads s)) \<and>
    (\<forall>(t, m)\<in>set (data (backendConn (px_proxier s))). \<exists>req. json_RPCReq P m = Some req \<and> StringSet_Has (methodWhitelist w) (Method req)) \<and>
    data (clientConn (px_proxier s)) \<in>
      shuffles (concat (map (answer P Q (methodWhitelist w)) (turns_done (px_client s) (px_client_reads s))))
        (concat (map (relay Q) (turns_done (px_backend s) (px_backend_reads s))))"
proof -
  have inv: "websocket_conn.px_inv data finished P Q (methodWhitelist w) s"
    using websocket_conn.px_inv_reach [OF assms(1,4)] websocket_conn.px_inv_start [OF assms(1-3)] by blast
  then have d: "data (backendConn (px_proxier s)) = forwarded P (methodWhitelist w) (turns_done (px_client s) (px_client_reads s))"
    by (simp add: websocket_conn.px_inv_def [OF assms(1)])
  have "\<exists>req. json_RPCReq P m = Some req \<and> StringSet_Has (methodWhitelist w) (Method req)" if "(t, m) \<in> set (forwarded P (methodWhitelist w) xs)" for t m xs
    using that by (auto simp: forwarded_def forwards_def split: option.splits)
  then show ?thesis using inv unfolding d by (auto simp: websocket_conn.px_inv_def [OF assms(1)])
qed

definition example_res_text :: res_text where
  "example_res_text = \<lparr>json_RPCRes = \<lambda>raw. Some (NewRPCRes raw NilVal), res_Marshal = \<lambda>res. rs_ID res @ ''!''\<rparr>"

definition example_proxier :: "mem_conn WSProxier" where
  "example_proxier = NewWSProxier ''a'' (new_mem_conn [(1, ''1'', None), (1, ''4'', None), (1, [], Some (Sentinel ''gone''))]) (new_mem_conn [(1, ''r'', None)])
     (NewStringSetFromStrings [''eth_chainId''])"

text \<open>A run: the first message goes to the backend, the second is refused, the answer of the backend comes, the client is gone, the connections are closed.\<close>

lemma example_proxy_run:
  "\<exists>s. proxy_reach mem_websocket example_text example_res_text (proxy_start example_proxier) s \<and> px_client s \<and> px_backend s \<and>
     px_client_reads s = [(1, ''1'', None), (1, ''4'', None)] \<and> px_backend_reads s = [(1, ''r'', None)] \<and>
     mc_data (clientConn (px_proxier s)) = [(1, ''4!''), (1, ''r'')] \<and> px_result s = None"
proof -
  let ?X = mem_websocket and ?P = example_text and ?Q = example_res_text and ?s = "proxy_start example_proxier"
  let ?step = "proxy_step ?X ?P ?Q"
  note ev = mem_websocket_def mem_read_def mem_write_def client_turn_def client_message_def backend_turn_def backend_message_def prepareClientMsg_def
    parseBackendMsg_def ParseRPCReq_def example_texts call_fields writeClientConn_def writeBackendConn_def ws_write_def example_res_text_def
    example_proxier_def NewWSProxier_def new_mem_conn_def proxy_start_def send_error_def NewRPCErrorRes_def NewRPCRes_def
  define w1 where "w1 = (example_proxier\<lparr>clientConn := (clientConn example_proxier)\<lparr>mc_inbox := [(1, ''4'', None), (1, [], Some (Sentinel ''gone''))]\<rparr>,
    backendConn := (backendConn example_proxier)\<lparr>mc_data := [(1, ''1'')]\<rparr>\<rparr>)"
  define s1 where "s1 = ?s\<lparr>px_proxier := w1, px_client_reads := [(1, ''1'', None)]\<rparr>"
  have 1: "?step ?s s1"
    using proxy_step.client_pump [of ?s ?X 1 "''1''" None "(clientConn example_proxier)\<lparr>mc_inbox := [(1, ''4'', None), (1, [], Some (Sentinel ''gone''))]\<rparr>" ?P ?Q 0 w1 None]
    by (simp add: s1_def w1_def ev)
  define w2 where "w2 = w1\<lparr>clientConn := (clientConn example_proxier)\<lparr>mc_inbox := [(1, [], Some (Sentinel ''gone''))], mc_data := [(1, ''4!'')]\<rparr>\<rparr>"
  define s2 where "s2 = s1\<lparr>px_proxier := w2, px_client_reads := [(1, ''1'', None), (1, ''4'', None)]\<rparr>"
  have 2: "?step s1 s2"
    using proxy_step.client_pump [of s1 ?X 1 "''4''" None "(clientConn example_proxier)\<lparr>mc_inbox := [(1, [], Some (Sentinel ''gone''))]\<rparr>" ?P ?Q 0 w2 None]
    by (simp add: s2_def s1_def w2_def w1_def ev)
  define w3 where "w3 = w2\<lparr>clientConn := (clientConn w2)\<lparr>mc_data := [(1, ''4!''), (1, ''r'')]\<rparr>, backendConn := (backendConn w2)\<lparr>mc_inbox := []\<rparr>\<rparr>"
  define s3 where "s3 = s2\<lparr>px_proxier := w3, px_backend_reads := [(1, ''r'', None)]\<rparr>"
  have 3: "?step s2 s3"
    using proxy_step.backend_pump [of s2 ?X 1 "''r''" None "(backendConn w2)\<lparr>mc_inbox := []\<rparr>" ?Q 0 w3 None ?P]
    by (simp add: s3_def s2_def s1_def w3_def w2_def w1_def ev)
  have "proxy_reach ?X ?P ?Q ?s s3" using proxy_reach.start proxy_reach.step 1 2 3 by metis
  then show ?thesis by (intro exI [of _ s3]) (simp add: s3_def s2_def s1_def w3_def w2_def w1_def ev)
qed

theorem ws_proxied_messages_witness:
  "\<exists>s. proxy_reach mem_websocket example_text example_res_text (proxy_start example_proxier) s \<and>
     mc_data (backendConn (px_proxier s)) = [(1, ''1'')] \<and> mc_data (clientConn (px_proxier s)) = [(1, ''4!''), (1, ''r'')]"
proof -
  obtain s where s: "proxy_reach mem_websocket example_text example_res_text (proxy_start example_proxier) s" "px_client s" "px_backend s"
    "px_client_reads s = [(1, ''1'', None), (1, ''4'', None)]" "mc_data (clientConn (px_proxier s)) = [(1, ''4!''), (1, ''r'')]"
    using example_proxy_run by blast
  have e: "mc_data (clientConn example_proxier) = []" "mc_data (backendConn example_proxier) = []" "methodWhitelist example_proxier = NewStringSetFromStrings [''eth_chainId'']"
    by (simp_all add: example_proxier_def NewWSProxier_def new_mem_conn_def)
  have "mc_data (backendConn (px_proxier s)) = forwarded example_text (methodWhitelist example_proxier) (px_client_reads s)"
    using ws_proxied_messages [OF mem_ws.websocket_conn_axioms e(1,2) s(1)] s(2) by simp
  also have "\<dots> = [(1, ''1'')]" by (simp add: s(4) e(3) forwarded_def forwards_def example_texts call_fields)
  finally show ?thesis using s by blast
qed

text \<open>
  C21. The pumps stop. The pump of the backend ends with the first read error, that of the client with the second at the latest, although the code goes on
  after a read error: the close message it has written makes every later write fail. A pump that ended has left an error for \<open>Proxy\<close>, which is never
  blocked by the channel; and once \<open>Proxy\<close> has closed the connections, the pumps make at most two turns and one turn more.
\<close>

theorem ws_pumps_stop:
  assumes conn: "websocket_conn X data finished broken" and "data (clientConn w) = []" and "data (backendConn w) = []"
    and r: "proxy_reach X P Q (proxy_start w) s"
  shows "(px_backend s \<longrightarrow> read_errors (px_backend_reads s) = 0) \<and> (px_client s \<longrightarrow> read_errors (px_client_reads s) \<le> 1) \<and>
    (px_client s \<and> px_backend s \<or> px_errC s \<noteq> [] \<or> px_result s \<noteq> None) \<and> length (px_errC s) \<le> 2 \<and>
    (px_result s \<noteq> None \<longrightarrow> (\<forall>s'. proxy_reach X P Q s s' \<longrightarrow>
       length (px_client_reads s') \<le> length (px_client_reads s) + 2 \<and> length (px_backend_reads s') \<le> length (px_backend_reads s) + 1))"
proof -
  note start = websocket_conn.px_inv_start [OF assms(1-3)]
  have inv: "websocket_conn.px_inv data finished P Q (methodWhitelist w) s"
    using websocket_conn.px_inv_reach [OF conn r] start by blast
  have after: "length (px_client_reads s') \<le> length (px_client_reads s) + 2 \<and> length (px_backend_reads s') \<le> length (px_backend_reads s) + 1"
    if res: "px_result s \<noteq> None" and r': "proxy_reach X P Q s s'" for s'
  proof -
    let ?shut = "websocket_conn.px_shut broken (length (px_client_reads s)) (read_errors (px_client_reads s)) (length (px_backend_reads s))
      (read_errors (px_backend_reads s))"
    have "?shut s" using websocket_conn.result_broken [OF conn r res] by (simp add: websocket_conn.px_shut_def [OF conn])
    then have "?shut s'" using websocket_conn.px_shut_reach [OF conn r' res] by blast
    moreover have "websocket_conn.px_inv data finished P Q (methodWhitelist w) s'" using websocket_conn.px_inv_reach [OF conn r' inv] .
    ultimately show ?thesis by (simp add: websocket_conn.px_shut_def [OF conn] websocket_conn.px_inv_def [OF conn])
  qed
  have "read_errors (px_client_reads s) \<le> 1" if "px_client s" using inv that by (auto simp: websocket_conn.px_inv_def [OF conn])
  moreover have "read_errors (px_backend_reads s) = 0" if "px_backend s" using inv that by (auto simp: websocket_conn.px_inv_def [OF conn])
  ultimately show ?thesis using after errC_count [OF r] by (auto split: if_splits)
qed

theorem ws_pumps_stop_witness:
  "\<exists>s. proxy_reach mem_websocket example_text example_res_text (proxy_start example_proxier) s \<and> px_client s \<and> read_errors (px_client_reads s) \<le> 1"
proof -
  obtain s where s: "proxy_reach mem_websocket example_text example_res_text (proxy_start example_proxier) s" "px_client s"
    using example_proxy_run by blast
  have e: "mc_data (clientConn example_proxier) = []" "mc_data (backendConn example_proxier) = []"
    by (simp_all add: example_proxier_def NewWSProxier_def new_mem_conn_def)
  show ?thesis using ws_pumps_stop [OF mem_ws.websocket_conn_axioms e s(1)] s by blast
qed

lemma populateContext_authorized:
  assumes "populateContext s reqID r = Some ctx" and "authenticatedPaths s \<noteq> Map.empty"
  shows "\<exists>secret alias. in_vars r ''authorization'' = Some secret \<and> authenticatedPaths s secret = Some alias \<and> alias \<noteq> []"
proof (cases "in_vars r ''authorization''")
  case (Some secret)
  then show ?thesis using assms by (cases "authenticatedPaths s secret") (auto simp: populateContext_def Let_def split: if_splits)
qed (use assms in \<open>simp add: populateContext_def Let_def\<close>)

lemma proxy_ws_loop_dialled:
  "proxy_ws_loop dial bes c wl bs e = (e', Inr w) \<Longrightarrow> methodWhitelist w = wl \<and>
     (\<exists>b e1 e2. b \<in> set bs \<and> wp_backend w = Name (bes b) \<and> dial e1 (wsURL (bes b)) = (e2, Inr (backendConn w)))"
proof (induction bs arbitrary: e)
  case (Cons b bs)
  obtain e1 d where d: "dial e (wsURL (bes b)) = (e1, d)" by (metis surj_pair)
  show ?case
  proof (cases d)
    case (Inl err)
    then have "proxy_ws_loop dial bes c wl bs e1 = (e', Inr w)" using Cons.prems d by (simp add: backend_ProxyWS_def)
    from Cons.IH [OF this] show ?thesis by auto
  next
    case (Inr conn)
    then have "w = NewWSProxier (Name (bes b)) c conn wl" using Cons.prems d by (simp add: backend_ProxyWS_def)
    then show ?thesis using d Inr by (auto simp: NewWSProxier_def)
  qed
qed simp

text \<open>
  C30. Websocket connections need a secret. With authenticated paths configured, a connection is proxied only if its path is a configured secret, and
  then with the whitelist of the server to a backend of the group that could be dialled.
\<close>

theorem ws_requires_secret:
  assumes "HandleWS X upgrade dial s bg wl reqID r st = Return (st', Proxying w)" and "authenticatedPaths s \<noteq> Map.empty"
    and "ws_route path = Some (in_vars r)"
  shows "(\<exists>secret alias. path = CHR ''/'' # secret \<and> authenticatedPaths s secret = Some alias \<and> alias \<noteq> []) \<and> methodWhitelist w = wl \<and>
    (\<exists>g b e e'. bg = Some g \<and> b \<in> set (Backends g) \<and> wp_backend w = Name (sv_backends st b) \<and>
      dial e (wsURL (sv_backends st b)) = (e', Inr (backendConn w)))"
proof -
  obtain ctx where ctx: "populateContext s reqID r = Some ctx" using assms(1) by (auto simp: HandleWS_def split: option.splits)
  obtain e1 conn where u: "upgrade (sv_env st) r = (e1, Inr conn)"
    using assms(1) ctx by (auto simp: HandleWS_def split: prod.splits sum.splits)
  obtain g e2 where g: "bg = Some g" "proxy_ws_loop dial (sv_backends st) (ws_SetReadLimit X (maxBodySize s) conn) wl (Backends g) e1 = (e2, Inr w)"
    using assms(1) ctx u by (auto simp: HandleWS_def group_ProxyWS_def Let_def split: option.splits prod.splits sum.splits)
  from proxy_ws_loop_dialled [OF g(2)] g(1) have "methodWhitelist w = wl \<and> (\<exists>g b e e'. bg = Some g \<and> b \<in> set (Backends g) \<and> wp_backend w = Name (sv_backends st b) \<and>
      dial e (wsURL (sv_backends st b)) = (e', Inr (backendConn w)))" by auto
  moreover have "\<exists>secret alias. path = CHR ''/'' # secret \<and> authenticatedPaths s secret = Some alias \<and> alias \<noteq> []"
  proof -
    obtain secret al where sec: "in_vars r ''authorization'' = Some secret" "authenticatedPaths s secret = Some al" "al \<noteq> []"
      using populateContext_authorized [OF ctx assms(2)] by blast
    obtain rest where p: "path = CHR ''/'' # rest" "in_vars r = [''authorization'' \<mapsto> rest]"
      using assms(3) [symmetric] sec(1) by (cases path) (auto simp: ws_route_def split: if_splits)
    then show ?thesis using sec by auto
  qed
  ultimately show ?thesis by blast
qed

theorem ws_requires_secret_witness:
  "\<exists>st' w. HandleWS mem_websocket (\<lambda>e r. (e, Inr (new_mem_conn []))) (\<lambda>e url. (e, Inr (new_mem_conn [])))
     (example_server\<lparr>authenticatedPaths := [''secret'' \<mapsto> ''alice'']\<rparr>) (Some one_group) NewStringSet ''id''
     (example_request []\<lparr>in_path := ''/secret'', in_vars := [''authorization'' \<mapsto> ''secret'']\<rparr>) (example_srv ()) = Return (st', Proxying w) \<and>
   methodWhitelist w = NewStringSet"
proof -
  let ?s = "example_server\<lparr>authenticatedPaths := [''secret'' \<mapsto> ''alice'']\<rparr>" and
    ?r = "example_request []\<lparr>in_path := ''/secret'', in_vars := [''authorization'' \<mapsto> ''secret'']\<rparr>"
  have g: "Backends one_group = [''a'']" by (simp add: one_group_def)
  obtain st' w where h: "HandleWS mem_websocket (\<lambda>e r. (e, Inr (new_mem_conn []))) (\<lambda>e url. (e, Inr (new_mem_conn []))) ?s (Some one_group) NewStringSet ''id''
      ?r (example_srv ()) = Return (st', Proxying w)"
    by (simp add: HandleWS_def populateContext_def Let_def group_ProxyWS_def g backend_ProxyWS_def)
  have "ws_route ''/secret'' = Some (in_vars ?r)" by (simp add: ws_route_def)
  from ws_requires_secret [OF h _ this] have "methodWhitelist w = NewStringSet" by simp
  then show ?thesis using h by blast
qed

end
