(* ===== verification/Config.thy ===== *)
theory Config
  imports Websocket
begin

section \<open>Configuration and start\<close>

text \<open>
  Models \<^verbatim>\<open>src/config.go\<close>, \<^verbatim>\<open>src/proxyd.go\<close>, \<^verbatim>\<open>src/redis.go\<close> and \<^verbatim>\<open>src/tls.go\<close>: from a decoded configuration to a server with
  its backends, groups, pollers, cache and rate limiters, or to the error with which the start fails. Maps of the configuration are association
  lists in the order in which Go visits them. The flags \<open>EnableRequestLog\<close>, \<open>EnablePprof\<close>, \<open>AllowAllOrigins\<close> and \<open>VerifyFlashbotsSignature\<close> do not
  change what is modelled. The environment, files, certificates and Redis connections are parameters. Starting the HTTP
  servers and goroutines is left out; which of them are started is part of the result.
\<close>

subsection \<open>The configuration\<close>

record ServerConfig =
  RPCHost :: string
  RPCPort :: int
  WSHost :: string
  WSPort :: int
  MaxBodySizeBytes :: int
  MaxConcurrentRPCs :: int
  DisableConcurrentRequestSemaphore :: bool
  LogLevel :: string
  TimeoutSeconds :: int
  sc_MaxUpstreamBatchSize :: int
  EnableRequestLog :: bool
  MaxRequestBodyLogLen :: int
  EnablePprof :: bool
  EnableXServedByHeader :: bool
  AllowAllOrigins :: bool

record CacheConfig =
  cc_Enabled :: bool
  UseInmemCache :: bool
  cc_TTL :: Duration

record RedisConfig =
  rc_URL :: string
  rc_Namespace :: string
  rc_ReadURL :: string
  FallbackToMemory :: bool
  RedisCluster :: bool

record MetricsConfig =
  mt_Enabled :: bool
  mt_Host :: string
  mt_Port :: int

record BackendOptions =
  bo_ResponseTimeoutSeconds :: int
  bo_ResponseTimeoutMilliseconds :: int
  bo_MaxResponseSizeBytes :: int
  bo_MaxRetries :: int
  bo_OutOfServiceSeconds :: int
  bo_MaxDegradedLatencyThreshold :: Duration
  bo_MaxLatencyThreshold :: Duration
  bo_MaxErrorRateThreshold :: rat

record BackendConfig =
  bc_Username :: string
  bc_Password :: string
  bc_RPCURL :: string
  bc_WSURL :: string
  bc_WSPort :: int
  bc_MaxRPS :: int
  bc_MaxWSConns :: int
  bc_CAFile :: string
  bc_ClientCertFile :: string
  bc_ClientKeyFile :: string
  bc_StripTrailingXFF :: bool
  bc_AllowedDynamicHeaders :: "string list"
  bc_Headers :: "(string \<times> string) list"
  bc_Weight :: int
  bc_SkipIsSyncingCheck :: bool
  bc_ResponseTimeoutMilliseconds :: int
  bc_MaxRetries :: "int option"
  bc_SafeBlockDriftThreshold :: u64
  bc_FinalizedBlockDriftThreshold :: u64
  bc_ConsensusSkipPeerCountCheck :: bool
  bc_ConsensusForcedCandidate :: bool
  bc_ConsensusReceiptsTarget :: string

record BackendGroupConfig =
  gc_Backends :: "string list"
  gc_WeightedRouting :: bool
  gc_RoutingStrategy :: string
  gc_MulticallRPCErrorCheck :: bool
  gc_ConsensusAware :: bool
  gc_ConsensusAsyncHandler :: string
  gc_ConsensusPollerInterval :: Duration
  gc_ConsensusBanPeriod :: Duration
  gc_ConsensusMaxUpdateThreshold :: Duration
  gc_ConsensusMaxBlockLag :: u64
  gc_ConsensusMaxBlockRange :: u64
  gc_ConsensusMinPeerCount :: int
  gc_ConsensusHA :: bool
  gc_ConsensusHAHeartbeatInterval :: Duration
  gc_ConsensusHALockPeriod :: Duration
  gc_ConsensusHARedis :: RedisConfig
  gc_Fallbacks :: "string list"

record BatchConfig =
  MaxSize :: int
  bt_ErrorMessage :: string

record InteropValidationConfig =
  iv_Urls :: "string list"
  iv_Strategy :: string
  iv_LoadBalancingUnhealthinessTimeout :: Duration
  iv_ReqSizeLimit :: int
  iv_AccessListSizeLimit :: int
  iv_RateLimit :: SenderRateLimitConfig

text \<open>An \<open>[authentication]\<close> section that is absent differs from an empty one in the type only.\<close>

record Config =
  WSBackendGroup :: string
  cf_Server :: ServerConfig
  cf_Cache :: CacheConfig
  cf_Redis :: RedisConfig
  cf_Metrics :: MetricsConfig
  cf_RateLimit :: RateLimitConfig
  cf_HighPrioRateLimit :: RateLimitConfig
  cf_HighPrioSigners :: "string list"
  cf_BackendOptions :: BackendOptions
  cf_Backends :: "(string \<times> BackendConfig) list"
  cf_BatchConfig :: BatchConfig
  cf_Authentication :: "(string \<times> string) list"
  cf_BackendGroups :: "(string \<times> BackendGroupConfig) list"
  cf_RPCMethodMappings :: "(string \<times> string) list"
  WSMethodWhitelist :: "string list"
  VerifyFlashbotsSignature :: bool
  WhitelistErrorMessage :: string
  cf_SenderRateLimit :: SenderRateLimitConfig
  cf_Interop :: InteropValidationConfig

subsection \<open>Results that may fail\<close>

definition ebind :: "err + 'a \<Rightarrow> ('a \<Rightarrow> err + 'b) \<Rightarrow> err + 'b" where
  "ebind m f = (case m of Inl err \<Rightarrow> Inl err | Inr x \<Rightarrow> f x)"

lemma ebind_simps [simp]: "ebind (Inl err) f = Inl err" "ebind (Inr x) f = f x"
  by (simp_all add: ebind_def)

lemma ebind_Inr: "ebind m f = Inr y \<longleftrightarrow> (\<exists>x. m = Inr x \<and> f x = Inr y)"
  by (cases m) auto

definition echeck :: "bool \<Rightarrow> string \<Rightarrow> err + unit" where
  "echeck ok msg = (if ok then Inr () else Inl (Errorf msg))"

lemma echeck_Inr [simp]: "echeck ok msg = Inr u \<longleftrightarrow> ok"
  by (simp add: echeck_def)

fun emap :: "('a \<Rightarrow> err + 'b) \<Rightarrow> 'a list \<Rightarrow> err + 'b list" where
  "emap f [] = Inr []"
| "emap f (x # xs) = ebind (f x) (\<lambda>y. ebind (emap f xs) (\<lambda>ys. Inr (y # ys)))"

lemma emap_Inr: "emap f xs = Inr ys \<longleftrightarrow> list_all2 (\<lambda>x y. f x = Inr y) xs ys"
  by (induction xs arbitrary: ys) (auto simp: ebind_Inr list_all2_Cons1)

subsection \<open>Environment, Redis and certificates\<close>

record os =
  os_Getenv :: "string \<Rightarrow> string"
  os_ReadFile :: "string \<Rightarrow> err + string"
  AppendCertsFromPEM :: "string \<Rightarrow> bool"
  LoadX509KeyPair :: "string \<Rightarrow> string \<Rightarrow> err + string"

definition ReadFromEnvOrConfig :: "os \<Rightarrow> string \<Rightarrow> err + string" where
  "ReadFromEnvOrConfig OS val =
     (if val \<noteq> [] \<and> hd val = CHR ''$'' then
        (let envValue = os_Getenv OS (tl val)
         in if envValue = [] then Inl (Errorf (''config env var '' @ val @ '' not found'')) else Inr envValue)
      else if val \<noteq> [] \<and> hd val = CHR 0x5C then Inr (tl val)
      else Inr val)"

record 'h redis_lib =
  redis_ParseURL :: "string \<Rightarrow> err + 'h"
  redis_ParseClusterURL :: "string \<Rightarrow> err + 'h"
  redis_Ping :: "'h \<Rightarrow> err option"

definition NewRedisClient :: "'h redis_lib \<Rightarrow> string \<Rightarrow> bool \<Rightarrow> err + 'h" where
  "NewRedisClient H url enable_cluster = (if enable_cluster then redis_ParseClusterURL H url else redis_ParseURL H url)"

definition CheckRedisConnection :: "'h redis_lib \<Rightarrow> 'h \<Rightarrow> err option" where
  "CheckRedisConnection H client =
     (case redis_Ping H client of Some err \<Rightarrow> Some (wrapErr (Some err) ''error connecting to redis'') | None \<Rightarrow> None)"

record tls_Config =
  RootCAs :: string
  Certificates :: "string list"

definition CreateTLSClient :: "os \<Rightarrow> string \<Rightarrow> err + tls_Config" where
  "CreateTLSClient OS ca =
     (case os_ReadFile OS ca of
        Inl err \<Rightarrow> Inl (wrapErr (Some err) ''error reading CA'')
      | Inr pem \<Rightarrow>
          if \<not> AppendCertsFromPEM OS pem then Inl (Errorf ''error parsing TLS client cert'')
          else Inr \<lparr>RootCAs = pem, Certificates = []\<rparr>)"

definition ParseKeyPair :: "os \<Rightarrow> string \<Rightarrow> string \<Rightarrow> err + string" where
  "ParseKeyPair OS crt key =
     (case LoadX509KeyPair OS crt key of Inl err \<Rightarrow> Inl (wrapErr (Some err) ''error loading x509 key pair'') | Inr cert \<Rightarrow> Inr cert)"

definition configureBackendTLS :: "os \<Rightarrow> BackendConfig \<Rightarrow> err + tls_Config option" where
  "configureBackendTLS OS cfg =
     (if bc_CAFile cfg = [] then Inr None
      else ebind (CreateTLSClient OS (bc_CAFile cfg)) (\<lambda>tlsConfig.
        if bc_ClientCertFile cfg \<noteq> [] \<and> bc_ClientKeyFile cfg \<noteq> []
        then ebind (ParseKeyPair OS (bc_ClientCertFile cfg) (bc_ClientKeyFile cfg)) (\<lambda>cert. Inr (Some (tlsConfig\<lparr>Certificates := [cert]\<rparr>)))
        else Inr (Some tlsConfig)))"

text \<open>The clients for writing and for reading. After the second is made, the first is checked again.\<close>

definition ping_or_fallback :: "'h redis_lib \<Rightarrow> RedisConfig \<Rightarrow> 'h \<Rightarrow> err + unit" where
  "ping_or_fallback H cfg client =
     (case CheckRedisConnection H client of Some err \<Rightarrow> if FallbackToMemory cfg then Inr () else Inl err | None \<Rightarrow> Inr ())"

definition redis_clients :: "os \<Rightarrow> 'h redis_lib \<Rightarrow> RedisConfig \<Rightarrow> err + 'h option \<times> 'h option" where
  "redis_clients OS H cfg =
     ebind (if rc_URL cfg \<noteq> [] then
              ebind (ReadFromEnvOrConfig OS (rc_URL cfg)) (\<lambda>rURL.
              ebind (NewRedisClient H rURL (RedisCluster cfg)) (\<lambda>client.
              ebind (ping_or_fallback H cfg client) (\<lambda>_. Inr (Some client))))
            else Inr None)
       (\<lambda>primary.
         if rc_ReadURL cfg \<noteq> [] then
           (case primary of
              None \<Rightarrow> Inl (Errorf ''must specify a Redis primary URL. only read endpoint is set'')
            | Some client \<Rightarrow>
                ebind (ReadFromEnvOrConfig OS (rc_ReadURL cfg)) (\<lambda>rURL.
                ebind (NewRedisClient H rURL (RedisCluster cfg)) (\<lambda>reader.
                ebind (ping_or_fallback H cfg client) (\<lambda>_. Inr (primary, Some reader)))))
         else Inr (primary, primary))"

subsection \<open>Backends\<close>

definition validateReceiptsTarget :: "string \<Rightarrow> err + string" where
  "validateReceiptsTarget val =
     (let v = (if val = [] then ''debug_getRawReceipts'' else val)
      in if v \<in> set (ReceiptsTargetAlchemyGetTransactionReceipts # conventional_targets) then Inr v
         else Inl (Errorf (''invalid receipts target: '' @ v)))"

text \<open>Durations are 64-bit numbers of nanoseconds: the products wrap around.\<close>

definition int64 :: "int \<Rightarrow> int" where
  "int64 n = (n + 2 ^ 63) mod 2 ^ 64 - 2 ^ 63"

definition secondsToDuration :: "int \<Rightarrow> Duration" where
  "secondsToDuration seconds = int64 (seconds * time_Second)"

definition millisecondsToDuration :: "int \<Rightarrow> Duration" where
  "millisecondsToDuration ms = int64 (ms * time_Millisecond)"

definition opt_if :: "bool \<Rightarrow> 'a \<Rightarrow> 'a list" where
  "opt_if b x = (if b then [x] else [])"

text \<open>
  The options of a backend from the common section, from its own section before and after its headers, and from its own section at the end. The TLS
  configuration is not part of a backend of the model; only its errors matter.
\<close>

definition common_opts :: "BackendOptions \<Rightarrow> 'm BackendOpt list" where
  "common_opts bo =
     (if bo_ResponseTimeoutMilliseconds bo \<noteq> 0 then [WithTimeout (millisecondsToDuration (bo_ResponseTimeoutMilliseconds bo))]
      else opt_if (bo_ResponseTimeoutSeconds bo \<noteq> 0) (WithTimeout (secondsToDuration (bo_ResponseTimeoutSeconds bo)))) @
     opt_if (bo_MaxRetries bo \<noteq> 0) (WithMaxRetries (bo_MaxRetries bo)) @
     opt_if (bo_MaxResponseSizeBytes bo \<noteq> 0) (WithMaxResponseSize (bo_MaxResponseSizeBytes bo)) @
     opt_if (bo_OutOfServiceSeconds bo \<noteq> 0) (WithOutOfServiceDuration (secondsToDuration (bo_OutOfServiceSeconds bo))) @
     opt_if (bo_MaxDegradedLatencyThreshold bo > 0) (WithMaxDegradedLatencyThreshold (bo_MaxDegradedLatencyThreshold bo)) @
     opt_if (bo_MaxLatencyThreshold bo > 0) (WithMaxLatencyThreshold (bo_MaxLatencyThreshold bo)) @
     opt_if (bo_MaxErrorRateThreshold bo > 0) (WithMaxErrorRateThreshold (bo_MaxErrorRateThreshold bo))"

definition own_opts :: "os \<Rightarrow> BackendConfig \<Rightarrow> string \<Rightarrow> 'm BackendOpt list" where
  "own_opts OS cfg target =
     opt_if (bc_StripTrailingXFF cfg) WithStrippedTrailingXFF @
     opt_if (bc_ResponseTimeoutMilliseconds cfg \<noteq> 0) (WithTimeout (millisecondsToDuration (bc_ResponseTimeoutMilliseconds cfg))) @
     (case bc_MaxRetries cfg of None \<Rightarrow> [] | Some n \<Rightarrow> [WithMaxRetries n]) @
     [WithProxydIP (os_Getenv OS ''PROXYD_IP''), WithSkipIsSyncingCheck (bc_SkipIsSyncingCheck cfg),
      WithSafeBlockDriftThreshold (bc_SafeBlockDriftThreshold cfg), WithFinalizedBlockDriftThreshold (bc_FinalizedBlockDriftThreshold cfg),
      WithConsensusSkipPeerCountCheck (bc_ConsensusSkipPeerCountCheck cfg), WithConsensusForcedCandidate (bc_ConsensusForcedCandidate cfg),
      WithWeight (bc_Weight cfg), WithConsensusReceiptTarget target]"

definition resolve_headers :: "os \<Rightarrow> (string \<times> string) list \<Rightarrow> err + (string \<times> string) list" where
  "resolve_headers OS hs = emap (\<lambda>(name, val). ebind (ReadFromEnvOrConfig OS val) (\<lambda>v. Inr (name, v))) hs"

definition configure_backend :: "'m lhm \<Rightarrow> os \<Rightarrow> bool \<Rightarrow> BackendOptions \<Rightarrow> string \<times> BackendConfig \<Rightarrow> err + string \<times> 'm Backend" where
  "configure_backend L OS sem bo entry =
     (case entry of (name, cfg) \<Rightarrow>
        ebind (ReadFromEnvOrConfig OS (bc_RPCURL cfg)) (\<lambda>rpcU.
        ebind (ReadFromEnvOrConfig OS (bc_WSURL cfg)) (\<lambda>wsU.
        ebind (echeck (rpcU \<noteq> []) (''must define an RPC URL for backend '' @ name)) (\<lambda>_.
        ebind (if bc_Password cfg \<noteq> [] then ebind (ReadFromEnvOrConfig OS (bc_Password cfg)) (\<lambda>pw. Inr [WithBasicAuth (bc_Username cfg) pw])
               else Inr []) (\<lambda>auth.
        ebind (resolve_headers OS (bc_Headers cfg)) (\<lambda>headers.
        ebind (configureBackendTLS OS cfg) (\<lambda>tls.
        ebind (ReadFromEnvOrConfig OS (bc_ConsensusReceiptsTarget cfg)) (\<lambda>tgt.
        ebind (validateReceiptsTarget tgt) (\<lambda>target.
          Inr (name, (NewBackend L name rpcU wsU sem
            (common_opts bo @ opt_if (bc_MaxRPS cfg \<noteq> 0) (WithMaxRPS (bc_MaxRPS cfg)) @
             opt_if (bc_MaxWSConns cfg \<noteq> 0) (WithMaxWSConns (bc_MaxWSConns cfg)) @ auth @ [WithHeaders headers] @ own_opts OS cfg target))
            \<lparr>forwardRequestHeaders := bc_AllowedDynamicHeaders cfg\<rparr>))))))))))"

definition allowed_dynamic_headers :: "(string \<times> BackendConfig) list \<Rightarrow> string list" where
  "allowed_dynamic_headers bs = remdups (concat (map (\<lambda>(name, cfg). bc_AllowedDynamicHeaders cfg) bs))"

subsection \<open>Groups\<close>

definition routing_strategy :: "string \<Rightarrow> RoutingStrategy" where
  "routing_strategy s =
     (if s = ''consensus_aware'' then ConsensusAwareRoutingStrategy
      else if s = ''multicall'' then MulticallRoutingStrategy else FallbackRoutingStrategy)"

text \<open>
  The loop over the backends of a group: which are fallbacks, and how many entries of the list of fallbacks were matched. A group keeps the routing
  strategy as it is written; the empty one and an unknown one are treated like fallback where the strategy is used.
\<close>

fun group_fallbacks :: "(string \<times> 'b) list \<Rightarrow> string list \<Rightarrow> string list \<Rightarrow> (string \<times> bool) list \<Rightarrow> nat \<Rightarrow> err + (string \<times> bool) list \<times> nat" where
  "group_fallbacks backendsByName fallbacks [] fb n = Inr (fb, n)"
| "group_fallbacks backendsByName fallbacks (bName # bNames) fb n =
     (if map_of backendsByName bName = None then Inl (Errorf (''backend '' @ bName @ '' is not defined''))
      else
        let matched = length (filter (\<lambda>f. f = bName) fallbacks);
            fb1 = (if matched > 0 then AList.update bName True fb else fb);
            fb2 = (if map_of fb1 bName = None then AList.update bName False fb1 else fb1)
        in group_fallbacks backendsByName fallbacks bNames fb2 (n + matched))"

definition configure_group :: "(string \<times> 'b) list \<Rightarrow> string \<times> BackendGroupConfig \<Rightarrow> err + string \<times> BackendGroup" where
  "configure_group backendsByName entry =
     (case entry of (bgName, bg) \<Rightarrow>
        ebind (group_fallbacks backendsByName (gc_Fallbacks bg) (gc_Backends bg) [] 0) (\<lambda>(fb, fallbackCount).
        ebind (echeck (fallbackCount = length (gc_Fallbacks bg)) ''error: number of fallbacks instantiated did not match configured'') (\<lambda>_.
          Inr (bgName, \<lparr>bg_Name = bgName, Backends = gc_Backends bg, WeightedRouting = gc_WeightedRouting bg, FallbackBackends = fb,
            routingStrategy = routing_strategy (gc_RoutingStrategy bg), multicallRPCErrorCheck = gc_MulticallRPCErrorCheck bg\<rparr>))))"

text \<open>
  How the start ends: with an error, by \<open>log.Crit\<close>, which exits, with what was started, or with a server whose rate limiters have no Redis client
  and whose first use of them dereferences nil.
\<close>

datatype 'a start = StartError err | Crit string | NilLimiters | Started 'a

definition sbind :: "'a start \<Rightarrow> ('a \<Rightarrow> 'b start) \<Rightarrow> 'b start" where
  "sbind m f = (case m of StartError err \<Rightarrow> StartError err | Crit msg \<Rightarrow> Crit msg | NilLimiters \<Rightarrow> NilLimiters | Started x \<Rightarrow> f x)"

lemma sbind_simps [simp]: "sbind (StartError err) f = StartError err" "sbind (Crit msg) f = Crit msg" "sbind NilLimiters f = NilLimiters" "sbind (Started x) f = f x"
  by (simp_all add: sbind_def)

lemma sbind_Started: "sbind m f = Started y \<longleftrightarrow> (\<exists>x. m = Started x \<and> f x = Started y)"
  by (cases m) auto

definition of_result :: "err + 'a \<Rightarrow> 'a start" where
  "of_result r = (case r of Inl err \<Rightarrow> StartError err | Inr x \<Rightarrow> Started x)"

lemma of_result_Started [simp]: "of_result r = Started x \<longleftrightarrow> r = Inr x"
  by (cases r) (simp_all add: of_result_def)

fun smap :: "('a \<Rightarrow> 'b start) \<Rightarrow> 'a list \<Rightarrow> 'b list start" where
  "smap f [] = Started []"
| "smap f (x # xs) = sbind (f x) (\<lambda>y. sbind (smap f xs) (\<lambda>ys. Started (y # ys)))"

lemma smap_Started: "smap f xs = Started ys \<longleftrightarrow> list_all2 (\<lambda>x y. f x = Started y) xs ys"
  by (induction xs arbitrary: ys) (auto simp: sbind_Started list_all2_Cons1)

definition ValidateRoutingStrategy :: "BackendGroupConfig \<Rightarrow> (BackendGroupConfig \<times> bool) start" where
  "ValidateRoutingStrategy b =
     (if gc_ConsensusAware b \<and> gc_RoutingStrategy b \<noteq> []
      then Crit ''Exiting consensus_aware and routing strategy are mutually exclusive, they cannot both be defined''
      else
        let b1 = (if gc_ConsensusAware b then b\<lparr>gc_RoutingStrategy := ''consensus_aware''\<rparr> else b)
        in if gc_RoutingStrategy b1 \<in> {''consensus_aware'', ''multicall'', ''fallback''} then Started (b1, True)
           else if gc_RoutingStrategy b1 = [] then Started (b1\<lparr>gc_RoutingStrategy := ''fallback''\<rparr>, True)
           else Started (b1, False))"

datatype tracker = InMemoryTracker ConsensusTrackerState | RedisTracker RedisConsensusTracker

definition poller_opts :: "BackendGroupConfig \<Rightarrow> ('e, 't) ConsensusOpt list" where
  "poller_opts bg =
     opt_if (gc_ConsensusBanPeriod bg > 0) (WithBanPeriod (gc_ConsensusBanPeriod bg)) @
     opt_if (gc_ConsensusMaxUpdateThreshold bg > 0) (WithMaxUpdateThreshold (gc_ConsensusMaxUpdateThreshold bg)) @
     opt_if (gc_ConsensusMaxBlockLag bg > 0) (WithMaxBlockLag (gc_ConsensusMaxBlockLag bg)) @
     opt_if (gc_ConsensusMinPeerCount bg > 0) (WithMinPeerCount (word_of_int (gc_ConsensusMinPeerCount bg))) @
     opt_if (gc_ConsensusMaxBlockRange bg > 0) (WithMaxBlockRange (gc_ConsensusMaxBlockRange bg)) @
     opt_if (gc_ConsensusPollerInterval bg > 0) (WithPollerInterval (gc_ConsensusPollerInterval bg))"

definition tracker_opts :: "BackendGroupConfig \<Rightarrow> RedisConsensusTrackerOpt list" where
  "tracker_opts bg =
     opt_if (gc_ConsensusHALockPeriod bg > 0) (WithLockPeriod (gc_ConsensusHALockPeriod bg)) @
     opt_if (gc_ConsensusHAHeartbeatInterval bg > 0) (WithHeartbeatInterval (gc_ConsensusHAHeartbeatInterval bg))"

text \<open>The tracker of a group that shares its consensus; its URL is not read from the environment.\<close>

definition configure_tracker :: "'h redis_lib \<Rightarrow> BackendGroupConfig \<Rightarrow> BackendGroup \<Rightarrow> tracker option start" where
  "configure_tracker H cfg bg =
     (if \<not> gc_ConsensusHA cfg then Started None
      else let r = gc_ConsensusHARedis cfg
        in if rc_URL r = [] then Crit ''must specify a consensus_ha_redis config when consensus_ha is true''
           else sbind (of_result (NewRedisClient H (rc_URL r) (RedisCluster r))) (\<lambda>client.
             case CheckRedisConnection H client of
               Some err \<Rightarrow> StartError err
             | None \<Rightarrow> Started (Some (RedisTracker (NewRedisConsensusTracker (rc_Namespace r @ '':'' @ bg_Name bg) (tracker_opts cfg))))))"

definition configure_poller ::
  "'h redis_lib \<Rightarrow> (string \<times> BackendGroupConfig) list \<Rightarrow> string \<times> BackendGroup \<Rightarrow> (string \<times> BackendGroup \<times> ('e, tracker) ConsensusPoller option) start" where
  "configure_poller H cfgs entry =
     (case entry of (bgName, bg) \<Rightarrow>
        sbind (ValidateRoutingStrategy (the (map_of cfgs bgName))) (\<lambda>(cfg, ok).
          if \<not> ok then Crit ''Invalid routing strategy provided. Valid options: fallback, multicall, consensus_aware, \"\"''
          else if gc_RoutingStrategy cfg = ''consensus_aware'' then
            if list_ex (\<lambda>be. map_of (FallbackBackends bg) be = None) (gc_Backends cfg)
            then Crit ''error backend not found in backend fallback configurations''
            else sbind (configure_tracker H cfg bg) (\<lambda>t.
              Started (bgName, bg, Some (NewConsensusPoller bg (InMemoryTracker NewInMemoryConsensusTracker)
                (poller_opts cfg @ (case t of None \<Rightarrow> [] | Some t \<Rightarrow> [WithTracker t])))))
          else Started (bgName, bg, None)))"

subsection \<open>Interop validation\<close>

definition defaultInteropReqSizeLimit :: int where
  "defaultInteropReqSizeLimit = 128 * 1024"

definition defaultInteropAccessListSizeLimit :: int where
  "defaultInteropAccessListSizeLimit = 1000"

definition defaultInteropLoadBalancingUnhealthinessTimeout :: Duration where
  "defaultInteropLoadBalancingUnhealthinessTimeout = 10 * time_Second"

definition interop_defaults :: "InteropValidationConfig \<Rightarrow> InteropValidationConfig" where
  "interop_defaults c =
     (let c1 = (if iv_Strategy c = [] then c\<lparr>iv_Strategy := ''first-supervisor''\<rparr> else c);
          c2 = (if iv_LoadBalancingUnhealthinessTimeout c1 = 0 \<and> iv_Strategy c1 = ''health-aware-load-balancing''
                then c1\<lparr>iv_LoadBalancingUnhealthinessTimeout := defaultInteropLoadBalancingUnhealthinessTimeout\<rparr> else c1);
          c3 = (if iv_ReqSizeLimit c2 = 0 then c2\<lparr>iv_ReqSizeLimit := defaultInteropReqSizeLimit\<rparr> else c2)
      in if iv_AccessListSizeLimit c3 = 0 then c3\<lparr>iv_AccessListSizeLimit := defaultInteropAccessListSizeLimit\<rparr> else c3)"

datatype interop = FirstSupervisor commonInteropStrategy | MulticallSupervisors commonInteropStrategy
  | HealthAware commonInteropStrategy loadBalancingBuffer

definition configure_interop :: "InteropValidationConfig \<Rightarrow> err + interop" where
  "configure_interop c =
     (let common = NewCommonInteropStrategy (iv_Urls c) [WithReqSizeLimit (iv_ReqSizeLimit c), WithAccessListSizeLimit (iv_AccessListSizeLimit c)]
      in if iv_Strategy c = ''first-supervisor'' \<or> iv_Strategy c = [] then Inr (FirstSupervisor common)
         else if iv_Strategy c = ''multicall'' then Inr (MulticallSupervisors common)
         else if iv_Strategy c = ''health-aware-load-balancing''
         then Inr (HealthAware common (NewLoadBalancingBuffer (iv_Urls c) (iv_LoadBalancingUnhealthinessTimeout c)))
         else Inl (Errorf (''invalid interop validating strategy: '' @ iv_Strategy c)))"

text \<open>
  The strategy as the server calls it. Which of the results of a multicall comes first is up to the scheduler: \<open>sched\<close> gives the result of a started
  multicall, nothing if the caller waits forever. The state is that of the load balancer.
\<close>

definition interop_Validate ::
  "'e World \<Rightarrow> 'e supervisor \<Rightarrow> ('e \<Rightarrow> string list \<Rightarrow> multicall \<Rightarrow> ('e \<times> err option) option) \<Rightarrow> interop \<Rightarrow> Ctx \<Rightarrow> string list \<Rightarrow> 'e
    \<Rightarrow> loadBalancingBuffer \<Rightarrow> ('e \<times> loadBalancingBuffer \<times> err option) run" where
  "interop_Validate W V sched strategy ctx acl e i =
     (case strategy of
        FirstSupervisor s \<Rightarrow> rbind (first_ValidateAccessList W V s e acl) (\<lambda>(e1, err). rreturn (e1, i, err))
      | MulticallSupervisors s \<Rightarrow>
          rbind (multicall_ValidateAccessList W V s e acl) (\<lambda>(e1, r).
            case r of
              Inl err \<Rightarrow> rreturn (e1, i, err)
            | Inr (acl1, m0) \<Rightarrow> (case sched e1 acl1 m0 of None \<Rightarrow> None | Some (e2, err) \<Rightarrow> rreturn (e2, i, err)))
      | HealthAware s b \<Rightarrow> balanced_ValidateAccessList W V s e i acl)"

subsection \<open>Caches and rate limiters\<close>

text \<open>Caches of one of the two stores, as caches of both.\<close>

definition on_fst :: "'a Cache \<Rightarrow> ('a \<times> 'b) Cache" where
  "on_fst C = \<lparr>cache_Get = \<lambda>now key (a, b). (case cache_Get C now key a of (a', r) \<Rightarrow> ((a', b), r)),
     cache_Put = \<lambda>now key val (a, b). (case cache_Put C now key val a of (a', r) \<Rightarrow> ((a', b), r))\<rparr>"

definition on_snd :: "'b Cache \<Rightarrow> ('a \<times> 'b) Cache" where
  "on_snd C = \<lparr>cache_Get = \<lambda>now key (a, b). (case cache_Get C now key b of (b', r) \<Rightarrow> ((a, b'), r)),
     cache_Put = \<lambda>now key val (a, b). (case cache_Put C now key val b of (b', r) \<Rightarrow> ((a, b'), r))\<rparr>"

definition defaultCacheTtl :: Duration where
  "defaultCacheTtl = 60 * 60 * time_Second"

text \<open>\<open>ops\<close> are the operations of a client, on the deployment of Redis that is the first part of the state.\<close>

definition configure_cache ::
  "('h \<Rightarrow> 'r redis) \<Rightarrow> 'u lru \<Rightarrow> snappy \<Rightarrow> cache_text \<Rightarrow> geth \<Rightarrow> Config \<Rightarrow> 'h option \<times> 'h option \<Rightarrow> ('r \<times> 'u) RPCCache option" where
  "configure_cache ops U Z X G c clients =
     (if \<not> cc_Enabled (cf_Cache c) then None
      else
        let ttl = (if cc_TTL (cf_Cache c) \<noteq> 0 then cc_TTL (cf_Cache c) else defaultCacheTtl);
            cache = (if UseInmemCache (cf_Cache c) then on_snd (memory_cache U)
                     else case clients of
                       (Some w, Some r) \<Rightarrow>
                         (let shared = newRedisCache (ops w) (ops r) (rc_Namespace (cf_Redis c)) ttl
                          in if FallbackToMemory (cf_Redis c) then newFallbackCache shared (memory_cache U) else on_fst shared)
                     | _ \<Rightarrow> on_snd (memory_cache U))
        in Some (rpcCache X G (newCacheWithCompression Z cache)))"

text \<open>
  The limiters: the state is the deployment of Redis and, for every slot, the limiter in memory once it was used. A limiter in Redis without a
  client cannot be used: there is no factory then.
\<close>

type_synonym 'r limiters = "'r \<times> (limiter_slot \<Rightarrow> MemoryFrontendRateLimiter option)"

definition memory_slot :: "limiter_slot \<Rightarrow> Duration \<Rightarrow> int \<Rightarrow> (limiter_slot \<Rightarrow> MemoryFrontendRateLimiter option) limiter_take" where
  "memory_slot slot dur mx now ms key =
     (case Memory_Take now (case ms slot of None \<Rightarrow> NewMemoryFrontendRateLimit dur mx | Some m \<Rightarrow> m) key of
        (m, r) \<Rightarrow> (ms(slot := Some m), r))"

definition memory_limiter :: "'r limiters limiterFactoryFunc" where
  "memory_limiter slot dur mx pfx now l key = (case memory_slot slot dur mx now (snd l) key of (ms, x) \<Rightarrow> ((fst l, ms), x))"

definition redis_limiter :: "'r redis \<Rightarrow> bool \<Rightarrow> 'r limiters limiterFactoryFunc" where
  "redis_limiter R fallback slot dur mx pfx =
     (let primary = Redis_Take R (NewRedisFrontendRateLimiter dur mx pfx)
      in if fallback then Fallback_Take primary (memory_slot slot dur mx)
         else (\<lambda>now l key. case primary now (fst l) key of (r, x) \<Rightarrow> ((r, snd l), x)))"

definition limiterFactory :: "('h \<Rightarrow> 'r redis) \<Rightarrow> Config \<Rightarrow> 'h option \<Rightarrow> 'r limiters limiterFactoryFunc option" where
  "limiterFactory ops c client =
     (if UseRedis (cf_RateLimit c) \<or> UseRedis (cf_HighPrioRateLimit c)
      then map_option (\<lambda>h. redis_limiter (ops h) (FallbackToMemory (cf_Redis c))) client
      else Some memory_limiter)"

subsection \<open>The start\<close>

text \<open>What the start uses of other packages and of the system.\<close>

record ('e, 'm, 'h, 'r, 'u) deps =
  dp_os :: os
  dp_redis :: "'h redis_lib"
  dp_ops :: "'h \<Rightarrow> 'r redis"
  dp_lru :: "'u lru"
  dp_snappy :: snappy
  dp_text :: cache_text
  dp_geth :: geth
  dp_lhm :: "'m lhm"
  dp_world :: "'e World"
  dp_supervisor :: "'e supervisor"
  dp_sched :: "'e \<Rightarrow> string list \<Rightarrow> multicall \<Rightarrow> ('e \<times> err option) option"
  dp_compile :: "string \<Rightarrow> err + (string \<Rightarrow> bool)"
  dp_HexToAddress :: "string \<Rightarrow> string"

text \<open>
  What was started: the server, its backends, the websocket group and whitelist, the number of concurrent requests (nothing if unlimited), the texts of the
  errors that the configuration replaces, and which servers listen.
\<close>

record ('e, 'm, 'r, 'u) started =
  st_server :: "('e, tracker, 'r \<times> 'u, 'r limiters, loadBalancingBuffer) Server"
  st_backends :: "(string \<times> 'm Backend) list"
  st_wsGroup :: "BackendGroup option"
  st_wsWhitelist :: StringSet
  st_concurrency :: "int option"
  st_messages :: "string option \<times> string option \<times> string option"
  st_interop :: interop
  st_rpc :: bool
  st_ws :: bool
  st_metrics :: bool

definition check_sections :: "Config \<Rightarrow> err + unit" where
  "check_sections c =
     ebind (echeck (cf_Backends c \<noteq> []) ''must define at least one backend'') (\<lambda>_.
     ebind (echeck (cf_BackendGroups c \<noteq> []) ''must define at least one backend group'') (\<lambda>_.
     ebind (echeck (cf_RPCMethodMappings c \<noteq> []) ''must define at least one RPC method mapping'') (\<lambda>_.
     echeck (''none'' \<notin> set (map fst (cf_Authentication c))) ''cannot use none as an auth key'')))"

definition check_limits :: "Config \<Rightarrow> 'h option \<Rightarrow> err + unit" where
  "check_limits c client =
     ebind (echeck (\<not> (client = None \<and> UseRedis (cf_RateLimit c))) ''must specify a Redis URL if UseRedis is true in rate limit config'') (\<lambda>_.
       let l = cf_SenderRateLimit c
       in if Enabled l
          then ebind (echeck (sl_Limit l > 0) ''limit in sender_rate_limit must be > 0'') (\<lambda>_.
            echeck (sl_Interval l \<ge> time_Second) ''interval in sender_rate_limit must be >= 1s'')
          else Inr ())"

definition message_of :: "string \<Rightarrow> string option" where
  "message_of s = (if s \<noteq> [] then Some s else None)"

definition concurrency :: "ServerConfig \<Rightarrow> int option" where
  "concurrency s =
     (if DisableConcurrentRequestSemaphore s then None
      else Some (if MaxConcurrentRPCs s = 0 then math_MaxInt64 else MaxConcurrentRPCs s))"

definition ws_group :: "Config \<Rightarrow> (string \<times> BackendGroup) list \<Rightarrow> err + BackendGroup option" where
  "ws_group c groups =
     ebind (if WSBackendGroup c \<noteq> []
            then (case map_of groups (WSBackendGroup c) of
                    None \<Rightarrow> Inl (Errorf (''ws backend group '' @ WSBackendGroup c @ '' does not exist''))
                  | Some g \<Rightarrow> Inr (Some g))
            else Inr None) (\<lambda>g.
     ebind (echeck (\<not> (g = None \<and> WSPort (cf_Server c) \<noteq> 0)) ''a ws port was defined, but no ws group was defined'') (\<lambda>_. Inr g))"

definition check_mappings :: "Config \<Rightarrow> (string \<times> BackendGroup) list \<Rightarrow> err + unit" where
  "check_mappings c groups =
     ebind (emap (\<lambda>(method, g). echeck (map_of groups g \<noteq> None) (''undefined backend group '' @ g)) (cf_RPCMethodMappings c)) (\<lambda>_. Inr ())"

definition resolve_auth :: "os \<Rightarrow> (string \<times> string) list \<Rightarrow> err + (string \<rightharpoonup> string)" where
  "resolve_auth OS auth =
     ebind (emap (\<lambda>(secret, al). ebind (ReadFromEnvOrConfig OS secret) (\<lambda>s. Inr (s, al))) auth) (\<lambda>xs. Inr (map_of (rev xs)))"

text \<open>The server that is made from the parts.\<close>

definition start_server ::
  "('e, 'm, 'h, 'r, 'u) deps \<Rightarrow> Config \<Rightarrow> 'h option \<times> 'h option \<Rightarrow> 'r limiters limiterFactoryFunc \<Rightarrow> (string \<times> BackendGroup) list
    \<Rightarrow> (string \<rightharpoonup> string) \<Rightarrow> interop \<Rightarrow> err + ('e, tracker, 'r \<times> 'u, 'r limiters, loadBalancingBuffer) Server" where
  "start_server D c clients factory groups auth strategy =
     (let sc = cf_Server c; iv = interop_defaults (cf_Interop c)
      in case NewServer (dp_compile D) (\<lambda>n. map_option (\<lambda>g. (g, None)) (map_of groups n)) (map_of (cf_RPCMethodMappings c))
             (MaxBodySizeBytes sc) auth (secondsToDuration (TimeoutSeconds sc)) (sc_MaxUpstreamBatchSize sc) (EnableXServedByHeader sc)
             (configure_cache (dp_ops D) (dp_lru D) (dp_snappy D) (dp_text D) (dp_geth D) c clients)
             (cf_RateLimit c) (cf_HighPrioRateLimit c) (map (dp_HexToAddress D) (cf_HighPrioSigners c)) (cf_SenderRateLimit c) (iv_RateLimit iv)
             (MaxSize (cf_BatchConfig c)) factory (iv_ReqSizeLimit iv)
             (interop_Validate (dp_world D) (dp_supervisor D) (dp_sched D) strategy) (allowed_dynamic_headers (cf_Backends c)) of
           Inl err \<Rightarrow> Inl (Wrapped ''error creating server:'' (Some err))
         | Inr s \<Rightarrow> Inr s)"

text \<open>Everything up to the pollers.\<close>

definition prepare ::
  "('e, 'm, 'h, 'r, 'u) deps \<Rightarrow> Config \<Rightarrow> 'h option \<times> 'h option \<Rightarrow> 'r limiters limiterFactoryFunc
    \<Rightarrow> err + (string \<times> BackendGroup) list \<times> ('e, 'm, 'r, 'u) started" where
  "prepare D c clients factory =
     (let sc = cf_Server c
      in ebind (check_limits c (fst clients)) (\<lambda>_.
         ebind (emap (configure_backend (dp_lhm D) (dp_os D) (concurrency sc \<noteq> None) (cf_BackendOptions c)) (cf_Backends c)) (\<lambda>backends.
         ebind (emap (configure_group backends) (cf_BackendGroups c)) (\<lambda>groups.
         ebind (ws_group c groups) (\<lambda>wsg.
         ebind (check_mappings c groups) (\<lambda>_.
         ebind (resolve_auth (dp_os D) (cf_Authentication c)) (\<lambda>auth.
         ebind (configure_interop (interop_defaults (cf_Interop c))) (\<lambda>strategy.
         ebind (start_server D c clients factory groups auth strategy) (\<lambda>s.
           Inr (groups,
             \<lparr>st_server = s, st_backends = backends, st_wsGroup = wsg, st_wsWhitelist = NewStringSetFromStrings (WSMethodWhitelist c),
              st_concurrency = concurrency sc,
              st_messages = (message_of (rl_ErrorMessage (cf_RateLimit c)), message_of (WhitelistErrorMessage c), message_of (bt_ErrorMessage (cf_BatchConfig c))),
              st_interop = strategy, st_rpc = (RPCPort sc \<noteq> 0), st_ws = (WSPort sc \<noteq> 0), st_metrics = mt_Enabled (cf_Metrics c)\<rparr>))))))))))"

definition with_pollers :: "(string \<times> BackendGroup \<times> ('e, tracker) ConsensusPoller option) list \<Rightarrow> ('e, 'm, 'r, 'u) started \<Rightarrow> ('e, 'm, 'r, 'u) started" where
  "with_pollers groups st = st\<lparr>st_server := (st_server st)\<lparr>BackendGroups := map_of groups\<rparr>\<rparr>"

text \<open>Whether a limiter is made at all.\<close>

definition has_limiters :: "Config \<Rightarrow> bool" where
  "has_limiters c \<longleftrightarrow> BaseRate (cf_RateLimit c) > 0 \<or> MethodOverrides (cf_RateLimit c) \<noteq> [] \<or> MethodOverrides (cf_HighPrioRateLimit c) \<noteq> [] \<or>
     Enabled (cf_SenderRateLimit c) \<or> Enabled (iv_RateLimit (cf_Interop c))"

definition Start :: "('e, 'm, 'h, 'r, 'u) deps \<Rightarrow> Config \<Rightarrow> ('e, 'm, 'r, 'u) started start" where
  "Start D c =
     sbind (of_result (check_sections c)) (\<lambda>_.
     sbind (of_result (redis_clients (dp_os D) (dp_redis D) (cf_Redis c))) (\<lambda>clients.
       let factory = limiterFactory (dp_ops D) c (fst clients)
       in sbind (of_result (prepare D c clients (case factory of None \<Rightarrow> \<lambda>slot dur mx prefix. Noop_Take | Some f \<Rightarrow> f))) (\<lambda>(groups, st).
          sbind (smap (configure_poller (dp_redis D) (cf_BackendGroups c)) groups) (\<lambda>pollers.
            if factory = None \<and> has_limiters c then NilLimiters else Started (with_pollers pollers st)))))"

subsection \<open>Lemmas\<close>

definition start_factory :: "('e, 'm, 'h, 'r, 'u) deps \<Rightarrow> Config \<Rightarrow> 'h option \<Rightarrow> 'r limiters limiterFactoryFunc" where
  "start_factory D c client = (case limiterFactory (dp_ops D) c client of None \<Rightarrow> \<lambda>slot dur mx prefix. Noop_Take | Some f \<Rightarrow> f)"

lemma Start_Started:
  assumes "Start D c = Started st"
  obtains clients groups st1 pollers where
    "redis_clients (dp_os D) (dp_redis D) (cf_Redis c) = Inr clients"
    "prepare D c clients (start_factory D c (fst clients)) = Inr (groups, st1)"
    "smap (configure_poller (dp_redis D) (cf_BackendGroups c)) groups = Started pollers"
    "st = with_pollers pollers st1"
  using assms unfolding Start_def start_factory_def [symmetric] Let_def
  by (auto simp: sbind_Started split: if_splits)

lemma prepare_Inr:
  assumes "prepare D c clients factory = Inr (groups, st)"
  obtains auth where
    "emap (configure_backend (dp_lhm D) (dp_os D) (concurrency (cf_Server c) \<noteq> None) (cf_BackendOptions c)) (cf_Backends c) = Inr (st_backends st)"
    "emap (configure_group (st_backends st)) (cf_BackendGroups c) = Inr groups" "ws_group c groups = Inr (st_wsGroup st)"
    "check_mappings c groups = Inr ()" "configure_interop (interop_defaults (cf_Interop c)) = Inr (st_interop st)"
    "start_server D c clients factory groups auth (st_interop st) = Inr (st_server st)" "st_ws st \<longleftrightarrow> WSPort (cf_Server c) \<noteq> 0"
  using assms unfolding prepare_def Let_def by (auto simp: ebind_Inr split: sum.splits) 

lemma NewServer_fields:
  assumes "NewServer compile groups mappings bodySize auth tmo upstream servedBy cache rl hp signers snd_cfg isnd_cfg batchSize factory reqSize strategy dyn = Inr s"
  shows "BackendGroups s = groups" "rpcMethodMappings s = mappings" "maxUpstreamBatchSize s = or_default defaultMaxUpstreamBatchSize upstream"
    "maxBatchSize s = min MaxBatchRPCCallsHardLimit (or_default DefaultMaxBatchRPCCallsLimit batchSize)" "interopStrategy s = strategy"
    "BaseRate rl > 0 \<Longrightarrow> mainLim s = factory MainLim (BaseInterval rl) (BaseRate rl) ''main''"
    "overrideLims s = override_limiters factory OverrideLim (MethodOverrides rl)"
    "highPrioOverrideLims s = override_limiters factory HighPrioLim (MethodOverrides hp)"
    "senderLim s = sender_limiter factory SenderLim snd_cfg ''senders''" "interopSenderLim s = sender_limiter factory InteropSenderLim isnd_cfg ''interop_senders''"
  using assms by (auto simp: NewServer_def split: sum.splits if_splits)

lemma Override_keeps:
  assumes "\<And>opt b. opt \<in> set opts \<Longrightarrow> f (opt b) = f b"
  shows "f (Override opts b) = f b"
  unfolding Override_def using assms by (induction opts arbitrary: b) auto

lemma Override_append: "Override (opts @ opts') b = Override opts' (Override opts b)"
  by (simp add: Override_def)

lemmas backend_opt_defs = opt_if_def WithBasicAuth_def WithHeaders_def WithTimeout_def WithMaxRetries_def WithMaxResponseSize_def WithOutOfServiceDuration_def
  WithMaxRPS_def WithMaxWSConns_def WithStrippedTrailingXFF_def WithProxydIP_def WithSkipIsSyncingCheck_def WithSafeBlockDriftThreshold_def
  WithFinalizedBlockDriftThreshold_def WithConsensusSkipPeerCountCheck_def WithConsensusForcedCandidate_def WithWeight_def
  WithMaxDegradedLatencyThreshold_def WithMaxLatencyThreshold_def WithMaxErrorRateThreshold_def WithConsensusReceiptTarget_def

lemma common_opts_keep:
  assumes "opt \<in> set (common_opts bo)"
  shows "Name (opt b) = Name b \<and> rpcURL (opt b) = rpcURL b \<and> wsURL (opt b) = wsURL b"
  using assms unfolding common_opts_def by (auto simp: backend_opt_defs split: if_splits)

lemma own_opts_keep:
  assumes "opt \<in> set (own_opts OS cfg target)"
  shows "Name (opt b) = Name b \<and> rpcURL (opt b) = rpcURL b \<and> wsURL (opt b) = wsURL b"
  using assms unfolding own_opts_def by (auto simp: backend_opt_defs split: if_splits option.splits)

lemma own_opts_target: "receiptsTarget (Override (own_opts OS cfg target) b) = target"
  unfolding own_opts_def append_assoc [symmetric] by (simp add: Override_append) (simp add: Override_def WithConsensusReceiptTarget_def)

lemma configured_backend:
  assumes "configure_backend L OS sem bo (name, cfg) = Inr (n, be)"
  shows "n = name" "Name be = name" "rpcURL be \<noteq> []" "ReadFromEnvOrConfig OS (bc_RPCURL cfg) = Inr (rpcURL be)"
    "receiptsTarget be \<in> set (ReceiptsTargetAlchemyGetTransactionReceipts # conventional_targets)"
proof -
  let ?auth = "if bc_Password cfg \<noteq> [] then ebind (ReadFromEnvOrConfig OS (bc_Password cfg)) (\<lambda>pw. Inr [WithBasicAuth (bc_Username cfg) pw]) else Inr []"
  obtain rpcU wsU auth headers tls tgt target where u: "ReadFromEnvOrConfig OS (bc_RPCURL cfg) = Inr rpcU" "ReadFromEnvOrConfig OS (bc_WSURL cfg) = Inr wsU"
      "rpcU \<noteq> []" "?auth = Inr auth" "resolve_headers OS (bc_Headers cfg) = Inr headers" "configureBackendTLS OS cfg = Inr tls"
      "ReadFromEnvOrConfig OS (bc_ConsensusReceiptsTarget cfg) = Inr tgt" "validateReceiptsTarget tgt = Inr target"
    and n: "n = name" and be: "be = (NewBackend L name rpcU wsU sem
            (common_opts bo @ opt_if (bc_MaxRPS cfg \<noteq> 0) (WithMaxRPS (bc_MaxRPS cfg)) @
             opt_if (bc_MaxWSConns cfg \<noteq> 0) (WithMaxWSConns (bc_MaxWSConns cfg)) @ auth @ [WithHeaders headers] @ own_opts OS cfg target))
            \<lparr>forwardRequestHeaders := bc_AllowedDynamicHeaders cfg\<rparr>"
    using assms unfolding configure_backend_def prod.case ebind_Inr [where y = "(n, be)"] echeck_Inr sum.inject prod.inject
    by (elim exE conjE) (rule that; (assumption | rule sym, assumption))
  have a: "auth = [] \<or> (\<exists>pw. auth = [WithBasicAuth (bc_Username cfg) pw])" using u(4) by (auto simp: ebind_Inr split: if_splits)
  let ?opts = "common_opts bo @ opt_if (bc_MaxRPS cfg \<noteq> 0) (WithMaxRPS (bc_MaxRPS cfg)) @
             opt_if (bc_MaxWSConns cfg \<noteq> 0) (WithMaxWSConns (bc_MaxWSConns cfg)) @ auth @ WithHeaders headers # own_opts OS cfg target"
  have keep: "Name (opt b) = Name b \<and> rpcURL (opt b) = rpcURL b" if "opt \<in> set ?opts" for opt b
    using that a own_opts_keep [of opt OS cfg target b] common_opts_keep [of opt bo b] by (auto simp: backend_opt_defs split: if_splits)
  have kept: "Name (Override ?opts b) = Name b" "rpcURL (Override ?opts b) = rpcURL b" for b
    by (rule Override_keeps, use keep in blast)+
  show "n = name" by (fact n)
  show "Name be = name" "rpcURL be \<noteq> []" "ReadFromEnvOrConfig OS (bc_RPCURL cfg) = Inr (rpcURL be)"
    unfolding be NewBackend_def using u by (simp_all add: kept)
  show "receiptsTarget be \<in> set (ReceiptsTargetAlchemyGetTransactionReceipts # conventional_targets)"
    using u(8) unfolding be NewBackend_def append_assoc [symmetric] Override_append [where opts' = "own_opts _ _ _"]
    by (auto simp: own_opts_target validateReceiptsTarget_def Let_def split: if_splits)
qed

text \<open>Association lists that are made entry by entry.\<close>

lemma map_of_related:
  assumes "list_all2 R xs ys" and "\<And>x y. R x y \<Longrightarrow> fst y = fst x" and "map_of ys k = Some v"
  shows "\<exists>u. map_of xs k = Some u \<and> R (k, u) (k, v)"
  using assms
proof (induction rule: list_all2_induct)
  case (Cons x xs y ys)
  then have "fst y = fst x" by simp
  then show ?case using Cons.hyps(1) Cons.IH Cons.prems by (cases x; cases y) (auto split: if_splits)
qed simp

lemma map_of_related_None:
  assumes "list_all2 R xs ys" and "\<And>x y. R x y \<Longrightarrow> fst y = fst x"
  shows "map_of ys k = None \<longleftrightarrow> map_of xs k = None"
  using assms
proof (induction rule: list_all2_induct)
  case (Cons x xs y ys)
  then have "fst y = fst x" by simp
  then show ?case using Cons.IH Cons.prems by (cases x; cases y) simp
qed simp

text \<open>The fallbacks of a group.\<close>

lemma group_fallbacks_Inr:
  assumes "group_fallbacks bes fs bs fb n = Inr (fb', n')" and "\<And>x. map_of fb x = (if x \<in> A then Some (x \<in> set fs) else None)"
  shows "(\<forall>b\<in>set bs. map_of bes b \<noteq> None) \<and> n' = n + (\<Sum>b\<leftarrow>bs. count_list fs b) \<and>
    (\<forall>x. map_of fb' x = (if x \<in> A \<union> set bs then Some (x \<in> set fs) else None))"
  using assms
proof (induction bs arbitrary: fb n A)
  case (Cons b bs)
  let ?m = "length (filter (\<lambda>f. f = b) fs)"
  let ?fb1 = "if ?m > 0 then AList.update b True fb else fb"
  let ?fb2 = "if map_of ?fb1 b = None then AList.update b False ?fb1 else ?fb1"
  have m: "?m = count_list fs b" by (simp add: count_list_eq_length_filter) (rule arg_cong [where f = length], rule filter_cong, auto)
  have pos: "?m > 0 \<longleftrightarrow> b \<in> set fs" by (auto simp: filter_empty_conv)
  have "map_of ?fb2 x = (if x \<in> insert b A then Some (x \<in> set fs) else None)" for x
    using Cons.prems(2) pos by (auto simp: update_conv' fun_upd_def)
  moreover have "map_of bes b \<noteq> None" "group_fallbacks bes fs bs ?fb2 (n + ?m) = Inr (fb', n')"
    using Cons.prems(1) by (auto simp: Let_def split: if_splits)
  ultimately show ?case using Cons.IH [of ?fb2 "n + ?m" "insert b A"] m by simp
qed simp

lemma sum_count_distinct:
  assumes "distinct bs"
  shows "(\<Sum>b\<leftarrow>bs. count_list fs b) = length (filter (\<lambda>f. f \<in> set bs) fs)"
proof (induction fs)
  case (Cons f fs)
  have "(\<Sum>b\<leftarrow>bs. count_list (f # fs) b) = (\<Sum>b\<leftarrow>bs. count_list fs b) + (if f \<in> set bs then 1 else 0)"
    using assms by (induction bs) auto
  then show ?case using Cons by simp
qed simp

lemma configured_group:
  assumes "configure_group bes (n, cfg) = Inr (n', bg)"
  shows "n' = n" "bg_Name bg = n" "Backends bg = gc_Backends cfg" "routingStrategy bg = routing_strategy (gc_RoutingStrategy cfg)"
    "b \<in> set (Backends bg) \<Longrightarrow> map_of bes b \<noteq> None \<and> map_of (FallbackBackends bg) b = Some (b \<in> set (gc_Fallbacks cfg))"
    "distinct (gc_Backends cfg) \<Longrightarrow> set (gc_Fallbacks cfg) \<subseteq> set (Backends bg)"
proof -
  obtain fb k where g: "group_fallbacks bes (gc_Fallbacks cfg) (gc_Backends cfg) [] 0 = Inr (fb, k)" "k = length (gc_Fallbacks cfg)"
    and e: "n' = n" "bg_Name bg = n" "Backends bg = gc_Backends cfg" "FallbackBackends bg = fb" "routingStrategy bg = routing_strategy (gc_RoutingStrategy cfg)"
    using assms by (auto simp: configure_group_def ebind_Inr)
  note f = group_fallbacks_Inr [OF g(1), of "{}", simplified]
  show "n' = n" "bg_Name bg = n" "Backends bg = gc_Backends cfg" "routingStrategy bg = routing_strategy (gc_RoutingStrategy cfg)" by (fact e)+
  show "map_of bes b \<noteq> None \<and> map_of (FallbackBackends bg) b = Some (b \<in> set (gc_Fallbacks cfg))" if "b \<in> set (Backends bg)"
    using f that e by auto
  show "set (gc_Fallbacks cfg) \<subseteq> set (Backends bg)" if d: "distinct (gc_Backends cfg)"
  proof -
    have "length (filter (\<lambda>f. f \<in> set (gc_Backends cfg)) (gc_Fallbacks cfg)) = length (gc_Fallbacks cfg)"
      using f g(2) sum_count_distinct [OF d] by simp
    then show ?thesis using length_filter_less [of _ "gc_Fallbacks cfg" "\<lambda>f. f \<in> set (gc_Backends cfg)"] e(3) by fastforce
  qed
qed

text \<open>Pollers are attached to the groups that are aware of the consensus.\<close>

definition consensus_aware :: "BackendGroupConfig \<Rightarrow> bool" where
  "consensus_aware cfg \<longleftrightarrow> gc_ConsensusAware cfg \<or> gc_RoutingStrategy cfg = ''consensus_aware''"

lemma configured_poller:
  assumes "configure_poller H cfgs (n, bg) = Started (n', bg', con)"
  shows "n' = n" "bg' = bg" "map_of cfgs n = Some cfg \<Longrightarrow> con \<noteq> None \<longleftrightarrow> consensus_aware cfg"
  using assms unfolding configure_poller_def ValidateRoutingStrategy_def consensus_aware_def
  by (auto simp: sbind_Started Let_def split: if_splits)

text \<open>What a started server was made from.\<close>

lemma started_groups:
  assumes "Start D c = Started st" and "BackendGroups (st_server st) g = Some (bg, con)"
  shows "\<exists>cfg. map_of (cf_BackendGroups c) g = Some cfg \<and> configure_group (st_backends st) (g, cfg) = Inr (g, bg) \<and> (con \<noteq> None \<longleftrightarrow> consensus_aware cfg)"
proof -
  obtain clients groups st1 pollers where p: "prepare D c clients (start_factory D c (fst clients)) = Inr (groups, st1)"
      "smap (configure_poller (dp_redis D) (cf_BackendGroups c)) groups = Started pollers" and st: "st = with_pollers pollers st1"
    using Start_Started [OF assms(1)] by metis
  have g: "emap (configure_group (st_backends st)) (cf_BackendGroups c) = Inr groups"
    using prepare_Inr [OF p(1)] st by (metis (no_types, lifting) with_pollers_def started.select_convs(2) started.surjective started.update_convs(1))
  have "\<exists>bg0. map_of groups g = Some bg0 \<and> configure_poller (dp_redis D) (cf_BackendGroups c) (g, bg0) = Started (g, bg, con)"
    by (rule map_of_related [OF p(2) [unfolded smap_Started]]) (use assms(2) st configured_poller(1) in \<open>auto simp: with_pollers_def\<close>)
  then obtain bg0 where b: "map_of groups g = Some bg0" "configure_poller (dp_redis D) (cf_BackendGroups c) (g, bg0) = Started (g, bg, con)" by blast
  have "\<exists>cfg. map_of (cf_BackendGroups c) g = Some cfg \<and> configure_group (st_backends st) (g, cfg) = Inr (g, bg0)"
    by (rule map_of_related [OF g [unfolded emap_Inr]]) (use b(1) configured_group(1) in auto)
  then show ?thesis using configured_poller(2,3) [OF b(2)] by auto
qed

lemma start_server_Inr:
  assumes "start_server D c clients factory groups auth strategy = Inr s"
  shows "NewServer (dp_compile D) (\<lambda>n. map_option (\<lambda>g. (g, None)) (map_of groups n)) (map_of (cf_RPCMethodMappings c))
      (MaxBodySizeBytes (cf_Server c)) auth (secondsToDuration (TimeoutSeconds (cf_Server c))) (sc_MaxUpstreamBatchSize (cf_Server c))
      (EnableXServedByHeader (cf_Server c)) (configure_cache (dp_ops D) (dp_lru D) (dp_snappy D) (dp_text D) (dp_geth D) c clients)
      (cf_RateLimit c) (cf_HighPrioRateLimit c) (map (dp_HexToAddress D) (cf_HighPrioSigners c)) (cf_SenderRateLimit c)
      (iv_RateLimit (interop_defaults (cf_Interop c))) (MaxSize (cf_BatchConfig c)) factory (iv_ReqSizeLimit (interop_defaults (cf_Interop c)))
      (interop_Validate (dp_world D) (dp_supervisor D) (dp_sched D) strategy) (allowed_dynamic_headers (cf_Backends c)) = Inr s"
  using assms unfolding start_server_def Let_def by (simp split: sum.splits)

lemma started_server:
  assumes "Start D c = Started st"
  shows "rpcMethodMappings (st_server st) = map_of (cf_RPCMethodMappings c)"
    "maxUpstreamBatchSize (st_server st) = or_default defaultMaxUpstreamBatchSize (sc_MaxUpstreamBatchSize (cf_Server c))"
    "maxBatchSize (st_server st) \<le> MaxBatchRPCCallsHardLimit"
    "interopStrategy (st_server st) = interop_Validate (dp_world D) (dp_supervisor D) (dp_sched D) (st_interop st)"
    "configure_interop (interop_defaults (cf_Interop c)) = Inr (st_interop st)"
    "map_of (cf_RPCMethodMappings c) m = Some g \<Longrightarrow> BackendGroups (st_server st) g \<noteq> None"
    "st_ws st \<Longrightarrow> st_wsGroup st \<noteq> None"
    "emap (configure_backend (dp_lhm D) (dp_os D) (concurrency (cf_Server c) \<noteq> None) (cf_BackendOptions c)) (cf_Backends c) = Inr (st_backends st)"
proof -
  obtain clients groups st1 pollers where p: "prepare D c clients (start_factory D c (fst clients)) = Inr (groups, st1)"
      "smap (configure_poller (dp_redis D) (cf_BackendGroups c)) groups = Started pollers" and st: "st = with_pollers pollers st1"
    using Start_Started [OF assms(1)] by metis
  obtain auth where a: "emap (configure_backend (dp_lhm D) (dp_os D) (concurrency (cf_Server c) \<noteq> None) (cf_BackendOptions c)) (cf_Backends c) = Inr (st_backends st1)"
      "ws_group c groups = Inr (st_wsGroup st1)" "check_mappings c groups = Inr ()" "configure_interop (interop_defaults (cf_Interop c)) = Inr (st_interop st1)"
      "start_server D c clients (start_factory D c (fst clients)) groups auth (st_interop st1) = Inr (st_server st1)" "st_ws st1 \<longleftrightarrow> WSPort (cf_Server c) \<noteq> 0"
    using prepare_Inr [OF p(1)] by metis
  note f = NewServer_fields [OF start_server_Inr [OF a(5)]]
  show "rpcMethodMappings (st_server st) = map_of (cf_RPCMethodMappings c)"
    "maxUpstreamBatchSize (st_server st) = or_default defaultMaxUpstreamBatchSize (sc_MaxUpstreamBatchSize (cf_Server c))"
    "maxBatchSize (st_server st) \<le> MaxBatchRPCCallsHardLimit"
    "interopStrategy (st_server st) = interop_Validate (dp_world D) (dp_supervisor D) (dp_sched D) (st_interop st)"
    "configure_interop (interop_defaults (cf_Interop c)) = Inr (st_interop st)"
    "emap (configure_backend (dp_lhm D) (dp_os D) (concurrency (cf_Server c) \<noteq> None) (cf_BackendOptions c)) (cf_Backends c) = Inr (st_backends st)"
    using st a(1,4) f(2-5) by (simp_all add: with_pollers_def)
  show "BackendGroups (st_server st) g \<noteq> None" if m: "map_of (cf_RPCMethodMappings c) m = Some g"
  proof -
    have "(m, g) \<in> set (cf_RPCMethodMappings c)" using map_of_SomeD [OF m] .
    then have "map_of groups g \<noteq> None" using a(3) by (auto simp: check_mappings_def ebind_Inr emap_Inr list_all2_conv_all_nth in_set_conv_nth)
    moreover have "map_of pollers g = None \<longleftrightarrow> map_of groups g = None"
      by (rule map_of_related_None [OF p(2) [unfolded smap_Started]]) (use configured_poller(1) in auto)
    ultimately show ?thesis using st by (simp add: with_pollers_def)
  qed
  show "st_wsGroup st \<noteq> None" if "st_ws st"
    using that st a(2,6) by (auto simp: with_pollers_def ws_group_def ebind_Inr)
qed

subsection \<open>Interop checks\<close>

text \<open>The common part of a strategy, and what a multicall that is scheduled in some way may answer.\<close>

definition interop_common :: "interop \<Rightarrow> commonInteropStrategy" where
  "interop_common strategy = (case strategy of FirstSupervisor s \<Rightarrow> s | MulticallSupervisors s \<Rightarrow> s | HealthAware s b \<Rightarrow> s)"

definition possible_schedule :: "'e World \<Rightarrow> 'e supervisor \<Rightarrow> ('e \<Rightarrow> string list \<Rightarrow> multicall \<Rightarrow> ('e \<times> err option) option) \<Rightarrow> bool" where
  "possible_schedule W V sched \<longleftrightarrow> (\<forall>e acl m0 e' r. sched e acl m0 = Some (e', r) \<longrightarrow>
     (\<exists>m x. (mc_step W V acl)\<^sup>*\<^sup>* (e, m0) (e', m) \<and> mc_result m = Some x \<and> r = map_option RpcE x))"

lemma interop_urls:
  assumes "interop_Validate W V sched strategy ctx acl e i = rreturn (e', i', r)"
  shows "map hb_url (lb_backends i') = map hb_url (lb_backends i)"
proof (cases strategy)
  case (HealthAware s b)
  then show ?thesis using assms balanced_urls [of W V s e i acl e' i' r] by (simp add: interop_Validate_def)
next
  case (MulticallSupervisors s)
  then obtain e1 x where "(case x of Inl err \<Rightarrow> rreturn (e1, i, err) | Inr (acl1, m0) \<Rightarrow>
      (case sched e1 acl1 m0 of None \<Rightarrow> None | Some (e2, err) \<Rightarrow> rreturn (e2, i, err))) = rreturn (e', i', r)"
    using assms by (auto simp: interop_Validate_def rbind_eq_return)
  then show ?thesis by (cases x) (auto split: option.splits)
qed (use assms in \<open>auto simp: interop_Validate_def rbind_eq_return\<close>)

lemma interop_accepted:
  assumes h: "interop_Validate W V sched strategy ctx acl e i = rreturn (e', i', None)" and "possible_schedule W V sched"
    and us: "map hb_url (lb_backends i) = urls (interop_common strategy)"
  shows "interop_ok V (interop_common strategy) acl"
proof (cases strategy)
  case (FirstSupervisor s)
  then show ?thesis using h first_accepted [of W V s e acl] by (auto simp: interop_Validate_def interop_common_def rbind_eq_return)
next
  case (HealthAware s b)
  then show ?thesis using h us balanced_accepted [of i s W V e acl] by (auto simp: interop_Validate_def interop_common_def)
next
  case (MulticallSupervisors s)
  then obtain e1 x where x: "multicall_ValidateAccessList W V s e acl = rreturn (e1, x)"
    "(case x of Inl err \<Rightarrow> rreturn (e1, i, err) | Inr (acl1, m0) \<Rightarrow> (case sched e1 acl1 m0 of None \<Rightarrow> None | Some (e2, err) \<Rightarrow> rreturn (e2, i, err))) = rreturn (e', i', None)"
    using h by (auto simp: interop_Validate_def rbind_eq_return)
  show ?thesis
  proof (cases x)
    case (Inl err)
    then show ?thesis using x multicall_started(1) [of W V s e acl e1] MulticallSupervisors by (simp add: interop_common_def)
  next
    case (Inr y)
    obtain acl1 m0 where y: "y = (acl1, m0)" by fastforce
    obtain e2 where "sched e1 acl1 m0 = Some (e2, None)" using x(2) Inr y by (auto split: option.splits)
    then obtain m where m: "(mc_step W V acl1)\<^sup>*\<^sup>* (e1, m0) (e2, m)" "mc_result m = Some None"
      using assms(2) unfolding possible_schedule_def by fastforce
    note st = multicall_started(2) [OF x(1) [unfolded Inr y]]
    have "mc_inv W V acl1 (urls s) (e2, m)" by (rule mc_inv_reachable [OF m(1)]) (simp add: st mc_inv_start)
    then show ?thesis using mc_accepted [of W V acl1 "urls s" e2 m] m(2) st MulticallSupervisors by (simp add: interop_common_def)
  qed
qed

lemma interop_defaults_urls: "iv_Urls (interop_defaults c) = iv_Urls c"
  by (simp add: interop_defaults_def Let_def)

lemma configured_interop:
  assumes "configure_interop c = Inr strategy"
  shows "interop_common strategy = NewCommonInteropStrategy (iv_Urls c) [WithReqSizeLimit (iv_ReqSizeLimit c), WithAccessListSizeLimit (iv_AccessListSizeLimit c)]"
  using assms by (auto simp: configure_interop_def Let_def interop_common_def split: if_splits)

lemma started_interop:
  assumes "Start D c = Started st"
  shows "urls (interop_common (st_interop st)) = iv_Urls (cf_Interop c)" "\<not> skipOnNoSupervisorBackend (interop_common (st_interop st))"
  using configured_interop [OF started_server(5) [OF assms]]
  by (simp_all add: NewCommonInteropStrategy_def WithReqSizeLimit_def WithAccessListSizeLimit_def interop_defaults_urls)

lemma isLimited_interop: "sv_interop (fst (isLimited W s unlimited signer xff m st)) = sv_interop st"
  unfolding isLimited_def take_limit_def by (auto split: option.split prod.split)

definition transaction_checked :: "'tx txlib \<Rightarrow> 'e supervisor \<Rightarrow> commonInteropStrategy \<Rightarrow> RPCReq \<Rightarrow> bool" where
  "transaction_checked B V s req \<longleftrightarrow> Method req = ''eth_sendRawTransaction'' \<or> Method req = ''eth_sendRawTransactionConditional'' \<longrightarrow>
    (\<exists>tx. convertSendReqToSendTx B req = Inr tx \<and> (TxToInteropAccessList B tx = [] \<or> interop_ok V s (TxToInteropAccessList B tx)))"

lemma admit_interop:
  assumes strategy: "interopStrategy s = interop_Validate W' V sched strategy" and sched: "possible_schedule W' V sched"
    and us: "map hb_url (lb_backends (sv_interop st)) = urls (interop_common strategy)"
    and a: "admit W P B s ctx (isLimited W s unlimited signer xff) n raw st = rreturn (st', d)"
  shows "map hb_url (lb_backends (sv_interop st')) = urls (interop_common strategy)"
    "d = Admit req g \<Longrightarrow> transaction_checked B V (interop_common strategy) req"
proof -
  note lim = isLimited_interop [of W s unlimited signer xff]
  have u: "map hb_url (lb_backends (sv_interop st')) = urls (interop_common strategy) \<and> (d = Admit req g \<longrightarrow> transaction_checked B V (interop_common strategy) req)"
    using a
  proof (cases rule: admit_cases)
    case (over_method m st1)
    then show ?thesis using lim [of "[]" st] lim [of m st1] us by simp
  next
    case (checked rq st1 st2 er)
    have us2: "map hb_url (lb_backends (sv_interop st2)) = urls (interop_common strategy)"
      using checked(2)
    proof
      assume "\<exists>m. isLimited W s unlimited signer xff m st1 = (st2, False)"
      then obtain m where "isLimited W s unlimited signer xff m st1 = (st2, False)" by blast
      then show ?thesis using lim [of m st1] lim [of "[]" st] checked(1) us by simp
    qed (use checked(1) lim [of "[]" st] us in simp)
    have us3: "map hb_url (lb_backends (sv_interop st')) = urls (interop_common strategy)"
      by (rule check_transaction_invariant [OF checked(3), where J = "\<lambda>x. map hb_url (lb_backends (sv_interop x)) = urls (interop_common strategy)"])
        (use us2 in \<open>auto simp: strategy dest: interop_urls\<close>)
    have "transaction_checked B V (interop_common strategy) rq" if "er = None"
      unfolding transaction_checked_def
    proof
      assume "Method rq = ''eth_sendRawTransaction'' \<or> Method rq = ''eth_sendRawTransactionConditional''"
      from check_transaction_passed [OF checked(3) [unfolded that] this] obtain tx where tx: "convertSendReqToSendTx B rq = Inr tx"
        "TxToInteropAccessList B tx = [] \<or> (\<exists>e e' i'. interopStrategy s ctx (TxToInteropAccessList B tx) e (sv_interop st2) = rreturn (e', i', None))" .
      then show "\<exists>tx. convertSendReqToSendTx B rq = Inr tx \<and> (TxToInteropAccessList B tx = [] \<or> interop_ok V (interop_common strategy) (TxToInteropAccessList B tx))"
        using interop_accepted [OF _ sched us2] strategy by auto
    qed
    then show ?thesis using us3 checked(4) by auto
  qed (use us lim [of "[]" st] in auto)
  then show "map hb_url (lb_backends (sv_interop st')) = urls (interop_common strategy)"
    "d = Admit req g \<Longrightarrow> transaction_checked B V (interop_common strategy) req" by blast+
qed

subsection \<open>Rate limits in memory\<close>

text \<open>The limiters in memory keep such a counter as long as the clock stays in one window.\<close>

definition main_used :: "Time \<Rightarrow> string \<Rightarrow> 'r limiters \<Rightarrow> int" where
  "main_used now key l = (case snd l MainLim of None \<Rightarrow> 0 | Some m \<Rightarrow> mem_used now m key)"

definition limits_of :: "RateLimitConfig \<Rightarrow> 'r limiters \<Rightarrow> bool" where
  "limits_of rl l \<longleftrightarrow> (case snd l MainLim of None \<Rightarrow> True | Some m \<Rightarrow> mem_dur m = BaseInterval rl \<and> mem_max m = BaseRate rl)"

definition hold_clock :: "Duration \<Rightarrow> Time \<Rightarrow> 'e World \<Rightarrow> 'e World" where
  "hold_clock d now W = W\<lparr>w_now := \<lambda>e. if truncateNow d (w_now W e) = truncateNow d now then w_now W e else now\<rparr>"

definition with_memory_limits :: "Config \<Rightarrow> ('e, 't, 'c, 'r limiters, 'i) Server \<Rightarrow> ('e, 't, 'c, 'r limiters, 'i) Server" where
  "with_memory_limits c s =
     s\<lparr>mainLim := memory_limiter MainLim (BaseInterval (cf_RateLimit c)) (BaseRate (cf_RateLimit c)) ''main'',
       overrideLims := override_limiters memory_limiter OverrideLim (MethodOverrides (cf_RateLimit c)),
       highPrioOverrideLims := override_limiters memory_limiter HighPrioLim (MethodOverrides (cf_HighPrioRateLimit c)),
       senderLim := sender_limiter memory_limiter SenderLim (cf_SenderRateLimit c) ''senders'',
       interopSenderLim := sender_limiter memory_limiter InteropSenderLim (iv_RateLimit (interop_defaults (cf_Interop c))) ''interop_senders''\<rparr>"

lemma hold_clock_window: "truncateNow d (w_now (hold_clock d now W) e) = truncateNow d now"
  by (simp add: hold_clock_def)

lemma memory_limiter_other:
  "slot \<noteq> MainLim \<Longrightarrow> snd (fst (memory_limiter slot dur mx pfx now l key)) MainLim = snd l MainLim"
  by (simp add: memory_limiter_def memory_slot_def split: prod.split)

lemma memory_limiter_main:
  assumes "limits_of rl l" and w: "truncateNow (BaseInterval rl) t = truncateNow (BaseInterval rl) now"
    and r: "memory_limiter MainLim (BaseInterval rl) (BaseRate rl) pfx t l key = (l', ok, er)"
  shows "limits_of rl l'" "er = None" "ok \<longleftrightarrow> main_used now key l < BaseRate rl" "main_used now key l' = main_used now key l + 1"
proof -
  define m where "m = (case snd l MainLim of None \<Rightarrow> NewMemoryFrontendRateLimit (BaseInterval rl) (BaseRate rl) | Some m \<Rightarrow> m)"
  have m: "mem_dur m = BaseInterval rl" "mem_max m = BaseRate rl" "mem_used now m key = main_used now key l"
    using assms(1) by (auto simp: m_def limits_of_def main_used_def NewMemoryFrontendRateLimit_def mem_used_def mem_keys_def split: option.splits)
  have k: "mem_keys t m = mem_keys now m" unfolding mem_keys_def m(1) w ..
  show "limits_of rl l'" "er = None" "ok \<longleftrightarrow> main_used now key l < BaseRate rl" "main_used now key l' = main_used now key l + 1"
    using r m k w by (auto simp: memory_limiter_def memory_slot_def m_def [symmetric] Memory_Take_eq limits_of_def main_used_def mem_used_def)
      (auto simp: mem_keys_def)
qed


lemma isLimited_main_limit:
  assumes "limits_of (cf_RateLimit c) (sv_lims st)"
    and r: "isLimited (hold_clock (BaseInterval (cf_RateLimit c)) now W) (with_memory_limits c s) False signer key m st = (st', b)"
  shows "limits_of (cf_RateLimit c) (sv_lims st') \<and> main_used now key (sv_lims st) \<le> main_used now key (sv_lims st')"
    "m = [] \<Longrightarrow> \<not> b \<Longrightarrow> main_used now key (sv_lims st) < BaseRate (cf_RateLimit c) \<and> main_used now key (sv_lims st) < main_used now key (sv_lims st')"
proof -
  let ?rl = "cf_RateLimit c" and ?W = "hold_clock (BaseInterval (cf_RateLimit c)) now W"
  let ?t = "w_now ?W (sv_env st)"
  have main: "limits_of ?rl (sv_lims st') \<and> main_used now key (sv_lims st') = main_used now key (sv_lims st) + 1 \<and> (\<not> b \<longrightarrow> main_used now key (sv_lims st) < BaseRate ?rl)"
    if "m = []"
  proof -
    obtain l' ok er where t: "memory_limiter MainLim (BaseInterval ?rl) (BaseRate ?rl) ''main'' ?t (sv_lims st) key = (l', ok, er)" by (metis surj_pair)
    note mm = memory_limiter_main [OF assms(1) hold_clock_window t]
    show ?thesis using r that t mm by (auto simp: isLimited_def with_memory_limits_def take_limit_def)
  qed
  have other: "snd (sv_lims st') MainLim = snd (sv_lims st) MainLim" if "m \<noteq> []"
  proof -
    have lim: "snd (sv_lims (fst (take_limit ?W (memory_limiter slot dur mx pfx) key st))) MainLim = snd (sv_lims st) MainLim" if "slot \<noteq> MainLim" for slot dur mx pfx
      using memory_limiter_other [OF that, of dur mx pfx ?t "sv_lims st" key] by (auto simp: take_limit_def split: prod.split)
    have st': "st' = st \<or> (\<exists>slot dur mx pfx. slot \<noteq> MainLim \<and> st' = fst (take_limit ?W (memory_limiter slot dur mx pfx) key st))"
      using r that by (auto simp: isLimited_def with_memory_limits_def override_limiters_def split: option.splits prod.splits if_splits) (metis fst_conv limiter_slot.distinct)+
    then show ?thesis using lim by auto
  qed
  show "limits_of ?rl (sv_lims st') \<and> main_used now key (sv_lims st) \<le> main_used now key (sv_lims st')"
    using main other assms(1) by (cases "m = []") (auto simp: limits_of_def main_used_def)
  show "main_used now key (sv_lims st) < BaseRate ?rl \<and> main_used now key (sv_lims st) < main_used now key (sv_lims st')" if "m = []" "\<not> b"
    using main that by simp
qed

lemma check_transaction_main_limit:
  fixes st st' :: "('e, 'm, 'c, 'r limiters, 'i) srv"
  assumes "check_transaction W B (with_memory_limits c s) ctx req st = rreturn (st', er)"
  shows "snd (sv_lims st') MainLim = snd (sv_lims st) MainLim"
proof (rule check_transaction_invariant [OF assms, where J = "\<lambda>x. snd (sv_lims x) MainLim = snd (sv_lims st) MainLim"])
  fix x :: "('e, 'm, 'c, 'r limiters, 'i) srv" and l k
  assume x: "snd (sv_lims x) MainLim = snd (sv_lims st) MainLim" and "senderLim (with_memory_limits c s) = Some l \<or> interopSenderLim (with_memory_limits c s) = Some l"
  then obtain slot dur mx pfx where "l = memory_limiter slot dur mx pfx" "slot \<noteq> MainLim"
    by (auto simp: with_memory_limits_def sender_limiter_def split: if_splits)
  then show "snd (sv_lims (x\<lparr>sv_lims := fst (l (w_now W (sv_env x)) (sv_lims x) k)\<rparr>)) MainLim = snd (sv_lims st) MainLim"
    using x by (simp add: memory_limiter_other)
qed simp_all

interpretation memory_counted: counted_admission "hold_clock (BaseInterval (cf_RateLimit c)) now W" B "with_memory_limits c s" ctx
  "isLimited (hold_clock (BaseInterval (cf_RateLimit c)) now W) (with_memory_limits c s) False signer key"
  "limits_of (cf_RateLimit c)" "main_used now key" "BaseRate (cf_RateLimit c)"
  for c now W B s ctx signer key
proof (unfold_locales, goal_cases)
  case (1 st m st' r)
  then show ?case by (rule isLimited_main_limit)
next
  case (2 st st')
  then show ?case by (rule isLimited_main_limit) simp_all
next
  case (3 st req st' er)
  then show ?case using check_transaction_main_limit [OF 3(2)] by (simp add: limits_of_def main_used_def)
qed

lemma started_memory_limits:
  assumes "Start D c = Started st" and "\<not> UseRedis (cf_RateLimit c)" "\<not> UseRedis (cf_HighPrioRateLimit c)" and "0 < BaseRate (cf_RateLimit c)"
  shows "with_memory_limits c (st_server st) = st_server st"
proof -
  obtain clients groups st1 pollers where p: "prepare D c clients (start_factory D c (fst clients)) = Inr (groups, st1)" and st: "st = with_pollers pollers st1"
    using Start_Started [OF assms(1)] by metis
  obtain auth where a: "start_server D c clients (start_factory D c (fst clients)) groups auth (st_interop st1) = Inr (st_server st1)"
    using prepare_Inr [OF p] by metis
  have f: "start_factory D c (fst clients) = memory_limiter" using assms(2,3) by (simp add: start_factory_def limiterFactory_def)
  note n = NewServer_fields [OF start_server_Inr [OF a], unfolded f]
  show ?thesis using n(6) [OF assms(4)] n(7-10) st by (simp add: with_memory_limits_def with_pollers_def)
qed

subsection \<open>Properties\<close>

text \<open>
  C12. A server that was started is well-formed. Every method that it accepts is mapped to a group that exists, so that forwarding a request never
  dereferences a missing group; every group has the backends of its configuration, each of which was configured with a URL and a known target for receipts, and
  is a fallback exactly if the configuration says so; a group has a poller exactly if its configuration is aware of the consensus. The number of
  requests in a batch is bounded, and the websocket server has its group.
\<close>

theorem start_wellformed:
  assumes "Start D c = Started st"
  shows "(\<forall>W P B ctx limited n raw sv sv' req g.
       admit W P (B :: 'tx txlib) (st_server st) ctx limited n raw sv = rreturn (sv', Admit req g) \<longrightarrow> BackendGroups (st_server st) g \<noteq> None) \<and>
     (\<forall>g bg con. BackendGroups (st_server st) g = Some (bg, con) \<longrightarrow> bg_Name bg = g \<and> (\<exists>cfg. map_of (cf_BackendGroups c) g = Some cfg \<and>
       Backends bg = gc_Backends cfg \<and> (con \<noteq> None \<longleftrightarrow> consensus_aware cfg) \<and> (distinct (gc_Backends cfg) \<longrightarrow> set (gc_Fallbacks cfg) \<subseteq> set (Backends bg)) \<and>
       (\<forall>b\<in>set (Backends bg). map_of (FallbackBackends bg) b = Some (b \<in> set (gc_Fallbacks cfg)) \<and>
         (\<exists>be. map_of (st_backends st) b = Some be \<and> Name be = b \<and> rpcURL be \<noteq> [] \<and>
           receiptsTarget be \<in> set (ReceiptsTargetAlchemyGetTransactionReceipts # conventional_targets))))) \<and>
     maxBatchSize (st_server st) \<le> 1000 \<and> maxUpstreamBatchSize (st_server st) \<noteq> 0 \<and> (st_ws st \<longrightarrow> st_wsGroup st \<noteq> None)"
proof (intro conjI allI impI)
  fix W P ctx limited n raw sv sv' req g and B :: "'tx txlib"
  assume "admit W P B (st_server st) ctx limited n raw sv = rreturn (sv', Admit req g)"
  from admit_decision [OF this] show "BackendGroups (st_server st) g \<noteq> None" using started_server(1) [OF assms] started_server(6) [OF assms, of "Method req" g] by simp
next
  fix g bg con assume bg: "BackendGroups (st_server st) g = Some (bg, con)"
  obtain cfg where cfg: "map_of (cf_BackendGroups c) g = Some cfg" "configure_group (st_backends st) (g, cfg) = Inr (g, bg)" "con \<noteq> None \<longleftrightarrow> consensus_aware cfg"
    using started_groups [OF assms bg] by blast
  note gr = configured_group [OF cfg(2)]
  show "bg_Name bg = g" by (fact gr(2))
  have "\<exists>be. map_of (st_backends st) b = Some be \<and> Name be = b \<and> rpcURL be \<noteq> [] \<and>
      receiptsTarget be \<in> set (ReceiptsTargetAlchemyGetTransactionReceipts # conventional_targets)" if b: "b \<in> set (Backends bg)" for b
  proof -
    obtain be where be: "map_of (st_backends st) b = Some be" using gr(5) [OF b] by blast
    have "\<exists>u. map_of (cf_Backends c) b = Some u \<and> configure_backend (dp_lhm D) (dp_os D) (concurrency (cf_Server c) \<noteq> None) (cf_BackendOptions c) (b, u) = Inr (b, be)"
      by (rule map_of_related [OF started_server(8) [OF assms, unfolded emap_Inr]]) (use be configured_backend(1) in auto)
    then obtain u where u: "configure_backend (dp_lhm D) (dp_os D) (concurrency (cf_Server c) \<noteq> None) (cf_BackendOptions c) (b, u) = Inr (b, be)" by blast
    show ?thesis using be configured_backend(2,3,5) [OF u] by (intro exI [of _ be] conjI)
  qed
  then show "\<exists>cfg. map_of (cf_BackendGroups c) g = Some cfg \<and> Backends bg = gc_Backends cfg \<and> (con \<noteq> None \<longleftrightarrow> consensus_aware cfg) \<and>
       (distinct (gc_Backends cfg) \<longrightarrow> set (gc_Fallbacks cfg) \<subseteq> set (Backends bg)) \<and>
       (\<forall>b\<in>set (Backends bg). map_of (FallbackBackends bg) b = Some (b \<in> set (gc_Fallbacks cfg)) \<and>
         (\<exists>be. map_of (st_backends st) b = Some be \<and> Name be = b \<and> rpcURL be \<noteq> [] \<and>
           receiptsTarget be \<in> set (ReceiptsTargetAlchemyGetTransactionReceipts # conventional_targets)))"
    using cfg gr(3,5,6) by (intro exI [of _ cfg]) blast
qed (use started_server(2,3,7) [OF assms] in \<open>auto simp: or_default_def defaultMaxUpstreamBatchSize_def MaxBatchRPCCallsHardLimit_def\<close>)

subsection \<open>An example\<close>

definition example_os :: os where
  "example_os = \<lparr>os_Getenv = \<lambda>n. if n = ''URL_A'' then ''http://a'' else [], os_ReadFile = \<lambda>_. Inl (Errorf ''no such file''),
     AppendCertsFromPEM = \<lambda>_. False, LoadX509KeyPair = \<lambda>_ _. Inl (Errorf ''no such file'')\<rparr>"

definition no_redis :: "unit redis_lib" where
  "no_redis = \<lparr>redis_ParseURL = \<lambda>_. Inl (Errorf ''no redis''), redis_ParseClusterURL = \<lambda>_. Inl (Errorf ''no redis''), redis_Ping = \<lambda>_. Some (Errorf ''no redis'')\<rparr>"

definition example_deps :: "(script, (Time \<times> bucket) list, unit, kv, nat \<times> (string \<times> string) list) deps" where
  "example_deps = \<lparr>dp_os = example_os, dp_redis = no_redis, dp_ops = \<lambda>_. kv_redis, dp_lru = alist_lru, dp_snappy = plain_snappy,
     dp_text = text_ref, dp_geth = geth_ref, dp_lhm = alist_lhm, dp_world = idle_world,
     dp_supervisor = ref_supervisor (\<lambda>_. None), dp_sched = \<lambda>_ _ _. None, dp_compile = \<lambda>_. Inl (Errorf ''no pattern''), dp_HexToAddress = \<lambda>s. s\<rparr>"

definition plain_backend :: "string \<Rightarrow> BackendConfig" where
  "plain_backend url = \<lparr>bc_Username = [], bc_Password = [], bc_RPCURL = url, bc_WSURL = [], bc_WSPort = 0, bc_MaxRPS = 0, bc_MaxWSConns = 0, bc_CAFile = [],
     bc_ClientCertFile = [], bc_ClientKeyFile = [], bc_StripTrailingXFF = False, bc_AllowedDynamicHeaders = [], bc_Headers = [], bc_Weight = 0,
     bc_SkipIsSyncingCheck = False, bc_ResponseTimeoutMilliseconds = 0, bc_MaxRetries = None, bc_SafeBlockDriftThreshold = 0,
     bc_FinalizedBlockDriftThreshold = 0, bc_ConsensusSkipPeerCountCheck = False, bc_ConsensusForcedCandidate = False, bc_ConsensusReceiptsTarget = []\<rparr>"

definition no_redis_config :: RedisConfig where
  "no_redis_config = \<lparr>rc_URL = [], rc_Namespace = [], rc_ReadURL = [], FallbackToMemory = False, RedisCluster = False\<rparr>"

definition example_group_config :: BackendGroupConfig where
  "example_group_config = \<lparr>gc_Backends = [''a'', ''b''], gc_WeightedRouting = False, gc_RoutingStrategy = [], gc_MulticallRPCErrorCheck = False,
     gc_ConsensusAware = True, gc_ConsensusAsyncHandler = [], gc_ConsensusPollerInterval = 0, gc_ConsensusBanPeriod = 0, gc_ConsensusMaxUpdateThreshold = 0,
     gc_ConsensusMaxBlockLag = 0, gc_ConsensusMaxBlockRange = 0, gc_ConsensusMinPeerCount = 0, gc_ConsensusHA = False, gc_ConsensusHAHeartbeatInterval = 0,
     gc_ConsensusHALockPeriod = 0, gc_ConsensusHARedis = no_redis_config, gc_Fallbacks = [''b'']\<rparr>"

definition example_config :: Config where
  "example_config = \<lparr>WSBackendGroup = ''main'',
     cf_Server = \<lparr>RPCHost = [], RPCPort = 8080, WSHost = [], WSPort = 8085, MaxBodySizeBytes = 0, MaxConcurrentRPCs = 1000,
       DisableConcurrentRequestSemaphore = False, LogLevel = [], TimeoutSeconds = 0, sc_MaxUpstreamBatchSize = 0, EnableRequestLog = False,
       MaxRequestBodyLogLen = 0, EnablePprof = False, EnableXServedByHeader = False, AllowAllOrigins = False\<rparr>,
     cf_Cache = \<lparr>cc_Enabled = False, UseInmemCache = False, cc_TTL = 0\<rparr>, cf_Redis = no_redis_config,
     cf_Metrics = \<lparr>mt_Enabled = False, mt_Host = [], mt_Port = 0\<rparr>,
     cf_RateLimit = plain_limits\<lparr>BaseRate := 2, BaseInterval := time_Second\<rparr>, cf_HighPrioRateLimit = plain_limits, cf_HighPrioSigners = [],
     cf_BackendOptions = \<lparr>bo_ResponseTimeoutSeconds = 0, bo_ResponseTimeoutMilliseconds = 0, bo_MaxResponseSizeBytes = 0, bo_MaxRetries = 0,
       bo_OutOfServiceSeconds = 0, bo_MaxDegradedLatencyThreshold = 0, bo_MaxLatencyThreshold = 0, bo_MaxErrorRateThreshold = 0\<rparr>,
     cf_Backends = [(''a'', plain_backend ''$URL_A''), (''b'', plain_backend ''http://b'')],
     cf_BatchConfig = \<lparr>MaxSize = 0, bt_ErrorMessage = []\<rparr>, cf_Authentication = [], cf_BackendGroups = [(''main'', example_group_config)],
     cf_RPCMethodMappings = [(''eth_chainId'', ''main''), (''eth_sendRawTransaction'', ''main'')], WSMethodWhitelist = [''eth_chainId''],
     VerifyFlashbotsSignature = False, WhitelistErrorMessage = [], cf_SenderRateLimit = no_sender_limit,
     cf_Interop = \<lparr>iv_Urls = [''s''], iv_Strategy = [], iv_LoadBalancingUnhealthinessTimeout = 0, iv_ReqSizeLimit = 0, iv_AccessListSizeLimit = 0,
       iv_RateLimit = no_sender_limit\<rparr>\<rparr>"

lemma example_backends:
  "\<exists>a. configure_backend alist_lhm example_os True (cf_BackendOptions example_config) (''a'', plain_backend ''$URL_A'') = Inr (''a'', a)"
  "\<exists>b. configure_backend alist_lhm example_os True (cf_BackendOptions example_config) (''b'', plain_backend ''http://b'') = Inr (''b'', b)"
  by (simp_all add: configure_backend_def plain_backend_def ReadFromEnvOrConfig_def example_os_def echeck_def resolve_headers_def configureBackendTLS_def
      validateReceiptsTarget_def conventional_targets_def)

lemma example_group:
  "map_of bes ''a'' \<noteq> None \<Longrightarrow> map_of bes ''b'' \<noteq> None \<Longrightarrow> \<exists>bg. configure_group bes (''main'', example_group_config) = Inr (''main'', bg)"
  by (auto simp: configure_group_def example_group_config_def Let_def echeck_def)

lemma example_server_made: "\<exists>s. start_server example_deps example_config (None, None) factory groups auth strategy = Inr s"
  by (simp add: start_server_def Let_def NewServer_def example_config_def plain_limits_def)

lemma example_prepared:
  "\<exists>bg st. prepare example_deps example_config (None, None) factory = Inr ([(''main'', bg)], st) \<and>
     configure_group (st_backends st) (''main'', example_group_config) = Inr (''main'', bg)"
proof -
  obtain a b where be: "configure_backend alist_lhm example_os True (cf_BackendOptions example_config) (''a'', plain_backend ''$URL_A'') = Inr (''a'', a)"
    "configure_backend alist_lhm example_os True (cf_BackendOptions example_config) (''b'', plain_backend ''http://b'') = Inr (''b'', b)"
    using example_backends by blast
  obtain bg where bg: "configure_group [(''a'', a), (''b'', b)] (''main'', example_group_config) = Inr (''main'', bg)"
    using example_group [of "[(''a'', a), (''b'', b)]"] by auto
  have c: "cf_Backends example_config = [(''a'', plain_backend ''$URL_A''), (''b'', plain_backend ''http://b'')]"
    "cf_BackendGroups example_config = [(''main'', example_group_config)]" "cf_Authentication example_config = []"
    "concurrency (cf_Server example_config) \<noteq> None" "check_limits example_config (None :: unit option) = Inr ()"
    "ws_group example_config [(''main'', bg)] = Inr (Some bg)" "check_mappings example_config [(''main'', bg)] = Inr ()"
    "\<exists>i. configure_interop (interop_defaults (cf_Interop example_config)) = Inr i"
    by (simp_all add: example_config_def concurrency_def check_limits_def plain_limits_def no_sender_limit_def ws_group_def check_mappings_def echeck_def
        interop_defaults_def configure_interop_def)
  obtain i where i: "configure_interop (interop_defaults (cf_Interop example_config)) = Inr i" using c(8) by blast
  obtain s where s: "start_server example_deps example_config (None, None) factory [(''main'', bg)] (map_of []) i = Inr s" using example_server_made by blast
  have d: "dp_lhm example_deps = alist_lhm" "dp_os example_deps = example_os" by (simp_all add: example_deps_def)
  show ?thesis unfolding prepare_def Let_def using c(1-7) i be bg s d by (simp add: resolve_auth_def)
qed

lemma example_poller:
  assumes "configure_group bes (''main'', example_group_config) = Inr (''main'', bg)"
  shows "\<exists>con. configure_poller H [(''main'', example_group_config)] (''main'', bg) = Started (''main'', bg, Some con)"
proof -
  have "map_of (FallbackBackends bg) ''a'' \<noteq> None" "map_of (FallbackBackends bg) ''b'' \<noteq> None"
    using configured_group(3,5) [OF assms] by (simp_all add: example_group_config_def)
  then show ?thesis by (simp add: configure_poller_def ValidateRoutingStrategy_def example_group_config_def configure_tracker_def)
qed

lemma example_starts: "\<exists>st. Start example_deps example_config = Started st"
proof -
  have c: "cf_BackendGroups example_config = [(''main'', example_group_config)]" "check_sections example_config = Inr ()"
    "redis_clients (dp_os example_deps) (dp_redis example_deps) (cf_Redis example_config) = Inr (None, None)"
    "limiterFactory (dp_ops example_deps) example_config None = Some memory_limiter"
    by (simp_all add: example_config_def check_sections_def echeck_def redis_clients_def no_redis_config_def limiterFactory_def plain_limits_def)
  obtain bg st where p: "prepare example_deps example_config (None, None) memory_limiter = Inr ([(''main'', bg)], st)"
    "configure_group (st_backends st) (''main'', example_group_config) = Inr (''main'', bg)" using example_prepared by blast
  obtain con :: "(script, tracker) ConsensusPoller" where "configure_poller (dp_redis example_deps) [(''main'', example_group_config)] (''main'', bg) = Started (''main'', bg, Some con)"
    using example_poller [OF p(2)] by blast
  then show ?thesis unfolding Start_def Let_def using c p(1) by (simp add: of_result_def)
qed

theorem start_wellformed_witness:
  "\<exists>st. Start example_deps example_config = Started st \<and> (\<exists>bg con. BackendGroups (st_server st) ''main'' = Some (bg, Some con) \<and>
     Backends bg = [''a'', ''b''] \<and> map_of (FallbackBackends bg) ''b'' = Some True) \<and> maxBatchSize (st_server st) \<le> 1000"
proof -
  obtain st where st: "Start example_deps example_config = Started st" using example_starts by blast
  note w = start_wellformed [OF st, where 'tx = unit]
  have "BackendGroups (st_server st) ''main'' \<noteq> None"
    using started_server(6) [OF st, of "''eth_chainId''" "''main''"] by (simp add: example_config_def)
  then obtain bg con where bg: "BackendGroups (st_server st) ''main'' = Some (bg, con)" by auto
  have "consensus_aware example_group_config" "map_of (cf_BackendGroups example_config) ''main'' = Some example_group_config"
    by (simp_all add: consensus_aware_def example_group_config_def example_config_def)
  then have "Backends bg = [''a'', ''b'']" "con \<noteq> None" "map_of (FallbackBackends bg) ''b'' = Some True"
    using conjunct1 [OF conjunct2 [OF w], rule_format, OF bg] by (auto simp: example_group_config_def)
  then show ?thesis using st bg w by blast
qed

text \<open>A transaction that executes an interop message is sent to the example.\<close>

definition send_request :: RPCReq where
  "send_request = \<lparr>JSONRPC = ''2.0'', Method = ''eth_sendRawTransaction'', Params = Some (JArr [JStr ''0x1'']), ID = ''1''\<rparr>"

definition send_text :: req_text where
  "send_text = \<lparr>json_RPCReq = \<lambda>_. Some send_request, json_RawMessages = \<lambda>_. None\<rparr>"

definition interop_txlib :: "unit txlib" where
  "interop_txlib = example_txlib\<lparr>TxToInteropAccessList := \<lambda>_. access_1\<rparr>"

definition started_state :: "(script, (Time \<times> bucket) list, kv \<times> nat \<times> (string \<times> string) list, kv limiters, loadBalancingBuffer) srv" where
  "started_state = \<lparr>sv_env = idle, sv_backends = example_backend, sv_cache = (kv_empty, 1, []), sv_lims = (kv_empty, \<lambda>_. None),
     sv_interop = NewLoadBalancingBuffer [''s''] 0\<rparr>"

lemma example_limits:
  assumes "Start example_deps example_config = Started st0"
  shows "mainLim (st_server st0) = memory_limiter MainLim time_Second 2 ''main''" "overrideLims (st_server st0) m = None"
    "senderLim (st_server st0) = None" "interopSenderLim (st_server st0) = None"
proof -
  have c: "\<not> UseRedis (cf_RateLimit example_config)" "\<not> UseRedis (cf_HighPrioRateLimit example_config)" "0 < BaseRate (cf_RateLimit example_config)"
    by (simp_all add: example_config_def plain_limits_def)
  note s = started_memory_limits [OF assms c, symmetric]
  show "mainLim (st_server st0) = memory_limiter MainLim time_Second 2 ''main''" "overrideLims (st_server st0) m = None"
    "senderLim (st_server st0) = None" "interopSenderLim (st_server st0) = None"
    by (subst s, simp add: with_memory_limits_def example_config_def plain_limits_def override_limiters_def sender_limiter_def no_sender_limit_def
        interop_defaults_def Let_def)+
qed

lemma example_interop:
  assumes "Start example_deps example_config = Started st0"
  shows "interopStrategy (st_server st0) ctx access_1 idle i = rreturn (idle, i, None)"
proof -
  have "configure_interop (interop_defaults (cf_Interop example_config)) = Inr (FirstSupervisor (NewCommonInteropStrategy [''s'']
      [WithReqSizeLimit defaultInteropReqSizeLimit, WithAccessListSizeLimit defaultInteropAccessListSizeLimit]))"
    by (simp add: example_config_def interop_defaults_def configure_interop_def)
  then have i: "st_interop st0 = FirstSupervisor (NewCommonInteropStrategy [''s'']
      [WithReqSizeLimit defaultInteropReqSizeLimit, WithAccessListSizeLimit defaultInteropAccessListSizeLimit])"
    using started_server(5) [OF assms] by simp
  show ?thesis unfolding started_server(4) [OF assms] i
    by (simp add: example_deps_def interop_Validate_def first_ValidateAccessList_def preflightChecksAndCleanupAccessList_def NewCommonInteropStrategy_def
        WithReqSizeLimit_def WithAccessListSizeLimit_def defaultInteropAccessListSizeLimit_def access_1_clean check_size_def performCheckAccessListOp_def)
      (simp add: ref_supervisor_def access_1_def)
qed

lemma example_passes:
  assumes "Start example_deps example_config = Started st0"
  shows "\<exists>l. isLimited W (st_server st0) False [] ''ip'' [] started_state = (started_state\<lparr>sv_lims := l\<rparr>, False)"
  by (simp add: isLimited_def example_limits [OF assms] take_limit_def memory_limiter_def memory_slot_def Memory_Take_eq started_state_def
      NewMemoryFrontendRateLimit_def mem_used_def mem_keys_def)

lemma example_admission:
  assumes st: "Start example_deps example_config = Started st0"
  shows "\<exists>st'. admit_all W send_text interop_txlib (st_server st0) no_ctx (isLimited W (st_server st0) False [] ''ip'') 1 0 [''t''] (\<lambda>_. 0) [None] []
      started_state = rreturn (st', Inr ([None], [((1, ''main''), [\<lparr>be_Req = send_request, be_Index = 0\<rparr>])]))"
proof -
  obtain l where l: "isLimited W (st_server st0) False [] ''ip'' [] started_state = (started_state\<lparr>sv_lims := l\<rparr>, False)"
    using example_passes [OF st] by blast
  let ?x = "started_state\<lparr>sv_lims := l\<rparr>"
  have tx: "convertSendReqToSendTx interop_txlib send_request = Inr ()" "TxToInteropAccessList interop_txlib () = access_1"
    "reqSizeLimitCheck interop_txlib () k = None" for k
    by (simp_all add: convertSendReqToSendTx_def send_request_def interop_txlib_def example_txlib_def reqSizeLimitCheck_def)
  have c: "check_transaction W interop_txlib (st_server st0) no_ctx send_request ?x = rreturn (?x, None)"
    using example_interop [OF st] tx
    by (simp add: check_transaction_def send_request_def [THEN arg_cong [where f = Method]] rateLimitSender_def example_limits [OF st]
        validateInteropSendRpcRequest_def Let_def rateLimitInteropSender_def) (simp add: started_state_def access_1_def)
  have v: "ValidateRPCReq send_request = None" "Method send_request = ''eth_sendRawTransaction''" "ID send_request = ''1''"
    by (simp_all add: ValidateRPCReq_def send_request_def JSONRPCVersion_def IsValidID_def quote_def)
  have m: "rpcMethodMappings (st_server st0) ''eth_sendRawTransaction'' = Some ''main''" unfolding started_server(1) [OF st] by (simp add: example_config_def)
  have a: "admit W send_text interop_txlib (st_server st0) no_ctx (isLimited W (st_server st0) False [] ''ip'') 1 ''t'' started_state
      = rreturn (?x, Admit send_request ''main'')"
    using l c by (simp add: admit_def ParseRPCReq_def send_text_def v m proxydHealthzMethod_def example_limits [OF st])
  show ?thesis unfolding admit_all_Admit [OF a] admit_all.simps(1) by (simp add: add_elem_def v)
qed

lemma NewServer_ok:
  assumes "NewServer compile groups mappings bodySize auth tmo upstream servedBy cache rl hp signers snd_cfg isnd_cfg batchSize factory reqSize strategy dyn = Inr s"
  shows "\<exists>s'. NewServer compile groups mappings bodySize auth tmo upstream servedBy cache' rl hp' signers snd_cfg isnd_cfg batchSize factory' reqSize strategy dyn = Inr s'"
  using assms by (auto simp: NewServer_def split: sum.splits if_splits)

text \<open>
  Rate limits in Redis without Redis. A configuration that asks for the main rate limits in Redis without a Redis URL is refused. The same mistake in
  the section for high priority passes all checks, although all limiters are then made with a missing client: the server starts, and
  the first request that takes from a limiter dereferences nil.
\<close>

theorem high_prio_redis_unchecked:
  fixes D :: "('e, 'm, 'h, 'r, 'u) deps"
  assumes start: "Start D c = Started st" and url: "rc_URL (cf_Redis c) = []" and lims: "has_limiters c"
  shows "Start D (c\<lparr>cf_HighPrioRateLimit := (cf_HighPrioRateLimit c)\<lparr>UseRedis := True\<rparr>\<rparr>) = NilLimiters \<and>
    Start D (c\<lparr>cf_RateLimit := (cf_RateLimit c)\<lparr>UseRedis := True\<rparr>\<rparr>) = StartError (Errorf ''must specify a Redis URL if UseRedis is true in rate limit config'')"
proof -
  let ?c = "c\<lparr>cf_HighPrioRateLimit := (cf_HighPrioRateLimit c)\<lparr>UseRedis := True\<rparr>\<rparr>" and ?r = "c\<lparr>cf_RateLimit := (cf_RateLimit c)\<lparr>UseRedis := True\<rparr>\<rparr>"
  have sec: "check_sections c = Inr ()" using start by (cases "check_sections c") (simp_all add: Start_def of_result_def)
  obtain clients groups st1 and pollers :: "(string \<times> BackendGroup \<times> ('e, tracker) ConsensusPoller option) list" where s: "redis_clients (dp_os D) (dp_redis D) (cf_Redis c) = Inr clients"
    "prepare D c clients (start_factory D c (fst clients)) = Inr (groups, st1)"
    "smap (configure_poller (dp_redis D) (cf_BackendGroups c)) groups = Started pollers" by (rule Start_Started [OF start]) (rule that)
  have cl: "clients = (None, None)" using s(1) url by (auto simp: redis_clients_def split: if_splits)
  have same: "check_sections ?c = check_sections c" "check_sections ?r = check_sections c" "check_limits ?c (fst clients) = check_limits c (fst clients)"
    "check_mappings ?c groups = check_mappings c groups" "has_limiters ?c"
    using lims by (simp_all add: check_sections_def check_limits_def check_mappings_def has_limiters_def)
  have ws: "ws_group ?c groups = ws_group c groups" by (cases "map_of groups (WSBackendGroup c)") (simp_all add: ws_group_def)
  obtain auth where a: "check_limits c (fst clients) = Inr ()" "resolve_auth (dp_os D) (cf_Authentication c) = Inr auth" 
      "emap (configure_backend (dp_lhm D) (dp_os D) (concurrency (cf_Server c) \<noteq> None) (cf_BackendOptions c)) (cf_Backends c) = Inr (st_backends st1)"
      "emap (configure_group (st_backends st1)) (cf_BackendGroups c) = Inr groups" "ws_group c groups = Inr (st_wsGroup st1)"
      "check_mappings c groups = Inr ()" "configure_interop (interop_defaults (cf_Interop c)) = Inr (st_interop st1)"
      "start_server D c clients (start_factory D c (fst clients)) groups auth (st_interop st1) = Inr (st_server st1)"
    using s(2) unfolding prepare_def Let_def by (auto simp: ebind_Inr)
  have "\<exists>s'. start_server D ?c clients factory groups auth (st_interop st1) = Inr s'" for factory
    using NewServer_ok [OF start_server_Inr [OF a(8)], of "configure_cache (dp_ops D) (dp_lru D) (dp_snappy D) (dp_text D) (dp_geth D) ?c clients"
        "(cf_HighPrioRateLimit c)\<lparr>UseRedis := True\<rparr>" factory] by (auto simp: start_server_def Let_def)
  then obtain s' where s': "start_server D ?c clients (\<lambda>slot dur mx prefix. Noop_Take) groups auth (st_interop st1) = Inr s'" by blast
  have "Start D ?c = NilLimiters"
    unfolding Start_def using sec s(1,3) cl same ws a s' by (simp add: prepare_def Let_def of_result_def limiterFactory_def)
  moreover have "check_limits ?r (fst clients) = Inl (Errorf ''must specify a Redis URL if UseRedis is true in rate limit config'')"
    using cl by (simp add: check_limits_def echeck_def)
  then have "Start D ?r = StartError (Errorf ''must specify a Redis URL if UseRedis is true in rate limit config'')"
    unfolding Start_def using sec s(1) cl same by (simp add: prepare_def of_result_def)
  ultimately show ?thesis ..
qed

theorem high_prio_redis_unchecked_witness:
  "rc_URL (cf_Redis example_config) = [] \<and> has_limiters example_config \<and>
   Start example_deps (example_config\<lparr>cf_HighPrioRateLimit := (cf_HighPrioRateLimit example_config)\<lparr>UseRedis := True\<rparr>\<rparr>) = NilLimiters"
proof -
  have c: "rc_URL (cf_Redis example_config) = []" "has_limiters example_config" by (simp_all add: example_config_def no_redis_config_def has_limiters_def plain_limits_def)
  obtain st0 where st: "Start example_deps example_config = Started st0" using example_starts by blast
  show ?thesis using high_prio_redis_unchecked [OF st c] c by simp
qed

end
