(* ===== verification/Metrics.thy ===== *)
theory Metrics
  imports Backend_Group
begin

section \<open>Metrics\<close>

text \<open>
  The metrics (\<open>metrics.go\<close>, and the functions of \<open>backend.go\<close> and \<open>interop_strategy.go\<close> that record a
  batch, an upstream response or a supervisor's answer): the metrics with their labels, every
  function that records, and what they do to the values that Prometheus shows. The client library
  of Prometheus is a parameter with its documented laws in the locale \<open>prometheus_client\<close>. The
  lemmas show that the metrics register, that recording never panics and never lowers a counter,
  and what the error counters hold after a batch was forwarded.
\<close>

subsection \<open>The Prometheus client\<close>

datatype metric_kind = Counter | Gauge | Histogram | Summary

record metric =
  m_kind :: metric_kind
  m_name :: string
  m_labels :: "string list"

text \<open>
  The operations of a metric with given label values: \<open>prom_Add\<close> is \<open>Inc\<close>, \<open>Dec\<close> and \<open>Add\<close> of counters and
  gauges, \<open>prom_Set\<close> is \<open>Set\<close> of a gauge, \<open>prom_Observe\<close> is \<open>Observe\<close> of a histogram or summary. \<open>label_ok\<close>
  is the check of a label value (it must be valid UTF-8).
\<close>

record 'g prometheus =
  label_ok :: "string \<Rightarrow> bool"
  prom_Add :: "metric \<Rightarrow> string list \<Rightarrow> rat \<Rightarrow> 'g \<Rightarrow> 'g"
  prom_Set :: "metric \<Rightarrow> string list \<Rightarrow> rat \<Rightarrow> 'g \<Rightarrow> 'g"
  prom_Observe :: "metric \<Rightarrow> string list \<Rightarrow> rat \<Rightarrow> 'g \<Rightarrow> 'g"

definition prom_metric :: "metric_kind \<Rightarrow> string \<Rightarrow> string list \<Rightarrow> metric" where
  "prom_metric k n labels = \<lparr>m_kind = k, m_name = ''proxyd_'' @ n, m_labels = labels\<rparr>"

text \<open>
  \<open>WithLabelValues\<close> followed by an operation: it panics unless there is one valid value for each
  label. A metric without labels is one with no values.
\<close>

definition WithLabelValues ::
  "'g prometheus \<Rightarrow> metric \<Rightarrow> string list \<Rightarrow> (metric \<Rightarrow> string list \<Rightarrow> 'g \<Rightarrow> 'g) \<Rightarrow> 'g \<Rightarrow> 'g outcome" where
  "WithLabelValues P m lvs f g =
     (if length lvs \<noteq> length (m_labels m) then Panic ''inconsistent label cardinality''
      else if \<not> list_all (label_ok P) lvs then Panic ''label value is not valid UTF-8''
      else Return (f m lvs g))"

definition vec_Inc :: "'g prometheus \<Rightarrow> metric \<Rightarrow> string list \<Rightarrow> 'g \<Rightarrow> 'g outcome" where
  "vec_Inc P m lvs = WithLabelValues P m lvs (\<lambda>m lvs. prom_Add P m lvs 1)"

definition vec_Set :: "'g prometheus \<Rightarrow> metric \<Rightarrow> string list \<Rightarrow> rat \<Rightarrow> 'g \<Rightarrow> 'g outcome" where
  "vec_Set P m lvs x = WithLabelValues P m lvs (\<lambda>m lvs. prom_Set P m lvs x)"

definition vec_Observe :: "'g prometheus \<Rightarrow> metric \<Rightarrow> string list \<Rightarrow> rat \<Rightarrow> 'g \<Rightarrow> 'g outcome" where
  "vec_Observe P m lvs x = WithLabelValues P m lvs (\<lambda>m lvs. prom_Observe P m lvs x)"

subsection \<open>The metrics\<close>

definition rpcRequestsTotal :: metric where
  "rpcRequestsTotal = prom_metric Counter ''rpc_requests_total'' []"

definition rpcForwardsTotal :: metric where
  "rpcForwardsTotal = prom_metric Counter ''rpc_forwards_total'' [''auth'', ''backend_name'', ''method_name'', ''source'']"

definition rpcBackendHTTPResponseCodesTotal :: metric where
  "rpcBackendHTTPResponseCodesTotal = prom_metric Counter ''rpc_backend_http_response_codes_total'' [''auth'', ''backend_name'', ''method_name'', ''status_code'', ''batched'']"

definition rpcSupervisorChecksTotal :: metric where
  "rpcSupervisorChecksTotal = prom_metric Counter ''rpc_supervisor_checks_total'' [''supervisor_url'', ''http_code'', ''rpc_error_code'', ''strategy'']"

definition rpcErrorsTotal :: metric where
  "rpcErrorsTotal = prom_metric Counter ''rpc_errors_total'' [''auth'', ''backend_name'', ''method_name'', ''error_code'']"

definition rpcSpecialErrorsTotal :: metric where
  "rpcSpecialErrorsTotal = prom_metric Counter ''rpc_special_errors_total'' [''auth'', ''backend_name'', ''method_name'', ''error_type'']"

definition rpcBackendRequestDurationSumm :: metric where
  "rpcBackendRequestDurationSumm = prom_metric Summary ''rpc_backend_request_duration_seconds'' [''backend_name'', ''method_name'', ''batched'']"

definition activeClientWsConnsGauge :: metric where
  "activeClientWsConnsGauge = prom_metric Gauge ''active_client_ws_conns'' [''auth'']"

definition activeBackendWsConnsGauge :: metric where
  "activeBackendWsConnsGauge = prom_metric Gauge ''active_backend_ws_conns'' [''backend_name'']"

definition unserviceableRequestsTotal :: metric where
  "unserviceableRequestsTotal = prom_metric Counter ''unserviceable_requests_total'' [''auth'', ''request_source'']"

definition httpResponseCodesTotal :: metric where
  "httpResponseCodesTotal = prom_metric Counter ''http_response_codes_total'' [''status_code'']"

definition httpRequestDurationSumm :: metric where
  "httpRequestDurationSumm = prom_metric Summary ''http_request_duration_seconds'' []"

definition wsMessagesTotal :: metric where
  "wsMessagesTotal = prom_metric Counter ''ws_messages_total'' [''auth'', ''backend_name'', ''source'']"

definition redisErrorsTotal :: metric where
  "redisErrorsTotal = prom_metric Counter ''redis_errors_total'' [''source'']"

definition requestPayloadSizesGauge :: metric where
  "requestPayloadSizesGauge = prom_metric Histogram ''request_payload_sizes'' [''auth'']"

definition responsePayloadSizesGauge :: metric where
  "responsePayloadSizesGauge = prom_metric Histogram ''response_payload_sizes'' [''auth'']"

definition cacheHitsTotal :: metric where
  "cacheHitsTotal = prom_metric Counter ''cache_hits_total'' [''method'']"

definition cacheMissesTotal :: metric where
  "cacheMissesTotal = prom_metric Counter ''cache_misses_total'' [''method'']"

definition cacheErrorsTotal :: metric where
  "cacheErrorsTotal = prom_metric Counter ''cache_errors_total'' [''method'']"

definition batchRPCShortCircuitsTotal :: metric where
  "batchRPCShortCircuitsTotal = prom_metric Counter ''batch_rpc_short_circuits_total'' []"

definition redisCacheDurationSumm :: metric where
  "redisCacheDurationSumm = prom_metric Histogram ''redis_cache_duration_milliseconds'' [''command'']"

definition redisFrontendRateLimiterCacheDurationSumm :: metric where
  "redisFrontendRateLimiterCacheDurationSumm = prom_metric Histogram ''redis_frontend_rate_limiter_cache_duration_milliseconds'' [''command'']"

definition tooManyRequestErrorsTotal :: metric where
  "tooManyRequestErrorsTotal = prom_metric Counter ''too_many_request_errors_total'' [''backend_name'']"

definition batchSizeHistogram :: metric where
  "batchSizeHistogram = prom_metric Histogram ''batch_size_summary'' []"

definition frontendRateLimitTakeErrors :: metric where
  "frontendRateLimitTakeErrors = prom_metric Counter ''rate_limit_take_errors'' []"

definition consensusLatestBlock :: metric where
  "consensusLatestBlock = prom_metric Gauge ''group_consensus_latest_block'' [''backend_group_name'']"

definition consensusSafeBlock :: metric where
  "consensusSafeBlock = prom_metric Gauge ''group_consensus_safe_block'' [''backend_group_name'']"

definition consensusFinalizedBlock :: metric where
  "consensusFinalizedBlock = prom_metric Gauge ''group_consensus_finalized_block'' [''backend_group_name'']"

definition consensusHAError :: metric where
  "consensusHAError = prom_metric Counter ''group_consensus_ha_error'' [''error'']"

definition consensusHALatestBlock :: metric where
  "consensusHALatestBlock = prom_metric Gauge ''group_consensus_ha_latest_block'' [''backend_group_name'', ''leader'']"

definition consensusHASafeBlock :: metric where
  "consensusHASafeBlock = prom_metric Gauge ''group_consensus_ha_safe_block'' [''backend_group_name'', ''leader'']"

definition consensusHAFinalizedBlock :: metric where
  "consensusHAFinalizedBlock = prom_metric Gauge ''group_consensus_ha_finalized_block'' [''backend_group_name'', ''leader'']"

definition backendLatestBlockBackend :: metric where
  "backendLatestBlockBackend = prom_metric Gauge ''backend_latest_block'' [''backend_name'']"

definition backendSafeBlockBackend :: metric where
  "backendSafeBlockBackend = prom_metric Gauge ''backend_safe_block'' [''backend_name'']"

definition backendFinalizedBlockBackend :: metric where
  "backendFinalizedBlockBackend = prom_metric Gauge ''backend_finalized_block'' [''backend_name'']"

definition backendUnexpectedBlockTagsBackend :: metric where
  "backendUnexpectedBlockTagsBackend = prom_metric Gauge ''backend_unexpected_block_tags'' [''backend_name'']"

definition consensusGroupCount :: metric where
  "consensusGroupCount = prom_metric Gauge ''group_consensus_count'' [''backend_group_name'']"

definition consensusGroupFilteredCount :: metric where
  "consensusGroupFilteredCount = prom_metric Gauge ''group_consensus_filtered_count'' [''backend_group_name'']"

definition consensusGroupTotalCount :: metric where
  "consensusGroupTotalCount = prom_metric Gauge ''group_consensus_total_count'' [''backend_group_name'']"

definition consensusBannedBackends :: metric where
  "consensusBannedBackends = prom_metric Gauge ''consensus_backend_banned'' [''backend_name'']"

definition consensusPeerCountBackend :: metric where
  "consensusPeerCountBackend = prom_metric Gauge ''consensus_backend_peer_count'' [''backend_name'']"

definition consensusInSyncBackend :: metric where
  "consensusInSyncBackend = prom_metric Gauge ''consensus_backend_in_sync'' [''backend_name'']"

definition consensusUpdateDelayBackend :: metric where
  "consensusUpdateDelayBackend = prom_metric Gauge ''consensus_backend_update_delay'' [''backend_name'']"

definition avgLatencyBackend :: metric where
  "avgLatencyBackend = prom_metric Gauge ''backend_avg_latency'' [''backend_name'']"

definition degradedBackends :: metric where
  "degradedBackends = prom_metric Gauge ''backend_degraded'' [''backend_name'']"

definition networkErrorRateBackend :: metric where
  "networkErrorRateBackend = prom_metric Gauge ''backend_error_rate'' [''backend_name'']"

definition healthyPrimaryCandidates :: metric where
  "healthyPrimaryCandidates = prom_metric Gauge ''healthy_candidates'' [''backend_group_name'']"

definition backendGroupFallbackBackend :: metric where
  "backendGroupFallbackBackend = prom_metric Gauge ''backend_group_fallback_backenend'' [''backend_group'', ''backend_name'', ''fallback'']"

definition backendGroupMulticallCounter :: metric where
  "backendGroupMulticallCounter = prom_metric Counter ''backend_group_multicall_request_counter'' [''backend_group'', ''backend_name'']"

definition backendGroupMulticallCompletionCounter :: metric where
  "backendGroupMulticallCompletionCounter = prom_metric Counter ''backend_group_multicall_completion_counter'' [''backend_group'', ''backend_name'', ''error'']"

definition rpcSpecialErrors :: "string list" where
  "rpcSpecialErrors =
     [''nonce too low'', ''gas price too high'', ''gas price too low'', ''invalid parameters'', ''txpool is full'',
      ''pool is full'', ''pool overflow'', ''transaction pool is full'', ''insufficient funds'',
      ''replacement underpriced'', ''replacement transaction underpriced'', ''already known'',
      ''max initcode size exceeded'', ''insufficient balance'', ''gas limit exceeded'', ''intrinsic gas too low'']"

text \<open>The metrics in the order in which the package registers them.\<close>

definition all_metrics :: "metric list" where
  "all_metrics = [rpcRequestsTotal, rpcForwardsTotal, rpcBackendHTTPResponseCodesTotal, rpcSupervisorChecksTotal, rpcErrorsTotal, 
     rpcSpecialErrorsTotal, rpcBackendRequestDurationSumm, activeClientWsConnsGauge, activeBackendWsConnsGauge, 
     unserviceableRequestsTotal, httpResponseCodesTotal, httpRequestDurationSumm, wsMessagesTotal, redisErrorsTotal, 
     requestPayloadSizesGauge, responsePayloadSizesGauge, cacheHitsTotal, cacheMissesTotal, cacheErrorsTotal, 
     batchRPCShortCircuitsTotal, redisCacheDurationSumm, redisFrontendRateLimiterCacheDurationSumm, 
     tooManyRequestErrorsTotal, batchSizeHistogram, frontendRateLimitTakeErrors, consensusLatestBlock, 
     consensusSafeBlock, consensusFinalizedBlock, consensusHAError, consensusHALatestBlock, consensusHASafeBlock, 
     consensusHAFinalizedBlock, backendLatestBlockBackend, backendSafeBlockBackend, backendFinalizedBlockBackend, 
     backendUnexpectedBlockTagsBackend, consensusGroupCount, consensusGroupFilteredCount, consensusGroupTotalCount, 
     consensusBannedBackends, consensusPeerCountBackend, consensusInSyncBackend, consensusUpdateDelayBackend, 
     avgLatencyBackend, degradedBackends, networkErrorRateBackend, healthyPrimaryCandidates, 
     backendGroupFallbackBackend, backendGroupMulticallCounter, backendGroupMulticallCompletionCounter]"

text \<open>
  \<open>promauto\<close> registers each metric when the package is initialised and panics if one of that name
  is registered already.
\<close>

fun register_all :: "metric list \<Rightarrow> metric list \<Rightarrow> metric list outcome" where
  "register_all rs [] = Return rs"
| "register_all rs (m # ms) =
     (if m_name m \<in> set (map m_name rs) then Panic ''duplicate metrics collector registration attempted''
      else register_all (rs @ [m]) ms)"

subsection \<open>Strings\<close>

text \<open>\<open>strings.ToLower\<close>, for the letters of ASCII.\<close>

definition lower_char :: "char \<Rightarrow> char" where
  "lower_char c = (if 65 \<le> (of_char c :: nat) \<and> (of_char c :: nat) \<le> 90 then char_of (of_char c + 32 :: nat) else c)"

definition strings_ToLower :: "string \<Rightarrow> string" where
  "strings_ToLower s = map lower_char s"

fun strings_HasPrefix :: "string \<Rightarrow> string \<Rightarrow> bool" where
  "strings_HasPrefix s [] = True"
| "strings_HasPrefix [] (p # ps) = False"
| "strings_HasPrefix (c # s) (p # ps) = (c = p \<and> strings_HasPrefix s ps)"

fun strings_Contains :: "string \<Rightarrow> string \<Rightarrow> bool" where
  "strings_Contains [] p = (p = [])"
| "strings_Contains (c # s) p = (strings_HasPrefix (c # s) p \<or> strings_Contains s p)"

text \<open>\<open>strings.ReplaceAll\<close> for a text to replace that is not empty: from the left, without overlaps.\<close>

function strings_ReplaceAll :: "string \<Rightarrow> string \<Rightarrow> string \<Rightarrow> string" where
  "strings_ReplaceAll [] p r = []"
| "strings_ReplaceAll (c # s) p r =
     (if p \<noteq> [] \<and> strings_HasPrefix (c # s) p then r @ strings_ReplaceAll (drop (length p) (c # s)) p r
      else c # strings_ReplaceAll s p r)"
  by pat_completeness auto
termination by (relation "measure (\<lambda>(s, _, _). length s)") auto

definition strconv_FormatBool :: "bool \<Rightarrow> string" where
  "strconv_FormatBool b = (if b then ''true'' else ''false'')"

text \<open>\<open>Duration.Milliseconds\<close>: the division truncates towards zero.\<close>

definition Milliseconds :: "Duration \<Rightarrow> int" where
  "Milliseconds d = (if d < 0 then - (- d div time_Millisecond) else d div time_Millisecond)"

subsection \<open>Recording\<close>

definition boolToFloat64 :: "bool \<Rightarrow> rat" where
  "boolToFloat64 b = (if b then 1 else 0)"

definition RecordRedisError :: "'g prometheus \<Rightarrow> string \<Rightarrow> 'g \<Rightarrow> 'g outcome" where
  "RecordRedisError P source = vec_Inc P redisErrorsTotal [source]"

fun special_error :: "string \<Rightarrow> string list \<Rightarrow> string option" where
  "special_error errMsg [] = None"
| "special_error errMsg (errStr # es) = (if strings_Contains errMsg errStr then Some errStr else special_error errMsg es)"

definition MaybeRecordSpecialRPCError :: "'g prometheus \<Rightarrow> Ctx \<Rightarrow> string \<Rightarrow> string \<Rightarrow> RPCErr \<Rightarrow> 'g \<Rightarrow> 'g outcome" where
  "MaybeRecordSpecialRPCError P ctx backendName method rpcErr g =
     (case special_error (strings_ToLower (Message rpcErr)) rpcSpecialErrors of
        Some errStr \<Rightarrow> vec_Inc P rpcSpecialErrorsTotal [GetAuthCtx ctx, backendName, method, errStr] g
      | None \<Rightarrow> Return g)"

text \<open>The type assertion succeeds for an \<open>*RPCErr\<close> itself, not for an error that wraps one.\<close>

definition RecordRPCError :: "'g prometheus \<Rightarrow> Ctx \<Rightarrow> string \<Rightarrow> string \<Rightarrow> err \<Rightarrow> 'g \<Rightarrow> 'g outcome" where
  "RecordRPCError P ctx backendName method err g =
     obind (case err of
              RpcE rpcErr \<Rightarrow> obind (MaybeRecordSpecialRPCError P ctx backendName method rpcErr g) (\<lambda>g. Return (g, Code rpcErr))
            | _ \<Rightarrow> Return (g, -1))
       (\<lambda>(g, code). vec_Inc P rpcErrorsTotal [GetAuthCtx ctx, backendName, method, fmt_d code] g)"

definition RecordWSMessage :: "'g prometheus \<Rightarrow> Ctx \<Rightarrow> string \<Rightarrow> string \<Rightarrow> 'g \<Rightarrow> 'g outcome" where
  "RecordWSMessage P ctx backendName source = vec_Inc P wsMessagesTotal [GetAuthCtx ctx, backendName, source]"

definition RecordUnserviceableRequest :: "'g prometheus \<Rightarrow> Ctx \<Rightarrow> string \<Rightarrow> 'g \<Rightarrow> 'g outcome" where
  "RecordUnserviceableRequest P ctx source = vec_Inc P unserviceableRequestsTotal [GetAuthCtx ctx, source]"

definition RecordRPCForward :: "'g prometheus \<Rightarrow> Ctx \<Rightarrow> string \<Rightarrow> string \<Rightarrow> string \<Rightarrow> 'g \<Rightarrow> 'g outcome" where
  "RecordRPCForward P ctx backendName method source =
     vec_Inc P rpcForwardsTotal [GetAuthCtx ctx, backendName, method, source]"

definition RecordRequestPayloadSize :: "'g prometheus \<Rightarrow> Ctx \<Rightarrow> int \<Rightarrow> 'g \<Rightarrow> 'g outcome" where
  "RecordRequestPayloadSize P ctx payloadSize = vec_Observe P requestPayloadSizesGauge [GetAuthCtx ctx] (of_int payloadSize)"

definition RecordResponsePayloadSize :: "'g prometheus \<Rightarrow> Ctx \<Rightarrow> int \<Rightarrow> 'g \<Rightarrow> 'g outcome" where
  "RecordResponsePayloadSize P ctx payloadSize = vec_Observe P responsePayloadSizesGauge [GetAuthCtx ctx] (of_int payloadSize)"

definition RecordCacheHit :: "'g prometheus \<Rightarrow> string \<Rightarrow> 'g \<Rightarrow> 'g outcome" where
  "RecordCacheHit P method = vec_Inc P cacheHitsTotal [method]"

definition RecordCacheMiss :: "'g prometheus \<Rightarrow> string \<Rightarrow> 'g \<Rightarrow> 'g outcome" where
  "RecordCacheMiss P method = vec_Inc P cacheMissesTotal [method]"

definition RecordCacheError :: "'g prometheus \<Rightarrow> string \<Rightarrow> 'g \<Rightarrow> 'g outcome" where
  "RecordCacheError P method = vec_Inc P cacheErrorsTotal [method]"

definition RecordBatchSize :: "'g prometheus \<Rightarrow> int \<Rightarrow> 'g \<Rightarrow> 'g outcome" where
  "RecordBatchSize P n = vec_Observe P batchSizeHistogram [] (of_int n)"

definition is_letter_or_space :: "char \<Rightarrow> bool" where
  "is_letter_or_space c = (let n = of_char c :: nat in n = 32 \<or> (65 \<le> n \<and> n \<le> 90) \<or> (97 \<le> n \<and> n \<le> 122))"

text \<open>The pattern \<open>[^a-zA-Z ]+\<close>: replacing its matches by nothing keeps the letters and spaces.\<close>

definition nonAlphanumericRegex_remove :: "string \<Rightarrow> string" where
  "nonAlphanumericRegex_remove s = filter is_letter_or_space s"

text \<open>The error is an interface value; the method of a nil one cannot be called.\<close>

definition RecordGroupConsensusError :: "'g prometheus \<Rightarrow> BackendGroup \<Rightarrow> string \<Rightarrow> err option \<Rightarrow> 'g \<Rightarrow> 'g outcome" where
  "RecordGroupConsensusError P bg label err g =
     (case err of
        None \<Rightarrow> Panic ''nil pointer dereference''
      | Some err \<Rightarrow>
          (let errClean = nonAlphanumericRegex_remove (err_text err);
               errClean = strings_ReplaceAll errClean '' '' ''_'';
               errClean = strings_ReplaceAll errClean ''__'' ''_'';
               label = label @ ''.'' @ errClean
           in vec_Inc P consensusHAError [label] g))"

definition RecordGroupConsensusHALatestBlock :: "'g prometheus \<Rightarrow> BackendGroup \<Rightarrow> string \<Rightarrow> u64 \<Rightarrow> 'g \<Rightarrow> 'g outcome" where
  "RecordGroupConsensusHALatestBlock P bg ldr bn =
     vec_Set P consensusHALatestBlock [bg_Name bg, ldr] (of_nat (unat bn))"

definition RecordGroupConsensusHASafeBlock :: "'g prometheus \<Rightarrow> BackendGroup \<Rightarrow> string \<Rightarrow> u64 \<Rightarrow> 'g \<Rightarrow> 'g outcome" where
  "RecordGroupConsensusHASafeBlock P bg ldr bn =
     vec_Set P consensusHASafeBlock [bg_Name bg, ldr] (of_nat (unat bn))"

definition RecordGroupConsensusHAFinalizedBlock :: "'g prometheus \<Rightarrow> BackendGroup \<Rightarrow> string \<Rightarrow> u64 \<Rightarrow> 'g \<Rightarrow> 'g outcome" where
  "RecordGroupConsensusHAFinalizedBlock P bg ldr bn =
     vec_Set P consensusHAFinalizedBlock [bg_Name bg, ldr] (of_nat (unat bn))"

definition RecordGroupConsensusLatestBlock :: "'g prometheus \<Rightarrow> BackendGroup \<Rightarrow> u64 \<Rightarrow> 'g \<Rightarrow> 'g outcome" where
  "RecordGroupConsensusLatestBlock P bg bn = vec_Set P consensusLatestBlock [bg_Name bg] (of_nat (unat bn))"

definition RecordGroupConsensusSafeBlock :: "'g prometheus \<Rightarrow> BackendGroup \<Rightarrow> u64 \<Rightarrow> 'g \<Rightarrow> 'g outcome" where
  "RecordGroupConsensusSafeBlock P bg bn = vec_Set P consensusSafeBlock [bg_Name bg] (of_nat (unat bn))"

definition RecordGroupConsensusFinalizedBlock :: "'g prometheus \<Rightarrow> BackendGroup \<Rightarrow> u64 \<Rightarrow> 'g \<Rightarrow> 'g outcome" where
  "RecordGroupConsensusFinalizedBlock P bg bn = vec_Set P consensusFinalizedBlock [bg_Name bg] (of_nat (unat bn))"

definition RecordGroupConsensusCount :: "'g prometheus \<Rightarrow> BackendGroup \<Rightarrow> int \<Rightarrow> 'g \<Rightarrow> 'g outcome" where
  "RecordGroupConsensusCount P bg n = vec_Set P consensusGroupCount [bg_Name bg] (of_int n)"

definition RecordGroupConsensusFilteredCount :: "'g prometheus \<Rightarrow> BackendGroup \<Rightarrow> int \<Rightarrow> 'g \<Rightarrow> 'g outcome" where
  "RecordGroupConsensusFilteredCount P bg n = vec_Set P consensusGroupFilteredCount [bg_Name bg] (of_int n)"

definition RecordGroupTotalCount :: "'g prometheus \<Rightarrow> BackendGroup \<Rightarrow> int \<Rightarrow> 'g \<Rightarrow> 'g outcome" where
  "RecordGroupTotalCount P bg n = vec_Set P consensusGroupTotalCount [bg_Name bg] (of_int n)"

definition RecordBackendLatestBlock :: "'g prometheus \<Rightarrow> 'm Backend \<Rightarrow> u64 \<Rightarrow> 'g \<Rightarrow> 'g outcome" where
  "RecordBackendLatestBlock P b bn = vec_Set P backendLatestBlockBackend [Name b] (of_nat (unat bn))"

definition RecordBackendSafeBlock :: "'g prometheus \<Rightarrow> 'm Backend \<Rightarrow> u64 \<Rightarrow> 'g \<Rightarrow> 'g outcome" where
  "RecordBackendSafeBlock P b bn = vec_Set P backendSafeBlockBackend [Name b] (of_nat (unat bn))"

definition RecordBackendFinalizedBlock :: "'g prometheus \<Rightarrow> 'm Backend \<Rightarrow> u64 \<Rightarrow> 'g \<Rightarrow> 'g outcome" where
  "RecordBackendFinalizedBlock P b bn = vec_Set P backendFinalizedBlockBackend [Name b] (of_nat (unat bn))"

definition RecordBackendUnexpectedBlockTags :: "'g prometheus \<Rightarrow> 'm Backend \<Rightarrow> bool \<Rightarrow> 'g \<Rightarrow> 'g outcome" where
  "RecordBackendUnexpectedBlockTags P b unexpected = vec_Set P backendUnexpectedBlockTagsBackend [Name b] (boolToFloat64 unexpected)"

definition RecordConsensusBackendBanned :: "'g prometheus \<Rightarrow> 'm Backend \<Rightarrow> bool \<Rightarrow> 'g \<Rightarrow> 'g outcome" where
  "RecordConsensusBackendBanned P b x = vec_Set P consensusBannedBackends [Name b] (boolToFloat64 x)"

definition RecordHealthyCandidates :: "'g prometheus \<Rightarrow> BackendGroup \<Rightarrow> int \<Rightarrow> 'g \<Rightarrow> 'g outcome" where
  "RecordHealthyCandidates P bg n = vec_Set P healthyPrimaryCandidates [bg_Name bg] (of_int n)"

definition RecordConsensusBackendPeerCount :: "'g prometheus \<Rightarrow> 'm Backend \<Rightarrow> u64 \<Rightarrow> 'g \<Rightarrow> 'g outcome" where
  "RecordConsensusBackendPeerCount P b n = vec_Set P consensusPeerCountBackend [Name b] (of_nat (unat n))"

definition RecordConsensusBackendInSync :: "'g prometheus \<Rightarrow> 'm Backend \<Rightarrow> bool \<Rightarrow> 'g \<Rightarrow> 'g outcome" where
  "RecordConsensusBackendInSync P b x = vec_Set P consensusInSyncBackend [Name b] (boolToFloat64 x)"

definition RecordConsensusBackendUpdateDelay :: "'g prometheus \<Rightarrow> Time \<Rightarrow> 'm Backend \<Rightarrow> Time \<Rightarrow> 'g \<Rightarrow> 'g outcome" where
  "RecordConsensusBackendUpdateDelay P now b upd g =
     (if upd = 0 then Return g
      else vec_Set P consensusUpdateDelayBackend [Name b] (of_int (Milliseconds (now - upd))) g)"

definition RecordBackendNetworkLatencyAverageSlidingWindow ::
  "'g prometheus \<Rightarrow> 'm lhm \<Rightarrow> Time \<Rightarrow> 'm Backend \<Rightarrow> Duration \<Rightarrow> 'g \<Rightarrow> 'g outcome" where
  "RecordBackendNetworkLatencyAverageSlidingWindow P L now b avg g =
     obind (vec_Set P avgLatencyBackend [Name b] (of_int (Milliseconds avg)) g)
       (vec_Set P degradedBackends [Name b] (boolToFloat64 (IsDegraded L now b)))"

definition RecordBackendNetworkErrorRateSlidingWindow :: "'g prometheus \<Rightarrow> 'm Backend \<Rightarrow> rat \<Rightarrow> 'g \<Rightarrow> 'g outcome" where
  "RecordBackendNetworkErrorRateSlidingWindow P b rate = vec_Set P networkErrorRateBackend [Name b] rate"

definition RecordBackendGroupFallbacks :: "'g prometheus \<Rightarrow> BackendGroup \<Rightarrow> string \<Rightarrow> bool \<Rightarrow> 'g \<Rightarrow> 'g outcome" where
  "RecordBackendGroupFallbacks P bg name fallback =
     vec_Set P backendGroupFallbackBackend [bg_Name bg, name, strconv_FormatBool fallback] (boolToFloat64 fallback)"

definition RecordBackendGroupMulticallRequest :: "'g prometheus \<Rightarrow> BackendGroup \<Rightarrow> string \<Rightarrow> 'g \<Rightarrow> 'g outcome" where
  "RecordBackendGroupMulticallRequest P bg backendName = vec_Inc P backendGroupMulticallCounter [bg_Name bg, backendName]"

definition RecordBackendGroupMulticallCompletion :: "'g prometheus \<Rightarrow> BackendGroup \<Rightarrow> string \<Rightarrow> string \<Rightarrow> 'g \<Rightarrow> 'g outcome" where
  "RecordBackendGroupMulticallCompletion P bg backendName err =
     vec_Inc P backendGroupMulticallCompletionCounter [bg_Name bg, backendName, err]"

subsection \<open>Recording a batch, an upstream response and a supervisor's answer\<close>

fun RecordBatchRPCError :: "'g prometheus \<Rightarrow> Ctx \<Rightarrow> string \<Rightarrow> RPCReq list \<Rightarrow> err \<Rightarrow> 'g \<Rightarrow> 'g outcome" where
  "RecordBatchRPCError P ctx backendName [] err g = Return g"
| "RecordBatchRPCError P ctx backendName (req # reqs) err g =
     obind (RecordRPCError P ctx backendName (Method req) err g) (RecordBatchRPCError P ctx backendName reqs err)"

fun RecordBatchRPCForward :: "'g prometheus \<Rightarrow> Ctx \<Rightarrow> string \<Rightarrow> RPCReq list \<Rightarrow> string \<Rightarrow> 'g \<Rightarrow> 'g outcome" where
  "RecordBatchRPCForward P ctx backendName [] source g = Return g"
| "RecordBatchRPCForward P ctx backendName (req # reqs) source g =
     obind (RecordRPCForward P ctx backendName (Method req) source g) (RecordBatchRPCForward P ctx backendName reqs source)"

text \<open>The loop of \<open>MaybeRecordErrorsInRPCRes\<close> from the response with index \<open>i\<close>: it reads the request at that index.\<close>

fun record_res_errors :: "'g prometheus \<Rightarrow> Ctx \<Rightarrow> string \<Rightarrow> RPCReq list \<Rightarrow> nat \<Rightarrow> RPCRes list \<Rightarrow> 'g \<Rightarrow> 'g outcome" where
  "record_res_errors P ctx backendName reqs i [] g = Return g"
| "record_res_errors P ctx backendName reqs i (res # rs) g =
     (case Error res of
        None \<Rightarrow> record_res_errors P ctx backendName reqs (Suc i) rs g
      | Some e \<Rightarrow>
          if i < length reqs
          then obind (RecordRPCError P ctx backendName (Method (reqs ! i)) (RpcE e) g)
                 (record_res_errors P ctx backendName reqs (Suc i) rs)
          else Panic ''index out of range'')"

definition MaybeRecordErrorsInRPCRes :: "'g prometheus \<Rightarrow> Ctx \<Rightarrow> string \<Rightarrow> RPCReq list \<Rightarrow> RPCRes list \<Rightarrow> 'g \<Rightarrow> 'g outcome" where
  "MaybeRecordErrorsInRPCRes P ctx backendName reqs resBatch = record_res_errors P ctx backendName reqs 0 resBatch"

text \<open>The method in the labels of an upstream request: that of the first request unless it is a batch.\<close>

definition metricLabelMethod :: "RPCReq list \<Rightarrow> bool \<Rightarrow> string outcome" where
  "metricLabelMethod reqs isBatch =
     (case reqs of
        [] \<Rightarrow> Panic ''index out of range''
      | req # _ \<Rightarrow> Return (if isBatch then ''<batch>'' else Method req))"

text \<open>What \<open>Forward\<close> records before and after an attempt.\<close>

definition record_attempt :: "'g prometheus \<Rightarrow> Ctx \<Rightarrow> string \<Rightarrow> RPCReq list \<Rightarrow> bool \<Rightarrow> 'g \<Rightarrow> 'g outcome" where
  "record_attempt P ctx name reqs isBatch g =
     obind (RecordBatchRPCForward P ctx name reqs ''http'' g) (\<lambda>g.
     obind (metricLabelMethod reqs isBatch) (\<lambda>m.
     WithLabelValues P rpcBackendRequestDurationSumm [name, m, strconv_FormatBool isBatch] (\<lambda>_ _ g. g) g))"

definition record_duration :: "'g prometheus \<Rightarrow> string \<Rightarrow> RPCReq list \<Rightarrow> bool \<Rightarrow> rat \<Rightarrow> 'g \<Rightarrow> 'g outcome" where
  "record_duration P name reqs isBatch seconds g =
     obind (metricLabelMethod reqs isBatch) (\<lambda>m.
     vec_Observe P rpcBackendRequestDurationSumm [name, m, strconv_FormatBool isBatch] seconds g)"

definition record_response_code ::
  "'g prometheus \<Rightarrow> Ctx \<Rightarrow> string \<Rightarrow> RPCReq list \<Rightarrow> bool \<Rightarrow> int \<Rightarrow> 'g \<Rightarrow> 'g outcome" where
  "record_response_code P ctx name rpcReqs isBatch status g =
     obind (metricLabelMethod rpcReqs isBatch) (\<lambda>m.
     vec_Inc P rpcBackendHTTPResponseCodesTotal [GetAuthCtx ctx, name, m, fmt_d status, strconv_FormatBool isBatch] g)"

text \<open>The writer that counts the bytes of a response, over the \<open>Write\<close> of another writer.\<close>

record 'w recordLenWriter =
  rw_Writer :: 'w
  Len :: int

definition recordLenWriter_Write ::
  "('w \<Rightarrow> string \<Rightarrow> 'w \<times> int \<times> err option) \<Rightarrow> 'w recordLenWriter \<Rightarrow> string \<Rightarrow> 'w recordLenWriter \<times> int \<times> err option" where
  "recordLenWriter_Write wr w p =
     (case wr (rw_Writer w) p of (w', n, err) \<Rightarrow> (w\<lparr>rw_Writer := w', Len := Len w + n\<rparr>, n, err))"

text \<open>The strategy is a value of the context that only the first-supervisor strategy sets.\<close>

definition record_supervisor_check :: "'g prometheus \<Rightarrow> string \<Rightarrow> int \<Rightarrow> string \<Rightarrow> string option \<Rightarrow> 'g \<Rightarrow> 'g outcome" where
  "record_supervisor_check P url httpCode rpcErrorCode strategy =
     vec_Inc P rpcSupervisorChecksTotal [url, fmt_d httpCode, rpcErrorCode, case strategy of Some s \<Rightarrow> s | None \<Rightarrow> []]"

text \<open>A call of one of the functions above, with its arguments.\<close>

datatype 'm recording =
    RedisError string
  | RPCError Ctx string string err
  | WSMessage Ctx string string
  | UnserviceableRequest Ctx string
  | RPCForward Ctx string string string
  | RequestPayloadSize Ctx int
  | ResponsePayloadSize Ctx int
  | CacheHit string
  | CacheMiss string
  | CacheError string
  | BatchSize int
  | GroupConsensusError BackendGroup string err
  | GroupConsensusHALatestBlock BackendGroup string u64
  | GroupConsensusHASafeBlock BackendGroup string u64
  | GroupConsensusHAFinalizedBlock BackendGroup string u64
  | GroupConsensusLatestBlock BackendGroup u64
  | GroupConsensusSafeBlock BackendGroup u64
  | GroupConsensusFinalizedBlock BackendGroup u64
  | GroupConsensusCount BackendGroup int
  | GroupConsensusFilteredCount BackendGroup int
  | GroupTotalCount BackendGroup int
  | BackendLatestBlock "'m Backend" u64
  | BackendSafeBlock "'m Backend" u64
  | BackendFinalizedBlock "'m Backend" u64
  | BackendUnexpectedBlockTags "'m Backend" bool
  | ConsensusBackendBanned "'m Backend" bool
  | ConsensusBackendInSync "'m Backend" bool
  | HealthyCandidates BackendGroup int
  | BackendPeerCount "'m Backend" u64
  | BackendUpdateDelay "'m Backend" Time
  | NetworkLatency "'m Backend" Duration
  | NetworkErrorRate "'m Backend" rat
  | GroupFallbacks BackendGroup string bool
  | MulticallRequest BackendGroup string
  | MulticallCompletion BackendGroup string string
  | ResponseCode Ctx string RPCReq bool int
  | RequestDuration string RPCReq bool rat
  | SupervisorCheck string int string "string option"

fun record_one :: "'g prometheus \<Rightarrow> 'm lhm \<Rightarrow> Time \<Rightarrow> 'm recording \<Rightarrow> 'g \<Rightarrow> 'g outcome" where
  "record_one P L now (RedisError s) = RecordRedisError P s"
| "record_one P L now (RPCError ctx b m e) = RecordRPCError P ctx b m e"
| "record_one P L now (WSMessage ctx b s) = RecordWSMessage P ctx b s"
| "record_one P L now (UnserviceableRequest ctx s) = RecordUnserviceableRequest P ctx s"
| "record_one P L now (RPCForward ctx b m s) = RecordRPCForward P ctx b m s"
| "record_one P L now (RequestPayloadSize ctx n) = RecordRequestPayloadSize P ctx n"
| "record_one P L now (ResponsePayloadSize ctx n) = RecordResponsePayloadSize P ctx n"
| "record_one P L now (CacheHit m) = RecordCacheHit P m"
| "record_one P L now (CacheMiss m) = RecordCacheMiss P m"
| "record_one P L now (CacheError m) = RecordCacheError P m"
| "record_one P L now (BatchSize n) = RecordBatchSize P n"
| "record_one P L now (GroupConsensusError bg l e) = RecordGroupConsensusError P bg l (Some e)"
| "record_one P L now (GroupConsensusHALatestBlock bg l x) = RecordGroupConsensusHALatestBlock P bg l x"
| "record_one P L now (GroupConsensusHASafeBlock bg l x) = RecordGroupConsensusHASafeBlock P bg l x"
| "record_one P L now (GroupConsensusHAFinalizedBlock bg l x) = RecordGroupConsensusHAFinalizedBlock P bg l x"
| "record_one P L now (GroupConsensusLatestBlock bg x) = RecordGroupConsensusLatestBlock P bg x"
| "record_one P L now (GroupConsensusSafeBlock bg x) = RecordGroupConsensusSafeBlock P bg x"
| "record_one P L now (GroupConsensusFinalizedBlock bg x) = RecordGroupConsensusFinalizedBlock P bg x"
| "record_one P L now (GroupConsensusCount bg x) = RecordGroupConsensusCount P bg x"
| "record_one P L now (GroupConsensusFilteredCount bg x) = RecordGroupConsensusFilteredCount P bg x"
| "record_one P L now (GroupTotalCount bg x) = RecordGroupTotalCount P bg x"
| "record_one P L now (BackendLatestBlock b x) = RecordBackendLatestBlock P b x"
| "record_one P L now (BackendSafeBlock b x) = RecordBackendSafeBlock P b x"
| "record_one P L now (BackendFinalizedBlock b x) = RecordBackendFinalizedBlock P b x"
| "record_one P L now (BackendUnexpectedBlockTags b x) = RecordBackendUnexpectedBlockTags P b x"
| "record_one P L now (ConsensusBackendBanned b x) = RecordConsensusBackendBanned P b x"
| "record_one P L now (ConsensusBackendInSync b x) = RecordConsensusBackendInSync P b x"
| "record_one P L now (HealthyCandidates bg n) = RecordHealthyCandidates P bg n"
| "record_one P L now (BackendPeerCount b n) = RecordConsensusBackendPeerCount P b n"
| "record_one P L now (BackendUpdateDelay b t) = RecordConsensusBackendUpdateDelay P now b t"
| "record_one P L now (NetworkLatency b d) = RecordBackendNetworkLatencyAverageSlidingWindow P L now b d"
| "record_one P L now (NetworkErrorRate b x) = RecordBackendNetworkErrorRateSlidingWindow P b x"
| "record_one P L now (GroupFallbacks bg n x) = RecordBackendGroupFallbacks P bg n x"
| "record_one P L now (MulticallRequest bg n) = RecordBackendGroupMulticallRequest P bg n"
| "record_one P L now (MulticallCompletion bg n e) = RecordBackendGroupMulticallCompletion P bg n e"
| "record_one P L now (ResponseCode ctx n req isBatch status) = record_response_code P ctx n [req] isBatch status"
| "record_one P L now (RequestDuration n req isBatch d) = record_duration P n [req] isBatch d"
| "record_one P L now (SupervisorCheck url h r s) = record_supervisor_check P url h r s"

fun record_all :: "'g prometheus \<Rightarrow> 'm lhm \<Rightarrow> (Time \<times> 'm recording) list \<Rightarrow> 'g \<Rightarrow> 'g outcome" where
  "record_all P L [] g = Return g"
| "record_all P L ((now, c) # cs) g = obind (record_one P L now c g) (record_all P L cs)"

text \<open>The texts a caller passes that become label values.\<close>

fun label_texts :: "'m recording \<Rightarrow> string list" where
  "label_texts (RedisError s) = [s]"
| "label_texts (RPCError ctx b m e) = [GetAuthCtx ctx, b, m]"
| "label_texts (WSMessage ctx b s) = [GetAuthCtx ctx, b, s]"
| "label_texts (UnserviceableRequest ctx s) = [GetAuthCtx ctx, s]"
| "label_texts (RPCForward ctx b m s) = [GetAuthCtx ctx, b, m, s]"
| "label_texts (RequestPayloadSize ctx n) = [GetAuthCtx ctx]"
| "label_texts (ResponsePayloadSize ctx n) = [GetAuthCtx ctx]"
| "label_texts (CacheHit m) = [m]"
| "label_texts (CacheMiss m) = [m]"
| "label_texts (CacheError m) = [m]"
| "label_texts (BatchSize n) = []"
| "label_texts (GroupConsensusError bg l e) = [l]"
| "label_texts (GroupConsensusHALatestBlock bg l x) = [bg_Name bg, l]"
| "label_texts (GroupConsensusHASafeBlock bg l x) = [bg_Name bg, l]"
| "label_texts (GroupConsensusHAFinalizedBlock bg l x) = [bg_Name bg, l]"
| "label_texts (GroupConsensusLatestBlock bg x) = [bg_Name bg]"
| "label_texts (GroupConsensusSafeBlock bg x) = [bg_Name bg]"
| "label_texts (GroupConsensusFinalizedBlock bg x) = [bg_Name bg]"
| "label_texts (GroupConsensusCount bg x) = [bg_Name bg]"
| "label_texts (GroupConsensusFilteredCount bg x) = [bg_Name bg]"
| "label_texts (GroupTotalCount bg x) = [bg_Name bg]"
| "label_texts (BackendLatestBlock b x) = [Name b]"
| "label_texts (BackendSafeBlock b x) = [Name b]"
| "label_texts (BackendFinalizedBlock b x) = [Name b]"
| "label_texts (BackendUnexpectedBlockTags b x) = [Name b]"
| "label_texts (ConsensusBackendBanned b x) = [Name b]"
| "label_texts (ConsensusBackendInSync b x) = [Name b]"
| "label_texts (HealthyCandidates bg n) = [bg_Name bg]"
| "label_texts (BackendPeerCount b n) = [Name b]"
| "label_texts (BackendUpdateDelay b t) = [Name b]"
| "label_texts (NetworkLatency b d) = [Name b]"
| "label_texts (NetworkErrorRate b x) = [Name b]"
| "label_texts (GroupFallbacks bg n x) = [bg_Name bg, n]"
| "label_texts (MulticallRequest bg n) = [bg_Name bg, n]"
| "label_texts (MulticallCompletion bg n e) = [bg_Name bg, n, e]"
| "label_texts (ResponseCode ctx n req isBatch status) = [GetAuthCtx ctx, n, Method req]"
| "label_texts (RequestDuration n req isBatch d) = [n, Method req]"
| "label_texts (SupervisorCheck url h r s) = [url, r, case s of Some s \<Rightarrow> s | None \<Rightarrow> []]"

subsection \<open>The laws of the client library\<close>

definition ascii_text :: "string \<Rightarrow> bool" where
  "ascii_text s = list_all (\<lambda>c. (of_char c :: nat) < 128) s"

text \<open>
  A label value of ASCII characters is valid, and so are two valid ones in a row. \<open>val\<close> reads what
  is shown of a metric with given label values: the value of a counter or gauge, the number of
  samples of a histogram or summary.
\<close>

locale prometheus_client =
  fixes P :: "'g prometheus"
    and val :: "'g \<Rightarrow> metric \<Rightarrow> string list \<Rightarrow> rat"
  assumes ascii_ok: "ascii_text s \<Longrightarrow> label_ok P s"
    and append_ok: "label_ok P s \<Longrightarrow> label_ok P s' \<Longrightarrow> label_ok P (s @ s')"
    and val_Add: "val (prom_Add P m lvs x g) m' lvs' = val g m' lvs' + (if m' = m \<and> lvs' = lvs then x else 0)"
    and val_Set: "val (prom_Set P m lvs x g) m' lvs' = (if m' = m \<and> lvs' = lvs then x else val g m' lvs')"
    and val_Observe: "val (prom_Observe P m lvs x g) m' lvs' = val g m' lvs' + (if m' = m \<and> lvs' = lvs then 1 else 0)"
begin

lemma inc_val:
  "length lvs = length (m_labels m) \<Longrightarrow> list_all (label_ok P) lvs \<Longrightarrow>
   \<exists>g'. vec_Inc P m lvs g = Return g' \<and>
     (\<forall>m' lvs'. val g' m' lvs' = val g m' lvs' + (if m' = m \<and> lvs' = lvs then 1 else 0))"
  by (simp add: vec_Inc_def WithLabelValues_def val_Add)

end

text \<open>A step of recording that returns and lowers nothing but gauges.\<close>

definition keeps_counts :: "('g \<Rightarrow> metric \<Rightarrow> string list \<Rightarrow> rat) \<Rightarrow> 'g \<Rightarrow> 'g outcome \<Rightarrow> bool" where
  "keeps_counts val g r \<longleftrightarrow> (\<exists>g'. r = Return g' \<and> (\<forall>m lvs. m_kind m \<noteq> Gauge \<longrightarrow> val g m lvs \<le> val g' m lvs))"

lemma keeps_counts_Return: "keeps_counts val g (Return g)"
  by (simp add: keeps_counts_def)

lemma keeps_counts_obind:
  assumes "keeps_counts val g r" "\<And>g'. r = Return g' \<Longrightarrow> keeps_counts val g' (f g')"
  shows "keeps_counts val g (obind r f)"
  using assms unfolding keeps_counts_def by (fastforce intro: order_trans)

lemma ascii_fmt_d: "ascii_text (fmt_d i)"
proof -
  have "ascii_text (fmt_nat n)" for n
    using fmt_nat_props [of n] by (force simp: ascii_text_def list_all_iff)
  then show ?thesis by (simp add: fmt_d_def ascii_text_def)
qed

lemma ascii_FormatBool: "ascii_text (strconv_FormatBool b)"
  by (simp add: strconv_FormatBool_def ascii_text_def)

lemma ascii_special: "special_error msg es = Some e \<Longrightarrow> list_all ascii_text es \<Longrightarrow> ascii_text e"
  by (induction es) (auto split: if_splits)

lemma ascii_rpcSpecialErrors: "list_all ascii_text rpcSpecialErrors"
  by (simp add: rpcSpecialErrors_def ascii_text_def)

lemma ascii_ReplaceAll: "ascii_text s \<Longrightarrow> ascii_text r \<Longrightarrow> ascii_text (strings_ReplaceAll s p r)"
proof (induction s p r rule: strings_ReplaceAll.induct)
  case (2 c s p r)
  have "ascii_text (drop (length p) (c # s))"
    using 2(3) set_drop_subset [of "length p" "c # s"] by (auto simp only: ascii_text_def list_all_iff)
  then show ?case using 2 by (simp add: ascii_text_def)
qed (simp add: ascii_text_def)

lemma ascii_clean: "ascii_text (nonAlphanumericRegex_remove s)"
  by (auto simp: nonAlphanumericRegex_remove_def ascii_text_def list_all_iff is_letter_or_space_def Let_def)

lemmas metric_defs = prom_metric_def rpcRequestsTotal_def rpcForwardsTotal_def rpcBackendHTTPResponseCodesTotal_def rpcSupervisorChecksTotal_def
  rpcErrorsTotal_def rpcSpecialErrorsTotal_def rpcBackendRequestDurationSumm_def activeClientWsConnsGauge_def
  activeBackendWsConnsGauge_def unserviceableRequestsTotal_def httpResponseCodesTotal_def
  httpRequestDurationSumm_def wsMessagesTotal_def redisErrorsTotal_def requestPayloadSizesGauge_def
  responsePayloadSizesGauge_def cacheHitsTotal_def cacheMissesTotal_def cacheErrorsTotal_def
  batchRPCShortCircuitsTotal_def redisCacheDurationSumm_def redisFrontendRateLimiterCacheDurationSumm_def
  tooManyRequestErrorsTotal_def batchSizeHistogram_def frontendRateLimitTakeErrors_def consensusLatestBlock_def
  consensusSafeBlock_def consensusFinalizedBlock_def consensusHAError_def consensusHALatestBlock_def
  consensusHASafeBlock_def consensusHAFinalizedBlock_def backendLatestBlockBackend_def
  backendSafeBlockBackend_def backendFinalizedBlockBackend_def backendUnexpectedBlockTagsBackend_def
  consensusGroupCount_def consensusGroupFilteredCount_def consensusGroupTotalCount_def
  consensusBannedBackends_def consensusPeerCountBackend_def consensusInSyncBackend_def
  consensusUpdateDelayBackend_def avgLatencyBackend_def degradedBackends_def networkErrorRateBackend_def
  healthyPrimaryCandidates_def backendGroupFallbackBackend_def backendGroupMulticallCounter_def
  backendGroupMulticallCompletionCounter_def

lemmas record_defs = RecordRedisError_def RecordWSMessage_def RecordUnserviceableRequest_def RecordRPCForward_def
  RecordRequestPayloadSize_def RecordResponsePayloadSize_def RecordCacheHit_def RecordCacheMiss_def
  RecordCacheError_def RecordBatchSize_def RecordGroupConsensusHALatestBlock_def
  RecordGroupConsensusHASafeBlock_def RecordGroupConsensusHAFinalizedBlock_def
  RecordGroupConsensusLatestBlock_def RecordGroupConsensusSafeBlock_def RecordGroupConsensusFinalizedBlock_def
  RecordGroupConsensusCount_def RecordGroupConsensusFilteredCount_def RecordGroupTotalCount_def
  RecordBackendLatestBlock_def RecordBackendSafeBlock_def RecordBackendFinalizedBlock_def
  RecordBackendUnexpectedBlockTags_def RecordConsensusBackendBanned_def RecordHealthyCandidates_def
  RecordConsensusBackendPeerCount_def RecordConsensusBackendInSync_def
  RecordBackendNetworkErrorRateSlidingWindow_def RecordBackendGroupFallbacks_def
  RecordBackendGroupMulticallRequest_def RecordBackendGroupMulticallCompletion_def

subsection \<open>Recording returns and counts up\<close>

context prometheus_client
begin

lemma keeps_Inc:
  "length lvs = length (m_labels m) \<Longrightarrow> list_all (label_ok P) lvs \<Longrightarrow> keeps_counts val g (vec_Inc P m lvs g)"
  by (simp add: keeps_counts_def vec_Inc_def WithLabelValues_def val_Add)

lemma keeps_Observe:
  "length lvs = length (m_labels m) \<Longrightarrow> list_all (label_ok P) lvs \<Longrightarrow> keeps_counts val g (vec_Observe P m lvs x g)"
  by (simp add: keeps_counts_def vec_Observe_def WithLabelValues_def val_Observe)

lemma keeps_Set:
  "m_kind m = Gauge \<Longrightarrow> length lvs = length (m_labels m) \<Longrightarrow> list_all (label_ok P) lvs \<Longrightarrow>
   keeps_counts val g (vec_Set P m lvs x g)"
  by (auto simp: keeps_counts_def vec_Set_def WithLabelValues_def val_Set)

lemmas ascii_labels = ascii_ok [OF ascii_fmt_d] ascii_ok [OF ascii_FormatBool]

lemma special_ok: "special_error msg rpcSpecialErrors = Some e \<Longrightarrow> label_ok P e"
  using ascii_special [OF _ ascii_rpcSpecialErrors] by (rule ascii_ok)

lemma special_keeps:
  "list_all (label_ok P) [GetAuthCtx ctx, b, m] \<Longrightarrow> keeps_counts val g (MaybeRecordSpecialRPCError P ctx b m e g)"
  by (auto simp: MaybeRecordSpecialRPCError_def keeps_counts_Return special_ok metric_defs
      intro!: keeps_Inc split: option.split)

lemma rpc_error_keeps:
  assumes "list_all (label_ok P) [GetAuthCtx ctx, b, m]"
  shows "keeps_counts val g (RecordRPCError P ctx b m e g)"
proof -
  have i: "keeps_counts val g (vec_Inc P rpcErrorsTotal [GetAuthCtx ctx, b, m, fmt_d c] g)" for g c
    using assms by (intro keeps_Inc) (simp_all add: metric_defs ascii_labels)
  show ?thesis
  proof (cases e)
    case (RpcE r)
    have "RecordRPCError P ctx b m e g = obind (MaybeRecordSpecialRPCError P ctx b m r g)
        (vec_Inc P rpcErrorsTotal [GetAuthCtx ctx, b, m, fmt_d (Code r)])"
      unfolding RecordRPCError_def RpcE by (cases "MaybeRecordSpecialRPCError P ctx b m r g") simp_all
    then show ?thesis using special_keeps [OF assms] i by (simp add: keeps_counts_obind)
  qed (simp_all add: RecordRPCError_def i)
qed

lemma consensus_error_keeps:
  "label_ok P l \<Longrightarrow> keeps_counts val g (RecordGroupConsensusError P bg l (Some e) g)"
proof -
  let ?s = "''.'' @ strings_ReplaceAll (strings_ReplaceAll (nonAlphanumericRegex_remove (err_text e)) '' '' ''_'') ''__'' ''_''"
  have "ascii_text ?s"
    using ascii_ReplaceAll [OF ascii_ReplaceAll [OF ascii_clean]] by (simp add: ascii_text_def)
  then have "label_ok P l \<Longrightarrow> label_ok P (l @ ?s)" using append_ok [OF _ ascii_ok] by blast
  then show "label_ok P l \<Longrightarrow> ?thesis" unfolding RecordGroupConsensusError_def Let_def option.case
    by (intro keeps_Inc) (simp_all add: metric_defs)
qed

lemma latency_keeps:
  "label_ok P (Name b) \<Longrightarrow> keeps_counts val g (RecordBackendNetworkLatencyAverageSlidingWindow P L now b d g)"
  unfolding RecordBackendNetworkLatencyAverageSlidingWindow_def
  by (intro keeps_counts_obind keeps_Set) (simp_all add: metric_defs)

lemma record_one_keeps:
  "list_all (label_ok P) (label_texts c) \<Longrightarrow> keeps_counts val g (record_one P L now c g)"
  by (cases c) (simp_all add: record_defs rpc_error_keeps consensus_error_keeps latency_keeps keeps_counts_Return
      RecordConsensusBackendUpdateDelay_def record_response_code_def record_duration_def metricLabelMethod_def
      record_supervisor_check_def ascii_labels keeps_Inc keeps_Set keeps_Observe metric_defs ascii_ok [of "''<batch>''"] ascii_text_def)

lemma record_all_keeps:
  "list_all (\<lambda>(now, c). list_all (label_ok P) (label_texts c)) cs \<Longrightarrow> keeps_counts val g (record_all P L cs g)"
  by (induction cs arbitrary: g) (auto simp: keeps_counts_Return intro!: keeps_counts_obind record_one_keeps)

end

subsection \<open>Counting the errors of a batch\<close>

definition error_count :: "RPCReq list \<Rightarrow> RPCRes list \<Rightarrow> string \<Rightarrow> int \<Rightarrow> nat" where
  "error_count reqs rs m c =
     length (filter (\<lambda>(q, r). Method q = m \<and> map_option Code (Error r) = Some c) (zip reqs rs))"

lemma metrics_distinct: "rpcSpecialErrorsTotal \<noteq> rpcErrorsTotal"
  by (simp add: metric_defs)

context prometheus_client
begin

lemma special_val:
  assumes "list_all (label_ok P) [GetAuthCtx ctx, b, m]"
  shows "\<exists>g'. MaybeRecordSpecialRPCError P ctx b m e g = Return g' \<and> (\<forall>lvs. val g' rpcErrorsTotal lvs = val g rpcErrorsTotal lvs)"
proof (cases "special_error (strings_ToLower (Message e)) rpcSpecialErrors")
  case (Some s)
  then have "list_all (label_ok P) [GetAuthCtx ctx, b, m, s]" using assms special_ok by simp
  moreover have "length [GetAuthCtx ctx, b, m, s] = length (m_labels rpcSpecialErrorsTotal)" by (simp add: metric_defs)
  ultimately obtain g' where "vec_Inc P rpcSpecialErrorsTotal [GetAuthCtx ctx, b, m, s] g = Return g'"
    "\<And>m' lvs. val g' m' lvs = val g m' lvs + (if m' = rpcSpecialErrorsTotal \<and> lvs = [GetAuthCtx ctx, b, m, s] then 1 else 0)"
    using inc_val by blast
  then show ?thesis using metrics_distinct by (simp add: MaybeRecordSpecialRPCError_def Some)
qed (simp add: MaybeRecordSpecialRPCError_def)

lemma rpc_error_val:
  assumes "list_all (label_ok P) [GetAuthCtx ctx, b, m]"
  shows "\<exists>g'. RecordRPCError P ctx b m (RpcE e) g = Return g' \<and>
    (\<forall>lvs. val g' rpcErrorsTotal lvs = val g rpcErrorsTotal lvs + (if lvs = [GetAuthCtx ctx, b, m, fmt_d (Code e)] then 1 else 0))"
proof -
  obtain g1 where g1: "MaybeRecordSpecialRPCError P ctx b m e g = Return g1"
    "\<And>lvs. val g1 rpcErrorsTotal lvs = val g rpcErrorsTotal lvs"
    using special_val [OF assms] by blast
  have "list_all (label_ok P) [GetAuthCtx ctx, b, m, fmt_d (Code e)]" using assms by (simp add: ascii_labels)
  moreover have "length [GetAuthCtx ctx, b, m, fmt_d (Code e)] = length (m_labels rpcErrorsTotal)" by (simp add: metric_defs)
  ultimately obtain g2 where "vec_Inc P rpcErrorsTotal [GetAuthCtx ctx, b, m, fmt_d (Code e)] g1 = Return g2"
    "\<And>m' lvs. val g2 m' lvs = val g1 m' lvs + (if m' = rpcErrorsTotal \<and> lvs = [GetAuthCtx ctx, b, m, fmt_d (Code e)] then 1 else 0)"
    using inc_val by blast
  then show ?thesis by (simp add: RecordRPCError_def g1)
qed

lemma res_errors_val:
  assumes "list_all (label_ok P) (GetAuthCtx ctx # b # map Method reqs)" "i + length rs \<le> length reqs"
  shows "\<exists>g'. record_res_errors P ctx b reqs i rs g = Return g' \<and>
    (\<forall>m c. val g' rpcErrorsTotal [GetAuthCtx ctx, b, m, fmt_d c] =
       val g rpcErrorsTotal [GetAuthCtx ctx, b, m, fmt_d c] + of_nat (error_count (drop i reqs) rs m c))"
  using assms(2)
proof (induction rs arbitrary: i g)
  case Nil
  then show ?case by (simp add: error_count_def)
next
  case (Cons r rs)
  then have i: "i < length reqs" and le: "Suc i + length rs \<le> length reqs" by simp_all
  have d: "drop i reqs = reqs ! i # drop (Suc i) reqs" using i by (simp add: Cons_nth_drop_Suc)
  show ?case
  proof (cases "Error r")
    case None
    then show ?thesis using Cons.IH [OF le, of g] by (simp add: d error_count_def)
  next
    case (Some e)
    have "list_all (label_ok P) [GetAuthCtx ctx, b, Method (reqs ! i)]"
      using assms(1) i by (simp add: list_all_iff)
    from rpc_error_val [OF this, of e g] obtain g1 where
      g1: "RecordRPCError P ctx b (Method (reqs ! i)) (RpcE e) g = Return g1"
      "\<And>lvs. val g1 rpcErrorsTotal lvs = val g rpcErrorsTotal lvs +
         (if lvs = [GetAuthCtx ctx, b, Method (reqs ! i), fmt_d (Code e)] then 1 else 0)" by blast
    show ?thesis using Cons.IH [OF le, of g1] i
      by (fastforce simp: Some g1 d error_count_def fmt_d_inj)
  qed
qed

end


text \<open>A registry that holds the values themselves and accepts ASCII labels.\<close>

definition ref_prometheus :: "(metric \<Rightarrow> string list \<Rightarrow> rat) prometheus" where
  "ref_prometheus = \<lparr>label_ok = ascii_text,
     prom_Add = \<lambda>m lvs x g. g(m := (g m)(lvs := g m lvs + x)),
     prom_Set = \<lambda>m lvs x g. g(m := (g m)(lvs := x)),
     prom_Observe = \<lambda>m lvs x g. g(m := (g m)(lvs := g m lvs + 1))\<rparr>"

interpretation ref_registry: prometheus_client ref_prometheus "\<lambda>g. g"
  by unfold_locales (auto simp: ref_prometheus_def ascii_text_def)

definition busy_res :: "string \<Rightarrow> RPCRes" where
  "busy_res i = \<lparr>rs_JSONRPC = ''2.0'', Result = NilVal, Error = Some (mkRPCErr (-32000) ''Transaction pool is full'' 500), rs_ID = i\<rparr>"

lemma busy_res_fields [simp]: "rs_ID (busy_res i) = i" "Error (busy_res i) = Some (mkRPCErr (-32000) ''Transaction pool is full'' 500)"
  by (simp_all add: busy_res_def)


lemma register_all_distinct:
  "distinct (map m_name (rs @ ms)) \<Longrightarrow> register_all rs ms = Return (rs @ ms)"
  by (induction rs ms rule: register_all.induct) auto

lemma metric_names_distinct: "distinct (map m_name all_metrics)"
  by (simp add: all_metrics_def metric_defs)



lemma Contains_prefix: "strings_HasPrefix s (p @ q) \<Longrightarrow> q \<noteq> [] \<Longrightarrow> strings_Contains s q"
proof (induction p arbitrary: s)
  case Nil
  then show ?case by (cases s; cases q) auto
next
  case (Cons c p)
  then show ?case by (cases s) auto
qed

lemma Contains_suffix: "strings_Contains s (p @ q) \<Longrightarrow> q \<noteq> [] \<Longrightarrow> strings_Contains s q"
proof (induction s)
  case (Cons c s)
  then show ?case using Contains_prefix [of "c # s" p q] by auto
qed simp

lemma special_error_contains: "special_error msg es = Some e \<Longrightarrow> strings_Contains msg e"
  by (induction es) (auto split: if_splits)

lemma pool_never_first: "special_error msg rpcSpecialErrors \<noteq> Some ''transaction pool is full''"
proof
  assume s: "special_error msg rpcSpecialErrors = Some ''transaction pool is full''"
  have "strings_Contains msg ''transaction pool is full''" using special_error_contains [OF s] .
  then have "strings_Contains msg ''pool is full''" using Contains_suffix [of msg "''transaction ''" "''pool is full''"] by simp
  then show False using s by (simp add: rpcSpecialErrors_def split: if_splits)
qed

text \<open>
  A special error that is never counted. The counter of special errors for the text
  \<open>transaction pool is full\<close> stays as it is whatever error is recorded, also for an error with
  exactly that message: \<open>pool is full\<close>, which it contains, comes first in the list.
\<close>

theorem transaction_pool_full_uncounted:
  assumes "prometheus_client P val" "RecordRPCError P ctx b m err g = Return g'"
  shows "val g' rpcSpecialErrorsTotal [a, b', m', ''transaction pool is full''] =
    val g rpcSpecialErrorsTotal [a, b', m', ''transaction pool is full'']"
proof -
  have i: "val g2 rpcSpecialErrorsTotal lvs = val g1 rpcSpecialErrorsTotal lvs"
    if "vec_Inc P rpcErrorsTotal xs g1 = Return g2" for xs g1 g2 lvs
    using that metrics_distinct
    by (auto simp: vec_Inc_def WithLabelValues_def prometheus_client.val_Add [OF assms(1)] split: if_splits)
  have s: "val g1 rpcSpecialErrorsTotal [a, b', m', ''transaction pool is full''] =
      val g rpcSpecialErrorsTotal [a, b', m', ''transaction pool is full'']"
    if "MaybeRecordSpecialRPCError P ctx b m e g = Return g1" for e g1
    using that pool_never_first [of "strings_ToLower (Message e)"]
    by (auto simp: MaybeRecordSpecialRPCError_def vec_Inc_def WithLabelValues_def prometheus_client.val_Add [OF assms(1)]
        split: if_splits option.splits)
  show ?thesis using assms(2) i s by (cases err) (auto simp: RecordRPCError_def go_outcome)
qed

theorem transaction_pool_full_uncounted_witness:
  "\<exists>g'. RecordRPCError ref_prometheus no_ctx ''a'' ''m'' (RpcE (mkRPCErr (-1) ''Transaction pool is full'' 500)) (\<lambda>_ _. 0) = Return g' \<and>
    g' rpcSpecialErrorsTotal [''none'', ''a'', ''m'', ''transaction pool is full''] = 0"
proof -
  have ok: "list_all (label_ok ref_prometheus) [GetAuthCtx no_ctx, ''a'', ''m'']"
    by (simp add: ref_prometheus_def ascii_text_def GetAuthCtx_def no_ctx_def)
  obtain g' where g: "RecordRPCError ref_prometheus no_ctx ''a'' ''m'' (RpcE (mkRPCErr (-1) ''Transaction pool is full'' 500)) (\<lambda>_ _. 0) = Return g'"
    using ref_registry.rpc_error_val [OF ok] by blast
  show ?thesis using transaction_pool_full_uncounted [OF ref_registry.prometheus_client_axioms g, of "''none''" "''a''" "''m''"] g by blast
qed

end
