(* ===== verification/Lifecycle.thy ===== *)
theory Lifecycle
  imports Config Metrics
begin

section \<open>The life of the process\<close>

text \<open>
  The life of the process (\<open>cmd/proxyd/main.go\<close>, the goroutines that \<open>Start\<close> of \<open>proxyd.go\<close> launches,
  \<open>RPCListenAndServe\<close>, \<open>WSListenAndServe\<close> and \<open>Shutdown\<close> of \<open>server.go\<close>, the asynchronous handlers of
  \<open>consensus_poller.go\<close>): the command up to the signal, the goroutines that listen and poll as a
  step relation, and the shutdown. The decoder of TOML is a parameter; of \<open>net/http\<close> a server is its
  address, its routes and whether it listens or shuts down. The lemmas show that after a shutdown
  nothing listens, the pollers are cancelled and the goroutines can end, and that a shutdown that
  comes before the servers are made is missed.
\<close>

subsection \<open>HTTP servers\<close>

datatype handler = HandleHealthz | HandleRPC | HandleWS | Pprof string

text \<open>A route: its pattern, the methods it is limited to and the handler.\<close>

type_synonym route = "string \<times> string list \<times> handler"

record http_Server =
  hs_Addr :: string
  hs_routes :: "route list"
  inShutdown :: bool
  listening :: bool

definition new_http_Server :: "string \<Rightarrow> route list \<Rightarrow> http_Server" where
  "new_http_Server addr routes = \<lparr>hs_Addr = addr, hs_routes = routes, inShutdown = False, listening = False\<rparr>"

text \<open>\<open>Shutdown\<close> of \<open>net/http\<close>: the server is marked and its listeners are closed.\<close>

definition http_Shutdown :: "http_Server \<Rightarrow> http_Server" where
  "http_Shutdown hs = hs\<lparr>inShutdown := True, listening := False\<rparr>"

text \<open>A goroutine that makes a server and serves: not yet run, with the server made, serving, returned.\<close>

datatype pc = Created | Ready | Serving | Ended

record listener =
  ln_server :: "http_Server option"
  ln_pc :: "pc option"

text \<open>The server that \<open>RPCListenAndServe\<close> and \<open>WSListenAndServe\<close> store before they serve.\<close>

definition RPCListenAndServe :: "string \<Rightarrow> int \<Rightarrow> listener \<Rightarrow> listener" where
  "RPCListenAndServe host port l = l\<lparr>ln_server := Some (new_http_Server (host @ '':'' @ fmt_d port)
     [(''/healthz'', [''GET''], HandleHealthz), (''/{path:.*}'', [''POST''], HandleRPC)])\<rparr>"

definition WSListenAndServe :: "string \<Rightarrow> int \<Rightarrow> listener \<Rightarrow> listener" where
  "WSListenAndServe host port l = l\<lparr>ln_server := Some (new_http_Server (host @ '':'' @ fmt_d port)
     [(''/'', [], HandleWS), (''/{authorization}'', [], HandleWS)])\<rparr>"

text \<open>
  A step of such a goroutine, and whether it ends the process: \<open>ListenAndServe\<close> returns
  \<open>ErrServerClosed\<close> once the server shuts down, which ends the goroutine; every other error is
  critical and exits.
\<close>

inductive listener_step :: "(listener \<Rightarrow> listener) \<Rightarrow> listener \<Rightarrow> listener \<Rightarrow> bool \<Rightarrow> bool" for mk where
  make: "ln_pc l = Some Created \<Longrightarrow> listener_step mk l ((mk l)\<lparr>ln_pc := Some Ready\<rparr>) False"
| listen: "ln_pc l = Some Ready \<Longrightarrow> ln_server l = Some hs \<Longrightarrow> \<not> inShutdown hs \<Longrightarrow>
    listener_step mk l \<lparr>ln_server = Some (hs\<lparr>listening := True\<rparr>), ln_pc = Some Serving\<rparr> False"
| fail: "ln_pc l = Some Ready \<or> ln_pc l = Some Serving \<Longrightarrow> ln_server l = Some hs \<Longrightarrow> \<not> inShutdown hs \<Longrightarrow>
    listener_step mk l (l\<lparr>ln_pc := Some Ended\<rparr>) True"
| closed: "ln_pc l = Some Ready \<or> ln_pc l = Some Serving \<Longrightarrow> ln_server l = Some hs \<Longrightarrow> inShutdown hs \<Longrightarrow>
    listener_step mk l (l\<lparr>ln_pc := Some Ended\<rparr>) False"

inductive_cases listener_stepE: "listener_step mk l l' crit"

subsection \<open>The goroutines of the pollers\<close>

datatype async_handler = NoopAsyncHandler | PollerAsyncHandler

datatype loop = PrimaryLoop string | FallbackLoop string | GroupLoop

definition handler_Init :: "async_handler \<Rightarrow> BackendGroup \<Rightarrow> loop list" where
  "handler_Init h bg = (case h of
       NoopAsyncHandler \<Rightarrow> []
     | PollerAsyncHandler \<Rightarrow> map PrimaryLoop (Primaries bg) @ map FallbackLoop (Fallbacks bg) @ [GroupLoop])"

text \<open>
  Of a group: the handler of its poller (none without a poller), whether the context of the poller
  is cancelled, the goroutines of the handler that have not returned, and whether a goroutine
  sends heartbeats of a shared tracker.
\<close>

record group_life =
  gl_handler :: "async_handler option"
  gl_cancelled :: bool
  gl_loops :: "loop list"
  gl_heartbeat :: bool

definition handler_Shutdown :: "async_handler \<Rightarrow> group_life \<Rightarrow> group_life" where
  "handler_Shutdown h gl = (case h of NoopAsyncHandler \<Rightarrow> gl | PollerAsyncHandler \<Rightarrow> gl\<lparr>gl_cancelled := True\<rparr>)"

definition BackendGroup_Shutdown :: "group_life \<Rightarrow> group_life" where
  "BackendGroup_Shutdown gl = (case gl_handler gl of None \<Rightarrow> gl | Some h \<Rightarrow> handler_Shutdown h gl)"

text \<open>
  A turn of the loop of a goroutine ends in a select of its timer and the end of its context; if
  both are ready either may be taken, so a cancelled goroutine may go on or return. The context of
  a shared tracker is the background context, which never ends.
\<close>

inductive group_step :: "group_life \<Rightarrow> group_life \<Rightarrow> bool" where
  turn: "lp \<in> set (gl_loops gl) \<Longrightarrow> group_step gl gl"
| return: "gl_loops gl = xs @ lp # ys \<Longrightarrow> gl_cancelled gl \<Longrightarrow> group_step gl (gl\<lparr>gl_loops := xs @ ys\<rparr>)"
| heartbeat: "gl_heartbeat gl \<Longrightarrow> group_step gl gl"

inductive_cases group_stepE: "group_step gl gl'"

subsection \<open>The process\<close>

record life =
  rpc :: listener
  ws :: listener
  lf_groups :: "(string \<times> group_life) list"
  exited :: bool

definition group_launch :: "BackendGroupConfig \<Rightarrow> BackendGroup \<Rightarrow> ('e, tracker) ConsensusPoller option \<Rightarrow> group_life" where
  "group_launch cfg bg con = (case con of
       None \<Rightarrow> \<lparr>gl_handler = None, gl_cancelled = False, gl_loops = [], gl_heartbeat = False\<rparr>
     | Some cp \<Rightarrow>
         (let h = if gc_ConsensusAsyncHandler cfg = ''noop'' then NoopAsyncHandler else PollerAsyncHandler
          in \<lparr>gl_handler = Some h, gl_cancelled = False, gl_loops = handler_Init h bg, gl_heartbeat = gc_ConsensusHA cfg\<rparr>))"

text \<open>The goroutines when \<open>Start\<close> returns, before any of those that listen has run.\<close>

definition launch :: "Config \<Rightarrow> ('e, 'm, 'r, 'u) started \<Rightarrow> life" where
  "launch c st =
     \<lparr>rpc = \<lparr>ln_server = None, ln_pc = (if RPCPort (cf_Server c) \<noteq> 0 then Some Created else None)\<rparr>,
      ws = \<lparr>ln_server = None, ln_pc = (if WSPort (cf_Server c) \<noteq> 0 then Some Created else None)\<rparr>,
      lf_groups = concat (map (\<lambda>(n, cfg). case BackendGroups (st_server st) n of
          None \<Rightarrow> [] | Some (bg, con) \<Rightarrow> [(n, group_launch cfg bg con)]) (cf_BackendGroups c)),
      exited = False\<rparr>"

definition Server_Shutdown :: "life \<Rightarrow> life" where
  "Server_Shutdown s =
     s\<lparr>rpc := (rpc s)\<lparr>ln_server := map_option http_Shutdown (ln_server (rpc s))\<rparr>,
       ws := (ws s)\<lparr>ln_server := map_option http_Shutdown (ln_server (ws s))\<rparr>,
       lf_groups := map (\<lambda>(n, gl). (n, BackendGroup_Shutdown gl)) (lf_groups s)\<rparr>"

inductive life_step :: "ServerConfig \<Rightarrow> life \<Rightarrow> life \<Rightarrow> bool" for sc where
  rpc_step: "\<not> exited s \<Longrightarrow> listener_step (RPCListenAndServe (RPCHost sc) (RPCPort sc)) (rpc s) l crit \<Longrightarrow>
    life_step sc s (s\<lparr>rpc := l, exited := crit\<rparr>)"
| ws_step: "\<not> exited s \<Longrightarrow> listener_step (WSListenAndServe (WSHost sc) (WSPort sc)) (ws s) l crit \<Longrightarrow>
    life_step sc s (s\<lparr>ws := l, exited := crit\<rparr>)"
| group_loop: "\<not> exited s \<Longrightarrow> lf_groups s = xs @ (n, gl) # ys \<Longrightarrow> group_step gl gl' \<Longrightarrow>
    life_step sc s (s\<lparr>lf_groups := xs @ (n, gl') # ys\<rparr>)"

inductive_cases life_stepE: "life_step sc s s'"

subsection \<open>The command\<close>

datatype level = LevelTrace | LevelDebug | LevelInfo | LevelWarn | LevelError | LevelCrit

text \<open>Levels are ordered by their numbers in \<open>slog\<close>.\<close>

primrec slog_number :: "level \<Rightarrow> int" where
  "slog_number LevelTrace = -8"
| "slog_number LevelDebug = -4"
| "slog_number LevelInfo = 0"
| "slog_number LevelWarn = 4"
| "slog_number LevelError = 8"
| "slog_number LevelCrit = 12"

lemma slog_number_inj: "slog_number a = slog_number b \<longleftrightarrow> a = b"
  by (cases a; cases b) simp_all

instantiation level :: linorder
begin

definition less_eq_level :: "level \<Rightarrow> level \<Rightarrow> bool" where
  "less_eq_level a b \<longleftrightarrow> slog_number a \<le> slog_number b"

definition less_level :: "level \<Rightarrow> level \<Rightarrow> bool" where
  "less_level a b \<longleftrightarrow> slog_number a < slog_number b"

instance
  by standard (auto simp: less_eq_level_def less_level_def slog_number_inj)

end

text \<open>The default logger writes the messages of its level and above.\<close>

definition SetLogLevel :: "level \<Rightarrow> level \<Rightarrow> bool" where
  "SetLogLevel logLevel l \<longleftrightarrow> logLevel \<le> l"

definition LevelFromString :: "string \<Rightarrow> level \<times> err option" where
  "LevelFromString s =
     (let lvlString = strings_ToLower s
      in if lvlString = ''trace'' \<or> lvlString = ''trce'' then (LevelTrace, None)
         else if lvlString = ''debug'' \<or> lvlString = ''dbug'' then (LevelDebug, None)
         else if lvlString = ''info'' then (LevelInfo, None)
         else if lvlString = ''warn'' then (LevelWarn, None)
         else if lvlString = ''error'' \<or> lvlString = ''eror'' then (LevelError, None)
         else if lvlString = ''crit'' then (LevelCrit, None)
         else (LevelDebug, Some (Errorf (''unknown level: '' @ lvlString))))"

definition net_JoinHostPort :: "string \<Rightarrow> string \<Rightarrow> string" where
  "net_JoinHostPort host port = (if CHR '':'' \<in> set host then ''['' @ host @ '']:'' @ port else host @ '':'' @ port)"

text \<open>The server of the profiler; a goroutine serves it and ignores its errors.\<close>

definition StartPProf :: "string \<Rightarrow> int \<Rightarrow> http_Server" where
  "StartPProf hostname port = new_http_Server (net_JoinHostPort hostname (fmt_d port))
     [(''/debug/pprof/'', [], Pprof ''Index''), (''/debug/pprof/cmdline'', [], Pprof ''Cmdline''),
      (''/debug/pprof/profile'', [], Pprof ''Profile''), (''/debug/pprof/symbol'', [], Pprof ''Symbol''),
      (''/debug/pprof/trace'', [], Pprof ''Trace'')]"

text \<open>How the command goes on: it exits with a critical message, it panics, or it waits for a signal.\<close>

datatype 's command = Exits string | Panics | Waits level "http_Server option" 's

definition log_level :: "ServerConfig \<Rightarrow> level" where
  "log_level sc = (case LevelFromString (LogLevel sc) of (l, None) \<Rightarrow> l | (l, Some err) \<Rightarrow> LevelInfo)"

definition main :: "('e, 'm, 'h, 'r, 'u) deps \<Rightarrow> (string \<Rightarrow> err + Config) \<Rightarrow> string list
    \<Rightarrow> (Config \<times> ('e, 'm, 'r, 'u) started \<times> life) command" where
  "main D toml_DecodeFile args =
     (case args of
        _ # file # _ \<Rightarrow>
          (case toml_DecodeFile file of
             Inl err \<Rightarrow> Exits ''error reading config file''
           | Inr c \<Rightarrow>
               (case Start D c of
                  StartError err \<Rightarrow> Exits ''error starting proxyd''
                | Crit msg \<Rightarrow> Exits msg
                | NilLimiters \<Rightarrow> Panics
                | Started st \<Rightarrow> Waits (log_level (cf_Server c))
                    (if EnablePprof (cf_Server c) then Some (StartPProf ''0.0.0.0'' 6060) else None) (c, st, launch c st)))
      | _ \<Rightarrow> Exits ''must specify a config file on the command line'')"

text \<open>On a signal the command shuts the server down.\<close>

definition on_signal :: "life \<Rightarrow> life" where
  "on_signal s = Server_Shutdown s"

subsection \<open>Lemmas\<close>

text \<open>Whatever the level, the message with which the process exits is written.\<close>

lemma critical_written: "SetLogLevel l LevelCrit"
  by (cases l) (simp_all add: SetLogLevel_def less_eq_level_def)

lemma levels_ignore_case: "LevelFromString (strings_ToLower s) = LevelFromString s"
proof -
  have c: "lower_char (lower_char c) = lower_char c" for c by (simp add: lower_char_def)
  show ?thesis by (simp add: LevelFromString_def strings_ToLower_def c comp_def)
qed

definition ln_ok :: "listener \<Rightarrow> bool" where
  "ln_ok l \<longleftrightarrow> (case ln_pc l of None \<Rightarrow> ln_server l = None | Some Created \<Rightarrow> ln_server l = None | _ \<Rightarrow> ln_server l \<noteq> None)"

definition gl_ok :: "group_life \<Rightarrow> bool" where
  "gl_ok gl \<longleftrightarrow> (gl_loops gl = [] \<or> gl_handler gl = Some PollerAsyncHandler)"

definition life_ok :: "life \<Rightarrow> bool" where
  "life_ok s \<longleftrightarrow> ln_ok (rpc s) \<and> ln_ok (ws s) \<and> list_all (gl_ok \<circ> snd) (lf_groups s)"

definition makes_server :: "(listener \<Rightarrow> listener) \<Rightarrow> bool" where
  "makes_server mk \<longleftrightarrow> (\<forall>l. \<exists>hs. mk l = l\<lparr>ln_server := Some hs\<rparr>)"

lemma makes_RPC: "makes_server (RPCListenAndServe h p)" and makes_WS: "makes_server (WSListenAndServe h p)"
  by (auto simp: makes_server_def RPCListenAndServe_def WSListenAndServe_def)

lemma listener_step_ok: "listener_step mk l l' crit \<Longrightarrow> makes_server mk \<Longrightarrow> ln_ok l'"
  by (erule listener_stepE) (auto simp: ln_ok_def makes_server_def dest: spec [of _ l])

lemma group_step_ok: "group_step gl gl' \<Longrightarrow> gl_ok gl \<Longrightarrow> gl_ok gl'"
  by (erule group_stepE) (auto simp: gl_ok_def)

lemma life_step_ok: "life_step sc s s' \<Longrightarrow> life_ok s \<Longrightarrow> life_ok s'"
  by (erule life_stepE)
    (auto simp: life_ok_def makes_RPC makes_WS dest: listener_step_ok group_step_ok)

lemma launch_ok: "life_ok (launch c st)"
proof -
  have "gl_ok (group_launch cfg bg con)" for cfg bg con
    by (auto simp: gl_ok_def group_launch_def handler_Init_def Let_def split: option.split)
  then show ?thesis
    by (auto simp: life_ok_def launch_def ln_ok_def list_all_iff split: option.splits)
qed

lemma life_steps_ok: "(life_step sc)\<^sup>*\<^sup>* s s' \<Longrightarrow> life_ok s \<Longrightarrow> life_ok s'"
  by (induction rule: rtranclp_induct) (simp_all add: life_step_ok)

text \<open>A listener, a group and a process that stop.\<close>

definition ln_stops :: "listener \<Rightarrow> bool" where
  "ln_stops l \<longleftrightarrow> (case ln_pc l of None \<Rightarrow> True | Some p \<Rightarrow> p \<noteq> Created \<and> ln_server l \<noteq> None) \<and>
     (case ln_server l of None \<Rightarrow> True | Some hs \<Rightarrow> inShutdown hs \<and> \<not> listening hs)"

definition gl_stops :: "group_life \<Rightarrow> bool" where
  "gl_stops gl \<longleftrightarrow> gl_loops gl = [] \<or> gl_cancelled gl"

definition stops :: "life \<Rightarrow> bool" where
  "stops s \<longleftrightarrow> \<not> exited s \<and> ln_stops (rpc s) \<and> ln_stops (ws s) \<and> list_all (gl_stops \<circ> snd) (lf_groups s)"

definition ln_ended :: "listener \<Rightarrow> bool" where
  "ln_ended l \<longleftrightarrow> ln_pc l = None \<or> ln_pc l = Some Ended"

definition all_ended :: "life \<Rightarrow> bool" where
  "all_ended s \<longleftrightarrow> ln_ended (rpc s) \<and> ln_ended (ws s) \<and> list_all (\<lambda>(n, gl). gl_loops gl = []) (lf_groups s)"

definition is_listening :: "listener \<Rightarrow> bool" where
  "is_listening l \<longleftrightarrow> (case ln_server l of None \<Rightarrow> False | Some hs \<Rightarrow> listening hs)"

lemma listener_step_stops:
  "listener_step mk l l' crit \<Longrightarrow> ln_stops l \<Longrightarrow> ln_stops l' \<and> \<not> crit"
  by (erule listener_stepE) (auto simp: ln_stops_def)

lemma group_step_stops: "group_step gl gl' \<Longrightarrow> gl_stops gl \<Longrightarrow> gl_stops gl'"
  by (erule group_stepE) (auto simp: gl_stops_def)

lemma life_step_stops: "life_step sc s s' \<Longrightarrow> stops s \<Longrightarrow> stops s'"
  by (erule life_stepE) (auto simp: stops_def dest: listener_step_stops group_step_stops)

lemma life_steps_stops: "(life_step sc)\<^sup>*\<^sup>* s s' \<Longrightarrow> stops s \<Longrightarrow> stops s'"
  by (induction rule: rtranclp_induct) (simp_all add: life_step_stops)

lemma Shutdown_stops:
  assumes "life_ok s" "\<not> exited s" "ln_pc (rpc s) \<noteq> Some Created" "ln_pc (ws s) \<noteq> Some Created"
  shows "stops (Server_Shutdown s)"
proof -
  have l: "ln_stops (l\<lparr>ln_server := map_option http_Shutdown (ln_server l)\<rparr>)" if "ln_ok l" "ln_pc l \<noteq> Some Created" for l
    using that by (auto simp: ln_stops_def ln_ok_def http_Shutdown_def split: option.splits pc.splits)
  have g: "gl_stops (BackendGroup_Shutdown gl)" if "gl_ok gl" for gl
    using that by (auto simp: gl_stops_def gl_ok_def BackendGroup_Shutdown_def handler_Shutdown_def split: option.splits async_handler.splits)
  show ?thesis using assms l g by (auto simp: stops_def Server_Shutdown_def life_ok_def list_all_iff)
qed

lemma listener_ends:
  assumes "ln_stops l" "\<not> ln_ended l"
  shows "listener_step mk l (l\<lparr>ln_pc := Some Ended\<rparr>) False"
proof -
  obtain p where p: "ln_pc l = Some p" "p \<noteq> Ended" using assms(2) by (auto simp: ln_ended_def)
  then obtain hs where "ln_server l = Some hs" "inShutdown hs" "p \<noteq> Created"
    using assms(1) by (auto simp: ln_stops_def split: option.splits)
  then show ?thesis using p by (intro listener_step.closed) (cases p; simp)+
qed

definition life_measure :: "life \<Rightarrow> nat" where
  "life_measure s = (if ln_ended (rpc s) then 0 else 1) + (if ln_ended (ws s) then 0 else 1) +
     sum_list (map (length \<circ> gl_loops \<circ> snd) (lf_groups s))"

lemma stops_progress:
  assumes "stops s" "\<not> all_ended s"
  shows "\<exists>s'. life_step sc s s' \<and> life_measure s' < life_measure s"
proof -
  have x: "\<not> exited s" and l: "ln_stops (rpc s)" "ln_stops (ws s)" using assms(1) by (simp_all add: stops_def)
  consider "\<not> ln_ended (rpc s)" | "\<not> ln_ended (ws s)" | "\<not> list_all (\<lambda>(n, gl). gl_loops gl = []) (lf_groups s)"
    using assms(2) by (auto simp: all_ended_def)
  then show ?thesis
  proof cases
    case 1
    show ?thesis
      by (rule exI, rule conjI, rule life_step.rpc_step [OF x listener_ends [OF l(1) 1]])
        (use 1 in \<open>simp add: life_measure_def ln_ended_def\<close>)
  next
    case 2
    show ?thesis
      by (rule exI, rule conjI, rule life_step.ws_step [OF x listener_ends [OF l(2) 2]])
        (use 2 in \<open>simp add: life_measure_def ln_ended_def\<close>)
  next
    case 3
    then obtain n gl where g: "(n, gl) \<in> set (lf_groups s)" "gl_loops gl \<noteq> []" by (auto simp: list_all_iff)
    then obtain xs ys lp lps where s: "lf_groups s = xs @ (n, gl) # ys" "gl_loops gl = [] @ lp # lps"
      by (metis append_Nil list.exhaust split_list)
    have "gl_cancelled gl" using assms(1) g by (auto simp: stops_def list_all_iff gl_stops_def)
    from life_step.group_loop [OF x s(1) group_step.return [OF s(2) this]]
    have "life_step sc s (s\<lparr>lf_groups := xs @ (n, gl\<lparr>gl_loops := [] @ lps\<rparr>) # ys\<rparr>)" .
    moreover have "life_measure (s\<lparr>lf_groups := xs @ (n, gl\<lparr>gl_loops := [] @ lps\<rparr>) # ys\<rparr>) < life_measure s"
      by (simp add: life_measure_def s)
    ultimately show ?thesis by blast
  qed
qed

lemma stops_ends: "stops s \<Longrightarrow> \<exists>s'. (life_step sc)\<^sup>*\<^sup>* s s' \<and> all_ended s'"
proof (induction "life_measure s" arbitrary: s rule: less_induct)
  case less
  show ?case
  proof (cases "all_ended s")
    case False
    obtain s1 where s1: "life_step sc s s1" "life_measure s1 < life_measure s"
      using stops_progress [OF less(2) False] by blast
    from less(1) [OF s1(2) life_step_stops [OF s1(1) less(2)]] show ?thesis
      using s1(1) by (meson converse_rtranclp_into_rtranclp)
  qed blast
qed

lemma stops_silent: "stops s \<Longrightarrow> \<not> is_listening (rpc s) \<and> \<not> is_listening (ws s)"
  by (auto simp: stops_def ln_stops_def is_listening_def split: option.splits)

subsection \<open>Properties\<close>

lemma main_Waits:
  assumes "main D toml args = Waits lvl pprof (c, st, s)"
  shows "Start D c = Started st" "s = launch c st" "lvl = log_level (cf_Server c)"
  using assms by (auto simp: main_def split: list.splits sum.splits start.splits)


lemma makes_both:
  assumes "ln_pc (rpc s) = Some Created" "ln_pc (ws s) = Some Created" "\<not> exited s"
  shows "\<exists>s'. (life_step sc)\<^sup>*\<^sup>* s s' \<and> \<not> exited s' \<and> ln_pc (rpc s') = Some Ready \<and> ln_pc (ws s') = Some Ready"
proof -
  let ?r = "(RPCListenAndServe (RPCHost sc) (RPCPort sc) (rpc s))\<lparr>ln_pc := Some Ready\<rparr>"
  let ?w = "(WSListenAndServe (WSHost sc) (WSPort sc) (ws s))\<lparr>ln_pc := Some Ready\<rparr>"
  have 1: "life_step sc s (s\<lparr>rpc := ?r, exited := False\<rparr>)"
    by (rule life_step.rpc_step [OF assms(3) listener_step.make [OF assms(1)]])
  have "life_step sc (s\<lparr>rpc := ?r, exited := False\<rparr>) (s\<lparr>rpc := ?r, exited := False\<rparr>\<lparr>ws := ?w, exited := False\<rparr>)"
    by (rule life_step.ws_step) (simp_all add: listener_step.make assms(2))
  then have "(life_step sc)\<^sup>*\<^sup>* s (s\<lparr>rpc := ?r, exited := False\<rparr>\<lparr>ws := ?w, exited := False\<rparr>)"
    using 1 by (meson converse_rtranclp_into_rtranclp r_into_rtranclp)
  then show ?thesis by (intro exI conjI, assumption) simp_all
qed

lemma example_main:
  "\<exists>st. main example_deps (\<lambda>_. Inr example_config) [''proxyd'', ''config.toml''] =
     Waits LevelInfo None (example_config, st, launch example_config st)"
proof -
  obtain st where "Start example_deps example_config = Started st" using example_starts by blast
  then show ?thesis
    by (simp add: main_def log_level_def LevelFromString_def strings_ToLower_def example_config_def)
qed

lemma example_launch: "ln_pc (rpc (launch example_config st)) = Some Created" "ln_pc (ws (launch example_config st)) = Some Created"
  "\<not> exited (launch example_config st)"
  by (simp_all add: launch_def example_config_def)


lemma listening_stays:
  assumes "(life_step sc)\<^sup>*\<^sup>* s s'" "ln_pc (rpc s) = Some Serving" "ln_server (rpc s) = Some hs" "\<not> inShutdown hs"
  shows "exited s' \<or> (ln_pc (rpc s') = Some Serving \<and> ln_server (rpc s') = Some hs)"
  using assms(1)
proof (induction rule: rtranclp_induct)
  case (step y z)
  have l: "crit" if "listener_step mk l l' crit" "ln_pc l = Some Serving" "ln_server l = Some hs" for mk l l' crit
    using that assms(4) by (auto elim: listener_stepE)
  from step(2,3) show ?case by (auto elim!: life_stepE dest: l)
qed (use assms in simp)

text \<open>
  A shutdown that is missed. If the shutdown comes before the goroutine of the RPC server has run,
  there is no server to shut down yet: the goroutine makes it afterwards and listens, and it goes
  on listening until an error ends the process.
\<close>

theorem early_shutdown_missed:
  assumes "main D toml args = Waits lvl pprof (c, st, s0)" "RPCPort (cf_Server c) \<noteq> 0"
  shows "\<exists>s. (life_step (cf_Server c))\<^sup>*\<^sup>* (on_signal s0) s \<and> is_listening (rpc s) \<and>
    (\<forall>s'. (life_step (cf_Server c))\<^sup>*\<^sup>* s s' \<longrightarrow> exited s' \<or> is_listening (rpc s'))"
proof -
  let ?sc = "cf_Server c"
  let ?s = "on_signal s0"
  let ?l = "(RPCListenAndServe (RPCHost ?sc) (RPCPort ?sc) (rpc ?s))\<lparr>ln_pc := Some Ready\<rparr>"
  obtain hs where hs: "ln_server ?l = Some hs" "\<not> inShutdown hs"
    by (simp add: RPCListenAndServe_def new_http_Server_def)
  let ?l' = "\<lparr>ln_server = Some (hs\<lparr>listening := True\<rparr>), ln_pc = Some Serving\<rparr>"
  have c: "\<not> exited ?s" "ln_pc (rpc ?s) = Some Created"
    using assms(2) main_Waits(2) [OF assms(1)] by (simp_all add: on_signal_def Server_Shutdown_def launch_def)
  have 1: "life_step ?sc ?s (?s\<lparr>rpc := ?l, exited := False\<rparr>)"
    by (rule life_step.rpc_step [OF c(1) listener_step.make [OF c(2)]])
  have "life_step ?sc (?s\<lparr>rpc := ?l, exited := False\<rparr>) (?s\<lparr>rpc := ?l, exited := False\<rparr>\<lparr>rpc := ?l', exited := False\<rparr>)"
    by (rule life_step.rpc_step) (use hs in \<open>auto intro!: listener_step.listen\<close>)
  then have r: "(life_step ?sc)\<^sup>*\<^sup>* ?s (?s\<lparr>rpc := ?l, exited := False\<rparr>\<lparr>rpc := ?l', exited := False\<rparr>)"
    using 1 by (meson converse_rtranclp_into_rtranclp r_into_rtranclp)
  have "exited s' \<or> is_listening (rpc s')"
    if "(life_step ?sc)\<^sup>*\<^sup>* (?s\<lparr>rpc := ?l, exited := False\<rparr>\<lparr>rpc := ?l', exited := False\<rparr>) s'" for s'
    using listening_stays [OF that, of "hs\<lparr>listening := True\<rparr>"] hs by (auto simp: is_listening_def)
  moreover have "is_listening (rpc (?s\<lparr>rpc := ?l, exited := False\<rparr>\<lparr>rpc := ?l', exited := False\<rparr>))"
    by (simp add: is_listening_def)
  ultimately show ?thesis using r by blast
qed

theorem early_shutdown_missed_witness:
  "\<exists>st s. main example_deps (\<lambda>_. Inr example_config) [''proxyd'', ''config.toml''] =
      Waits LevelInfo None (example_config, st, launch example_config st) \<and>
    (life_step (cf_Server example_config))\<^sup>*\<^sup>* (on_signal (launch example_config st)) s \<and> is_listening (rpc s)"
proof -
  obtain st where m: "main example_deps (\<lambda>_. Inr example_config) [''proxyd'', ''config.toml''] =
      Waits LevelInfo None (example_config, st, launch example_config st)" using example_main by blast
  have "RPCPort (cf_Server example_config) \<noteq> 0" by (simp add: example_config_def)
  from early_shutdown_missed [OF m this] show ?thesis using m by blast
qed

end
