(* ===== verification/Mock_Server.thy ===== *)
theory Mock_Server
  imports Rpc
begin

section \<open>The mock server\<close>

text \<open>
  The mock server (\<open>tools/mockserver\<close>), which stands for backends in the integration tests: its
  templates and overrides and the handler that answers a request body with them. The text of JSON
  and YAML is a parameter. The lemmas show which template answers a request and that the answers of a
  batch keep the order and the ids of the requests.
\<close>

subsection \<open>Templates\<close>

record MethodTemplate =
  mt_Method :: string
  Block :: string
  Response :: string
  ResponseCode :: int

record MockedHandler =
  Overrides :: "MethodTemplate list"
  Autoload :: bool
  AutoloadFile :: string

definition AddOverride :: "MethodTemplate \<Rightarrow> MockedHandler \<Rightarrow> MockedHandler" where
  "AddOverride t mh = mh\<lparr>Overrides := Overrides mh @ [t]\<rparr>"

definition ResetOverrides :: "MockedHandler \<Rightarrow> MockedHandler" where
  "ResetOverrides mh = mh\<lparr>Overrides := []\<rparr>"

text \<open>
  Texts: \<open>json_parse\<close> reads a JSON value (nothing if the syntax is wrong), \<open>json_print\<close> writes one,
  \<open>json_res\<close> decodes a response, \<open>fields_print\<close> writes an object from the members of a response, \<open>read_file\<close> gives
  the contents of a file (nothing after an error) and \<open>yaml_templates\<close> the templates the decoder leaves, also
  after an error.
\<close>

datatype res_field = F_JSONRPC string | F_Result any | F_Error "RPCErr option" | F_ID string

record mock_text =
  json_parse :: "string \<Rightarrow> json option"
  json_print :: "json \<Rightarrow> string"
  json_res :: "string \<Rightarrow> RPCRes option"
  fields_print :: "res_field list \<Rightarrow> string"
  read_file :: "string \<Rightarrow> string"
  yaml_templates :: "string \<Rightarrow> MethodTemplate list"

definition LoadFromFile :: "mock_text \<Rightarrow> string \<Rightarrow> MethodTemplate list" where
  "LoadFromFile T file = yaml_templates T (read_file T file)"

definition templates :: "mock_text \<Rightarrow> MockedHandler \<Rightarrow> MethodTemplate list" where
  "templates T mh = (if Autoload mh then LoadFromFile T (AutoloadFile mh) else []) @ Overrides mh"

subsection \<open>Requests\<close>

text \<open>A value decoded into a map; after a type error the map stays nil, which reads as empty.\<close>

definition request_map :: "json \<Rightarrow> (string \<times> json) list" where
  "request_map j = (case unmarshal_map j of Some m \<Rightarrow> m | None \<Rightarrow> [])"

definition requests :: "mock_text \<Rightarrow> string \<Rightarrow> (string \<times> json) list list" where
  "requests T body =
     (if IsBatch body
      then (case json_parse T body of Some (JArr xs) \<Rightarrow> map request_map xs | _ \<Rightarrow> [])
      else [case json_parse T body of Some j \<Rightarrow> request_map j | None \<Rightarrow> []])"

text \<open>The member \<open>method\<close> compared with a string, and the first parameter as a string.\<close>

definition has_method :: "(string \<times> json) list \<Rightarrow> string \<Rightarrow> bool" where
  "has_method r m \<longleftrightarrow> map_of r ''method'' = Some (JStr m)"

definition request_block :: "(string \<times> json) list \<Rightarrow> string outcome" where
  "request_block r =
     (if has_method r ''eth_getBlockByNumber'' \<or> has_method r ''debug_getRawReceipts''
      then (case map_of r ''params'' of
              Some (JArr (JStr b # _)) \<Rightarrow> Return b
            | Some (JArr []) \<Rightarrow> Panic ''index out of range''
            | _ \<Rightarrow> Panic ''interface conversion'')
      else Return [])"

subsection \<open>The answer\<close>

text \<open>
  \<open>WriteHeader\<close> of \<open>net/http\<close> on the status written so far: only the first final status counts, a later one
  is ignored, informational ones do not count, and a code that has not three digits panics.
\<close>

definition WriteHeader :: "int \<Rightarrow> int option \<Rightarrow> int option outcome" where
  "WriteHeader code status =
     (case status of
        Some s \<Rightarrow> Return (Some s)
      | None \<Rightarrow>
          if code < 100 \<or> code > 999 then Panic ''invalid WriteHeader code''
          else if code \<le> 199 \<and> code \<noteq> 101 then Return None
          else Return (Some code))"

definition matches :: "(string \<times> json) list \<Rightarrow> string \<Rightarrow> MethodTemplate \<Rightarrow> bool" where
  "matches r block t \<longleftrightarrow> has_method r (mt_Method t) \<and> Block t = block"

text \<open>The loop over the templates: every match replaces the response and may write a status.\<close>

fun select_response ::
  "(string \<times> json) list \<Rightarrow> string \<Rightarrow> MethodTemplate list \<Rightarrow> string \<Rightarrow> int option \<Rightarrow> (string \<times> int option) outcome" where
  "select_response r block [] sel status = Return (sel, status)"
| "select_response r block (t # ts) sel status =
     (if matches r block t
      then obind (if ResponseCode t \<noteq> 0 then WriteHeader (ResponseCode t) status else Return status)
             (select_response r block ts (Response t))
      else select_response r block ts sel status)"

text \<open>
  A response is marshalled as a value, not through a pointer, so its own \<open>MarshalJSON\<close> is not called:
  all fields are written under their Go names.
\<close>

definition marshal_value :: "RPCRes \<Rightarrow> res_field list" where
  "marshal_value res = [F_JSONRPC (rs_JSONRPC res), F_Result (Result res), F_Error (Error res), F_ID (rs_ID res)]"

definition request_id :: "(string \<times> json) list \<Rightarrow> json" where
  "request_id r = (case map_of r ''id'' of Some j \<Rightarrow> j | None \<Rightarrow> JNull)"

definition answer :: "mock_text \<Rightarrow> (string \<times> json) list \<Rightarrow> string \<Rightarrow> string option outcome" where
  "answer T r sel =
     (if sel = [] then Return None
      else case json_res T sel of
          None \<Rightarrow> Panic ''invalid response''
        | Some res \<Rightarrow> Return (Some (fields_print T (marshal_value (res\<lparr>rs_ID := json_print T (request_id r)\<rparr>)))))"

fun answer_all ::
  "mock_text \<Rightarrow> MethodTemplate list \<Rightarrow> (string \<times> json) list list \<Rightarrow> int option \<Rightarrow> (string list \<times> int option) outcome" where
  "answer_all T ts [] status = Return ([], status)"
| "answer_all T ts (r # rs) status =
     obind (request_block r) (\<lambda>block.
     obind (select_response r block ts [] status) (\<lambda>(sel, status).
     obind (answer T r sel) (\<lambda>res.
     obind (answer_all T ts rs status) (\<lambda>(responses, status).
       Return ((case res of None \<Rightarrow> [] | Some s \<Rightarrow> [s]) @ responses, status)))))"

fun strings_Join :: "string list \<Rightarrow> string \<Rightarrow> string" where
  "strings_Join [] sep = []"
| "strings_Join [s] sep = s"
| "strings_Join (s # ss) sep = s @ sep @ strings_Join ss sep"

text \<open>What the client gets: the status (200 if none was written) and the body.\<close>

definition Handler :: "mock_text \<Rightarrow> MockedHandler \<Rightarrow> string \<Rightarrow> (int \<times> string) outcome" where
  "Handler T mh body =
     obind (answer_all T (templates T mh) (requests T body) None) (\<lambda>(responses, status).
       Return (case status of None \<Rightarrow> 200 | Some s \<Rightarrow> s,
         if IsBatch body then ''['' @ strings_Join responses '','' @ '']''
         else if responses \<noteq> [] then hd responses else []))"

definition http_ErrServerClosed :: err where
  "http_ErrServerClosed = Sentinel ''http: Server closed''"

text \<open>What \<open>Serve\<close> makes of the error with which \<open>ListenAndServe\<close> returns.\<close>

definition Serve :: "err option \<Rightarrow> err option" where
  "Serve err = (if errors_Is err http_ErrServerClosed then None else err)"

text \<open>The command: it needs two arguments, and a port that is no number is 0.\<close>

datatype mock_command = MockExits | MockServes int MockedHandler

definition mock_main :: "(string \<Rightarrow> int option) \<Rightarrow> (string \<Rightarrow> string \<Rightarrow> string) \<Rightarrow> string \<Rightarrow> string list \<Rightarrow> mock_command" where
  "mock_main parseInt path_Join dir args =
     (case args of
        _ # port # file # _ \<Rightarrow>
          MockServes (case parseInt port of Some p \<Rightarrow> p | None \<Rightarrow> 0)
            \<lparr>Overrides = [], Autoload = True, AutoloadFile = path_Join dir file\<rparr>
      | _ \<Rightarrow> MockExits)"

subsection \<open>Lemmas\<close>

text \<open>The template that answers a request, as a specification: the last one that matches.\<close>

definition last_match :: "(string \<times> json) list \<Rightarrow> string \<Rightarrow> MethodTemplate list \<Rightarrow> MethodTemplate option" where
  "last_match r block ts = (let ms = filter (matches r block) ts in if ms = [] then None else Some (last ms))"

lemma last_match_Cons:
  "last_match r block (t # ts) =
     (case last_match r block ts of Some u \<Rightarrow> Some u | None \<Rightarrow> if matches r block t then Some t else None)"
  by (simp add: last_match_def Let_def)

lemma last_match_append:
  "last_match r block (ts @ us) = (case last_match r block us of Some u \<Rightarrow> Some u | None \<Rightarrow> last_match r block ts)"
  by (simp add: last_match_def Let_def)

lemma select_last:
  "select_response r block ts sel status = Return (sel', status') \<Longrightarrow>
   sel' = (case last_match r block ts of None \<Rightarrow> sel | Some t \<Rightarrow> Response t)"
proof (induction r block ts sel status rule: select_response.induct)
  case 1
  then show ?case by (simp add: last_match_def)
next
  case (2 r block t ts sel status)
  show ?case
  proof (cases "matches r block t")
    case True
    then obtain st where "(if ResponseCode t \<noteq> 0 then WriteHeader (ResponseCode t) status else Return status) = Return st"
      "select_response r block ts (Response t) st = Return (sel', status')"
      using 2(3) by (auto simp: go_outcome)
    then show ?thesis using 2(1) [OF True] True by (auto simp: last_match_Cons split: option.splits)
  next
    case False
    then show ?thesis using 2(2,3) by (simp add: last_match_Cons split: option.splits)
  qed
qed

text \<open>The answer to one request, as a specification.\<close>

definition response_to :: "mock_text \<Rightarrow> MethodTemplate list \<Rightarrow> (string \<times> json) list \<Rightarrow> string option" where
  "response_to T ts r =
     (case request_block r of
        Panic _ \<Rightarrow> None
      | Return block \<Rightarrow>
          (case last_match r block ts of
             None \<Rightarrow> None
           | Some t \<Rightarrow> if Response t = [] then None
               else map_option (\<lambda>res. fields_print T (marshal_value (res\<lparr>rs_ID := json_print T (request_id r)\<rparr>))) (json_res T (Response t))))"

lemma answer_all_spec:
  "answer_all T ts rs status = Return (responses, status') \<Longrightarrow> responses = List.map_filter (response_to T ts) rs"
proof (induction rs arbitrary: status responses status')
  case Nil
  then show ?case by (simp add: map_filter_simps)
next
  case (Cons r rs)
  obtain block sel st1 res responses1 st2 where
    b: "request_block r = Return block" and s: "select_response r block ts [] status = Return (sel, st1)"
    and a: "answer T r sel = Return res" and q: "answer_all T ts rs st1 = Return (responses1, st2)"
    and e: "responses = (case res of None \<Rightarrow> [] | Some s \<Rightarrow> [s]) @ responses1"
    using Cons.prems by (auto simp: go_outcome)
  have "res = response_to T ts r"
    using a unfolding select_last [OF s] response_to_def b answer_def
    by (auto split: option.splits if_splits)
  then show ?case using e Cons.IH [OF q] by (simp add: map_filter_simps split: option.splits)
qed

text \<open>
  C39. The answers of the mock server. If the handler returns, the body is made of the answers to the
  requests in their order, each with the id of its request and the response of the last template
  that matches its method and block; requests without a match, or with an empty response, get no
  answer. A matching override is preferred to every template of the file.
\<close>

theorem mock_responses:
  assumes "Handler T mh body = Return (status, out)"
  shows "(let answers = List.map_filter (response_to T (templates T mh)) (requests T body)
          in out = (if IsBatch body then ''['' @ strings_Join answers '','' @ '']'' else if answers = [] then [] else hd answers)) \<and>
    (last_match r block (Overrides mh) = Some t \<longrightarrow> last_match r block (templates T mh) = Some t)"
proof -
  obtain responses st where a: "answer_all T (templates T mh) (requests T body) None = Return (responses, st)"
    and o: "out = (if IsBatch body then ''['' @ strings_Join responses '','' @ '']'' else if responses \<noteq> [] then hd responses else [])"
    using assms by (auto simp: Handler_def go_outcome)
  show ?thesis using o unfolding answer_all_spec [OF a] by (simp add: Let_def templates_def last_match_append)
qed

definition example_mock_text :: mock_text where
  "example_mock_text = \<lparr>json_parse = \<lambda>_. Some (JArr [JObj [(''method'', JStr ''eth_chainId''), (''id'', JStr ''7'')], JObj [(''method'', JStr ''net_version'')]]),
     json_print = \<lambda>j. case j of JStr s \<Rightarrow> s | _ \<Rightarrow> ''null'', json_res = \<lambda>s. Some (NewRPCRes [] (Raw s)),
     fields_print = \<lambda>fs. concat (map (\<lambda>f. case f of F_Result (Raw s) \<Rightarrow> s | F_ID i \<Rightarrow> '':'' @ i | _ \<Rightarrow> []) fs), read_file = \<lambda>f. f,
     yaml_templates = \<lambda>_. [\<lparr>mt_Method = ''eth_chainId'', Block = [], Response = ''file'', ResponseCode = 503\<rparr>]\<rparr>"

definition example_mock :: MockedHandler where
  "example_mock = AddOverride \<lparr>mt_Method = ''eth_chainId'', Block = [], Response = ''override'', ResponseCode = 200\<rparr>
     \<lparr>Overrides = [], Autoload = True, AutoloadFile = ''f''\<rparr>"

lemmas mock_eval = example_mock_text_def example_mock_def AddOverride_def Handler_def templates_def LoadFromFile_def
  requests_def request_map_def request_block_def has_method_def matches_def WriteHeader_def answer_def
  request_id_def marshal_value_def NewRPCRes_def

text \<open>
  The override answers, but the status is that of the template in the file, which was written first.
\<close>

lemma override_status_ignored: "Handler example_mock_text example_mock ''[]'' = Return (503, ''[override:7]'')"
  by (simp add: mock_eval)

theorem mock_responses_witness:
  "Handler example_mock_text example_mock ''[]'' = Return (503, ''[override:7]'') \<and>
   List.map_filter (response_to example_mock_text (templates example_mock_text example_mock)) (requests example_mock_text ''[]'') = [''override:7''] \<and>
   ''[override:7]'' = ''['' @ strings_Join (List.map_filter (response_to example_mock_text (templates example_mock_text example_mock))
      (requests example_mock_text ''[]'')) '','' @ '']''"
proof -
  have l: "List.map_filter (response_to example_mock_text (templates example_mock_text example_mock)) (requests example_mock_text ''[]'') = [''override:7'']"
    by (simp add: mock_eval map_filter_simps response_to_def last_match_def)
  show ?thesis using mock_responses [OF override_status_ignored] override_status_ignored l by (simp add: Let_def)
qed

end
